(* ===== verification/CLib.thy ===== *)
theory CLib
  imports Main "HOL-Library.Sublist"
begin

text \<open>
  The shared prelude: the parts of C and its library that the programs of the repository use.
  A byte and a C \<open>char\<close> are both \<open>char\<close>; a C string is the list of its characters before the
  terminating NUL; \<open>%d\<close>, \<open>%s\<close>, \<open>sscanf\<close>, \<open>atoi\<close>, \<open>strchr\<close>, \<open>strncpy\<close> and \<open>snprintf\<close> are
  functions on such lists. Conversions to \<open>int\<close> wrap at 32 bits, after the saturation of
  \<open>strtol\<close> at 64 bits (the rule of glibc).

  Collections: \<open>clib\<close> holds the rewrite rules that compute these functions on symbolic input
  (used as \<open>simp add: clib\<close>), \<open>bytes\<close> those of the little- and big-endian encodings.
\<close>

named_theorems clib \<open>rules of the C library functions on strings\<close>
named_theorems bytes \<open>rules of the encodings of integers as bytes\<close>

section \<open>Taking the first of a kind\<close>

text \<open>Message queues give the first message that satisfies a condition.\<close>

lemma filter_first:
  assumes "filter P q = m # ms"
  shows "\<exists>ys zs. q = ys @ m # zs \<and> remove1 m q = ys @ zs \<and> P m \<and> (\<forall>n \<in> set ys. \<not> P n) \<and> filter P zs = ms"
proof -
  obtain ys zs where s: "q = ys @ m # zs" "\<forall>n \<in> set ys. \<not> P n" "P m" "filter P zs = ms"
    using assms by (auto simp: filter_eq_Cons_iff)
  then have "m \<notin> set ys" by blast
  with s show ?thesis by (auto simp: remove1_append)
qed

section \<open>Bytes and integers\<close>

type_synonym byte = char

abbreviation NUL :: char where "NUL \<equiv> CHR 0x00"

text \<open>Little-endian encoding of a natural number in \<open>n\<close> bytes, and its inverse.\<close>

fun enc_le :: "nat \<Rightarrow> nat \<Rightarrow> byte list" where
  "enc_le 0 v = []"
| "enc_le (Suc n) v = char_of (v mod 256) # enc_le n (v div 256)"

fun dec_le :: "byte list \<Rightarrow> nat" where
  "dec_le [] = 0"
| "dec_le (b # bs) = of_char b + 256 * dec_le bs"

text \<open>Big-endian (network order): the same bytes reversed.\<close>

definition enc_be :: "nat \<Rightarrow> nat \<Rightarrow> byte list" where
  "enc_be n v = rev (enc_le n v)"

definition dec_be :: "byte list \<Rightarrow> nat" where
  "dec_be bs = dec_le (rev bs)"

lemma length_enc_le [simp]: "length (enc_le n v) = n"
  by (induction n arbitrary: v) auto

lemma length_enc_be [simp]: "length (enc_be n v) = n"
  by (simp add: enc_be_def)

lemma of_char_less [simp]: "(of_char c :: nat) < 256"
  using of_char_of [of "of_char c :: nat"] by (metis char_of_char mod_less_divisor zero_less_numeral of_char_of)

lemma dec_enc_le [bytes]: "dec_le (enc_le n v) = v mod 256 ^ n"
proof (induction n arbitrary: v)
  case 0
  then show ?case by simp
next
  case (Suc n)
  have "v mod (256 * 256 ^ n) = 256 * (v div 256 mod 256 ^ n) + v mod 256"
    by (rule mod_mult2_eq)
  with Suc show ?case by simp
qed

lemma dec_le_bound: "dec_le bs < 256 ^ length bs"
proof (induction bs)
  case Nil
  then show ?case by simp
next
  case (Cons b bs)
  have "of_char b + 256 * dec_le bs < 256 + 256 * dec_le bs" by simp
  also have "\<dots> = 256 * Suc (dec_le bs)" by simp
  also have "\<dots> \<le> 256 * 256 ^ length bs" using Cons by (simp del: mult_Suc_right)
  finally show ?case by simp
qed

lemma enc_dec_le [bytes]: "enc_le (length bs) (dec_le bs) = bs"
  by (induction bs) auto

lemma dec_enc_be [bytes]: "dec_be (enc_be n v) = v mod 256 ^ n"
  by (simp add: dec_be_def enc_be_def dec_enc_le)

lemma dec_be_bound: "dec_be bs < 256 ^ length bs"
  using dec_le_bound [of "rev bs"] by (simp add: dec_be_def)

lemma enc_dec_be [bytes]: "enc_be (length bs) (dec_be bs) = bs"
  using enc_dec_le [of "rev bs"] by (simp add: dec_be_def enc_be_def)

lemma dec_be_two: "dec_be [a, b] = 256 * of_char a + of_char b"
  by (simp add: dec_be_def)

text \<open>Reading a 32-bit pattern as a signed \<open>int\<close>, and the wrap-around of a conversion to \<open>int\<close>.\<close>

definition to_int32 :: "int \<Rightarrow> int" where
  "to_int32 v = (v + 2 ^ 31) mod 2 ^ 32 - 2 ^ 31"

lemma to_int32_id [simp]: "- (2 ^ 31) \<le> v \<Longrightarrow> v < 2 ^ 31 \<Longrightarrow> to_int32 v = v"
  by (simp add: to_int32_def)

lemma to_int32_range: "- (2 ^ 31) \<le> to_int32 v \<and> to_int32 v < 2 ^ 31"
proof -
  have "0 \<le> (v + 2147483648) mod 4294967296" and "(v + 2147483648) mod 4294967296 < 4294967296"
    by simp_all
  then show ?thesis by (simp add: to_int32_def)
qed

definition enc_int32 :: "int \<Rightarrow> byte list" where
  "enc_int32 v = enc_le 4 (nat (v mod 2 ^ 32))"

definition dec_int32 :: "byte list \<Rightarrow> int" where
  "dec_int32 bs = to_int32 (int (dec_le bs))"

lemma length_enc_int32 [simp]: "length (enc_int32 v) = 4"
  by (simp add: enc_int32_def)

lemma dec_enc_int32 [bytes]: "dec_int32 (enc_int32 v) = to_int32 v"
proof -
  have "int (dec_le (enc_int32 v)) = v mod 2 ^ 32"
    by (simp add: enc_int32_def dec_enc_le nat_mod_distrib)
  then show ?thesis by (simp add: dec_int32_def to_int32_def mod_add_left_eq)
qed

section \<open>C strings in fixed-size fields\<close>

text \<open>The string a field of bytes holds: up to the first NUL.\<close>

definition cstr :: "byte list \<Rightarrow> string" where
  "cstr bs = takeWhile (\<lambda>c. c \<noteq> NUL) bs"

definition no_nul :: "string \<Rightarrow> bool" where
  "no_nul s \<longleftrightarrow> NUL \<notin> set s"

text \<open>\<open>strncpy (dst, src, n)\<close> into a zeroed field of \<open>size\<close> bytes.\<close>

definition strncpy_field :: "nat \<Rightarrow> nat \<Rightarrow> string \<Rightarrow> byte list" where
  "strncpy_field sz n src =
     (let s = take n (cstr src) in s @ replicate (sz - length s) NUL)"

lemma length_strncpy_field [simp]: "n \<le> sz \<Longrightarrow> length (strncpy_field sz n src) = sz"
  by (simp add: strncpy_field_def Let_def)

lemma cstr_no_nul [clib]: "no_nul s \<Longrightarrow> cstr s = s"
  by (simp add: cstr_def no_nul_def takeWhile_eq_all_conv) (metis)

lemma no_nul_cstr [simp]: "no_nul (cstr bs)"
  by (auto simp: no_nul_def cstr_def dest: set_takeWhileD)

lemma no_nul_take [simp]: "no_nul s \<Longrightarrow> no_nul (take n s)"
  by (auto simp: no_nul_def dest: in_set_takeD)

lemma no_nul_append [simp]: "no_nul (s @ t) \<longleftrightarrow> no_nul s \<and> no_nul t"
  by (auto simp: no_nul_def)

lemma no_nul_Cons [simp]: "no_nul (c # s) \<longleftrightarrow> c \<noteq> NUL \<and> no_nul s"
  by (auto simp: no_nul_def)

lemma no_nul_Nil [simp]: "no_nul []"
  by (simp add: no_nul_def)

lemma cstr_append: "cstr (c @ x) = (if NUL \<in> set c then cstr c else c @ cstr x)"
  by (induction c) (auto simp: cstr_def)

lemma cstr_shorter: "NUL \<in> set c \<Longrightarrow> length (cstr c) < length c"
  by (induction c) (auto simp: cstr_def)

lemma cstr_split: "NUL \<in> set m \<Longrightarrow> \<exists>z. m = cstr m @ NUL # z"
proof -
  assume "NUL \<in> set m"
  then have "dropWhile (\<lambda>c. c \<noteq> NUL) m \<noteq> []" "hd (dropWhile (\<lambda>c. c \<noteq> NUL) m) = NUL"
    using hd_dropWhile [of "\<lambda>c. c \<noteq> NUL" m] by (auto simp: dropWhile_eq_Nil_conv)
  then have "dropWhile (\<lambda>c. c \<noteq> NUL) m = NUL # tl (dropWhile (\<lambda>c. c \<noteq> NUL) m)"
    by (metis list.collapse)
  then show ?thesis unfolding cstr_def by (metis takeWhile_dropWhile_id)
qed

lemma cstr_append_nul: "no_nul s \<Longrightarrow> cstr (s @ NUL # t) = s"
  by (induction s) (auto simp: cstr_def)

lemma cstr_replicate_nul [clib]: "no_nul s \<Longrightarrow> cstr (s @ replicate k NUL) = s"
  by (cases k) (auto simp: cstr_append_nul cstr_no_nul)

lemma cstr_strncpy_field [clib]: "cstr (strncpy_field sz n src) = take n (cstr src)"
  by (simp add: strncpy_field_def Let_def cstr_replicate_nul)

text \<open>\<open>snprintf (dst, size, ...)\<close>: the formatted text, cut to \<open>size - 1\<close> characters.\<close>

definition snprintf :: "nat \<Rightarrow> string \<Rightarrow> string" where
  "snprintf sz text = take (sz - 1) text"

lemma snprintf_fits [clib]: "length text < sz \<Longrightarrow> snprintf sz text = text"
  by (simp add: snprintf_def)

lemma length_snprintf: "0 < sz \<Longrightarrow> length (snprintf sz text) < sz"
  by (simp add: snprintf_def)

end
