(* ===== verification/CScan.thy ===== *)
theory CScan
  imports CLib
begin

text \<open>
  Printing and parsing: \<open>%d\<close> of \<open>printf\<close>, and \<open>%d\<close>, \<open>%<n>s\<close> and literals of \<open>sscanf\<close>, \<open>atoi\<close>,
  \<open>strchr\<close> and \<open>strcspn\<close>. A scanner returns the value read and the rest of the input, or \<open>None\<close>
  where the conversion fails. The main results are the round trips: what \<open>%d\<close> prints, \<open>%d\<close> and
  \<open>atoi\<close> read back.
\<close>

section \<open>Printing integers\<close>

fun dec_nat :: "nat \<Rightarrow> string" where
  "dec_nat n = (if n < 10 then [char_of (48 + n)] else dec_nat (n div 10) @ [char_of (48 + n mod 10)])"

declare dec_nat.simps [simp del]

definition fmt_d :: "int \<Rightarrow> string" where
  "fmt_d i = (if i < 0 then CHR ''-'' # dec_nat (nat (- i)) else dec_nat (nat i))"

section \<open>Scanning\<close>

definition isspace :: "char \<Rightarrow> bool" where
  "isspace c \<longleftrightarrow> c \<in> {CHR '' '', CHR 0x09, CHR 0x0A, CHR 0x0B, CHR 0x0C, CHR 0x0D}"

definition isdigit :: "char \<Rightarrow> bool" where
  "isdigit c \<longleftrightarrow> 48 \<le> (of_char c :: nat) \<and> (of_char c :: nat) \<le> 57"

definition digit_val :: "char \<Rightarrow> nat" where
  "digit_val c = of_char c - 48"

fun digits_acc :: "nat \<Rightarrow> string \<Rightarrow> nat \<times> string" where
  "digits_acc acc [] = (acc, [])"
| "digits_acc acc (c # cs) = (if isdigit c then digits_acc (10 * acc + digit_val c) cs else (acc, c # cs))"

definition scan_digits :: "string \<Rightarrow> (nat \<times> string) option" where
  "scan_digits s = (if s \<noteq> [] \<and> isdigit (hd s) then Some (digits_acc 0 s) else None)"

definition scan_int :: "string \<Rightarrow> (int \<times> string) option" where
  "scan_int s = (case dropWhile isspace s of
       [] \<Rightarrow> None
     | c # cs \<Rightarrow>
         if c = CHR ''-'' then map_option (\<lambda>(n, r). (- int n, r)) (scan_digits cs)
         else if c = CHR ''+'' then map_option (\<lambda>(n, r). (int n, r)) (scan_digits cs)
         else map_option (\<lambda>(n, r). (int n, r)) (scan_digits (c # cs)))"

definition sat64 :: "int \<Rightarrow> int" where
  "sat64 v = max (- (2 ^ 63)) (min (2 ^ 63 - 1) v)"

definition scan_d :: "string \<Rightarrow> (int \<times> string) option" where
  "scan_d s = map_option (\<lambda>(v, r). (to_int32 (sat64 v), r)) (scan_int s)"

definition atoi :: "string \<Rightarrow> int" where
  "atoi s = (case scan_d s of None \<Rightarrow> 0 | Some (v, _) \<Rightarrow> v)"

definition scan_s :: "nat \<Rightarrow> string \<Rightarrow> (string \<times> string) option" where
  "scan_s n s =
     (let t = dropWhile isspace s; w = take n (takeWhile (\<lambda>c. \<not> isspace c) t)
      in if w = [] then None else Some (w, drop (length w) t))"

definition scan_lit :: "string \<Rightarrow> string \<Rightarrow> string option" where
  "scan_lit p s = (if take (length p) s = p then Some (drop (length p) s) else None)"

text \<open>\<open>strchr\<close>: the text before the first \<open>c\<close> and the text after it.\<close>

definition strchr_split :: "char \<Rightarrow> string \<Rightarrow> (string \<times> string) option" where
  "strchr_split c s =
     (if c \<in> set s then Some (takeWhile (\<lambda>x. x \<noteq> c) s, tl (dropWhile (\<lambda>x. x \<noteq> c) s)) else None)"

section \<open>Round trips\<close>

lemma isdigit_char_of [simp]: "(n::nat) < 10 \<Longrightarrow> isdigit (char_of (48 + n))"
  by (simp add: isdigit_def)

lemma digit_val_char_of [simp]: "(n::nat) < 10 \<Longrightarrow> digit_val (char_of (48 + n)) = n"
  by (simp add: digit_val_def)

lemma dec_nat_digits: "c \<in> set (dec_nat n) \<Longrightarrow> isdigit c"
proof (induction n rule: dec_nat.induct)
  case (1 n)
  then show ?case
    by (subst (asm) (2) dec_nat.simps) (auto split: if_splits)
qed

lemma dec_nat_nonempty [simp]: "dec_nat n \<noteq> []"
  by (subst dec_nat.simps) simp

lemma digits_acc_append:
  "\<forall>c \<in> set xs. isdigit c \<Longrightarrow> digits_acc a (xs @ ys) = digits_acc (fst (digits_acc a xs)) ys"
  by (induction xs arbitrary: a) auto

lemma digits_acc_dec_nat: "digits_acc 0 (dec_nat n) = (n, [])"
proof (induction n rule: dec_nat.induct)
  case (1 n)
  show ?case
  proof (cases "n < 10")
    case True
    then show ?thesis by (subst dec_nat.simps) simp
  next
    case False
    have "digits_acc 0 (dec_nat (n div 10) @ [char_of (48 + n mod 10)])
        = digits_acc (fst (digits_acc 0 (dec_nat (n div 10)))) [char_of (48 + n mod 10)]"
      by (rule digits_acc_append) (auto dest: dec_nat_digits)
    with False 1 show ?thesis by (subst dec_nat.simps) simp
  qed
qed

lemma digits_acc_stop: "r = [] \<or> \<not> isdigit (hd r) \<Longrightarrow> digits_acc a r = (a, r)"
  by (cases r) auto

lemma scan_digits_dec_nat:
  assumes "r = [] \<or> \<not> isdigit (hd r)"
  shows "scan_digits (dec_nat n @ r) = Some (n, r)"
proof -
  have "digits_acc 0 (dec_nat n @ r) = digits_acc (fst (digits_acc 0 (dec_nat n))) r"
    by (rule digits_acc_append) (auto dest: dec_nat_digits)
  moreover have "isdigit (hd (dec_nat n @ r))"
    using dec_nat_digits [of "hd (dec_nat n)" n] by simp
  ultimately show ?thesis
    using assms by (simp add: scan_digits_def digits_acc_dec_nat digits_acc_stop)
qed

lemma isdigit_not_space: "isdigit c \<Longrightarrow> \<not> isspace c"
  by (auto simp: isdigit_def isspace_def)

lemma isdigit_not_special: "isdigit c \<Longrightarrow> c \<noteq> CHR ''-'' \<and> c \<noteq> CHR ''+'' \<and> c \<noteq> CHR '','' \<and> c \<noteq> NUL"
  by (auto simp: isdigit_def)

lemma hd_dec_nat: "isdigit (hd (dec_nat n))"
  by (rule dec_nat_digits [where n = n]) simp

lemma fmt_d_nonempty [simp]: "fmt_d i \<noteq> []"
  by (simp add: fmt_d_def)

lemma length_fmt_d_pos: "0 < length (fmt_d i)"
  by simp

lemma fmt_d_chars: "c \<in> set (fmt_d i) \<Longrightarrow> isdigit c \<or> c = CHR ''-''"
  by (auto simp: fmt_d_def dest: dec_nat_digits split: if_splits)

lemma fmt_d_no_comma [simp]: "CHR '','' \<notin> set (fmt_d i)"
  by (auto dest: fmt_d_chars isdigit_not_special)

lemma no_nul_fmt_d [simp]: "no_nul (fmt_d i)"
  by (auto simp: no_nul_def dest: fmt_d_chars isdigit_not_special)

lemma scan_int_fmt_d [clib]:
  assumes "r = [] \<or> \<not> isdigit (hd r)"
  shows "scan_int (fmt_d i @ r) = Some (i, r)"
proof (cases "i < 0")
  case True
  then show ?thesis
    using scan_digits_dec_nat [OF assms, of "nat (- i)"]
    by (simp add: scan_int_def fmt_d_def isspace_def)
next
  case False
  obtain c cs where d: "dec_nat (nat i) = c # cs"
    by (cases "dec_nat (nat i)") auto
  then have "isdigit c" using hd_dec_nat [of "nat i"] by simp
  with False d show ?thesis
    using scan_digits_dec_nat [OF assms, of "nat i"] isdigit_not_space [of c] isdigit_not_special [of c]
    by (simp add: scan_int_def fmt_d_def)
qed

definition is_int32 :: "int \<Rightarrow> bool" where
  "is_int32 i \<longleftrightarrow> - (2 ^ 31) \<le> i \<and> i < 2 ^ 31"

lemma to_int32_sat64 [simp]: "is_int32 i \<Longrightarrow> to_int32 (sat64 i) = i"
  by (simp add: is_int32_def sat64_def to_int32_def max_def min_def)

lemma scan_d_fmt_d [clib]:
  "is_int32 i \<Longrightarrow> r = [] \<or> \<not> isdigit (hd r) \<Longrightarrow> scan_d (fmt_d i @ r) = Some (i, r)"
  by (simp add: scan_d_def scan_int_fmt_d)

lemma atoi_fmt_d [clib]:
  "is_int32 i \<Longrightarrow> r = [] \<or> \<not> isdigit (hd r) \<Longrightarrow> atoi (fmt_d i @ r) = i"
  by (simp add: atoi_def scan_d_fmt_d)

lemma is_int32_atoi: "is_int32 (atoi s)"
  using to_int32_range
  by (auto simp: atoi_def scan_d_def is_int32_def split: option.splits)

section \<open>Words and separators\<close>

lemma scan_s_word [clib]:
  assumes "w \<noteq> []" "\<forall>c \<in> set w. \<not> isspace c"
  shows "scan_s n w = (if n = 0 then None else Some (take n w, drop n w))"
proof -
  have d: "dropWhile isspace w = w" using assms by (cases w) auto
  have t: "takeWhile (\<lambda>c. \<not> isspace c) w = w" using assms by (simp add: takeWhile_eq_all_conv)
  show ?thesis using assms(1) by (simp add: scan_s_def Let_def d t min_def)
qed

text \<open>A word is cut at its first white space: the part after it is lost.\<close>

lemma scan_s_blank [clib]:
  assumes "w \<noteq> []" "\<forall>c \<in> set w. \<not> isspace c" "isspace b"
  shows "scan_s n (w @ b # r) = (if n = 0 then None else Some (take n w, drop n w @ b # r))"
proof -
  have d: "dropWhile isspace (w @ b # r) = w @ b # r" using assms by (cases w) auto
  have t: "takeWhile (\<lambda>c. \<not> isspace c) (w @ b # r) = w"
    using assms by (induction w) auto
  show ?thesis using assms(1) by (simp add: scan_s_def Let_def d t min_def)
qed

lemma scan_s_Some:
  assumes "scan_s n s = Some (w, r)"
  shows "w \<noteq> [] \<and> length w \<le> n \<and> (\<forall>c \<in> set w. \<not> isspace c)"
  using assms by (auto simp: scan_s_def Let_def dest!: in_set_takeD dest: set_takeWhileD split: if_splits)

lemma scan_lit_append [clib]: "scan_lit p (p @ s) = Some s"
  by (simp add: scan_lit_def)

lemma strchr_split_append [clib]: "c \<notin> set xs \<Longrightarrow> strchr_split c (xs @ c # ys) = Some (xs, ys)"
  by (induction xs) (auto simp: strchr_split_def)

lemma strchr_split_Some: "strchr_split c s = Some (a, b) \<Longrightarrow> s = a @ c # b \<and> c \<notin> set a"
proof -
  assume a: "strchr_split c s = Some (a, b)"
  then have c: "c \<in> set s" by (auto simp: strchr_split_def split: if_splits)
  then obtain ys zs where "s = ys @ c # zs" "c \<notin> set ys" by (meson split_list_first)
  with a show ?thesis by (simp add: strchr_split_append)
qed

lemma strchr_split_None: "strchr_split c s = None \<longleftrightarrow> c \<notin> set s"
  by (simp add: strchr_split_def)

text \<open>The length of printed numbers.\<close>

lemma length_dec_nat: "n < 10 ^ k \<Longrightarrow> 0 < k \<Longrightarrow> length (dec_nat n) \<le> k"
proof (induction n arbitrary: k rule: dec_nat.induct)
  case (1 n)
  show ?case
  proof (cases "n < 10")
    case True
    with 1 show ?thesis by (subst dec_nat.simps) simp
  next
    case False
    with "1.prems" obtain m where k: "k = Suc m" "0 < m"
      by (metis One_nat_def Suc_lessI gr0_implies_Suc not_less_eq power_one_right)
    with "1.prems" have "n div 10 < 10 ^ m" by (simp add: less_mult_imp_div_less mult.commute)
    with "1.IH" False k have "length (dec_nat (n div 10)) \<le> m" by simp
    with False k show ?thesis by (subst dec_nat.simps) simp
  qed
qed

lemma length_fmt_d:
  assumes "is_int32 i"
  shows "length (fmt_d i) \<le> 11"
proof -
  have "nat i < 10 ^ 10" and "nat (- i) < 10 ^ 10"
    using assms by (auto simp: is_int32_def nat_less_iff)
  then have "length (dec_nat (nat i)) \<le> 10" and "length (dec_nat (nat (- i))) \<le> 10"
    by (simp_all add: length_dec_nat)
  then show ?thesis by (simp add: fmt_d_def)
qed

lemma is_int32_to_int32 [simp]: "is_int32 (to_int32 v)"
  using to_int32_range [of v] by (simp add: is_int32_def)

end
