(* ===== verification/Registry.thy ===== *)
theory Registry
  imports Main "HOL-Library.Multiset" "HOL-Library.Sublist"
begin

text \<open>
  The interface of the fixed-size tables of the servers: the broker's subscribers and publishers,
  the echo server's clients, the chat server's sockets. A table shows its \<open>keys\<close> in the order of
  its array; adding a key appends it while there is room and drops it without a trace when the
  table is full. \<open>bounded_table\<close> is that contract, \<open>bounded_registry\<close> adds that a known key is
  not entered twice, \<open>deletable_table\<close> that a key can be taken out. The clients' lemmas are
  proved here once; each server interprets the locales on its own operations.
\<close>

section \<open>First occurrences\<close>

text \<open>The distinct elements of a list in the order of their first occurrence.\<close>

definition nub :: "'a list \<Rightarrow> 'a list" where
  "nub xs = rev (remdups (rev xs))"

lemma nub_Nil [simp]: "nub [] = []"
  by (simp add: nub_def)

lemma nub_snoc: "nub (xs @ [x]) = (if x \<in> set xs then nub xs else nub xs @ [x])"
  by (simp add: nub_def)

lemma set_nub [simp]: "set (nub xs) = set xs"
  by (simp add: nub_def)

lemma distinct_nub [simp]: "distinct (nub xs)"
  by (simp add: nub_def)

lemma filter_eq_singleton: "distinct xs \<Longrightarrow> x \<in> set xs \<Longrightarrow> filter (\<lambda>k. k = x) xs = [x]"
  by (induction xs) (auto simp: filter_empty_conv)

section \<open>Tables\<close>

locale bounded_table =
  fixes add :: "'k \<Rightarrow> 's \<Rightarrow> 's"
    and keys :: "'s \<Rightarrow> 'k list"
    and cap :: nat
    and ok :: "'k \<Rightarrow> bool"
  assumes add_fresh: "ok k \<Longrightarrow> k \<notin> set (keys s) \<Longrightarrow> length (keys s) < cap \<Longrightarrow> keys (add k s) = keys s @ [k]"
    and add_full: "cap \<le> length (keys s) \<Longrightarrow> keys (add k s) = keys s"
begin

lemma add_bound: "ok k \<Longrightarrow> k \<notin> set (keys s) \<Longrightarrow> length (keys s) \<le> cap \<Longrightarrow> length (keys (add k s)) \<le> cap"
  by (cases "length (keys s) < cap") (auto simp: add_fresh add_full)

lemma add_distinct: "ok k \<Longrightarrow> k \<notin> set (keys s) \<Longrightarrow> distinct (keys s) \<Longrightarrow> distinct (keys (add k s))"
  by (cases "length (keys s) < cap") (auto simp: add_fresh add_full)

lemma add_mem: "ok k \<Longrightarrow> k \<notin> set (keys s) \<Longrightarrow> length (keys s) < cap \<Longrightarrow> k \<in> set (keys (add k s))"
  by (simp add: add_fresh)

lemma full_stays: "cap \<le> length (keys s) \<Longrightarrow> keys (fold add ks s) = keys s"
  by (induction ks arbitrary: s) (auto simp: add_full)

end

locale bounded_registry = bounded_table +
  assumes add_known: "ok k \<Longrightarrow> k \<in> set (keys s) \<Longrightarrow> keys (add k s) = keys s"
begin

lemma keys_add:
  "ok k \<Longrightarrow> keys (add k s) = (if length (keys s) < cap \<and> k \<notin> set (keys s) then keys s @ [k] else keys s)"
  by (auto simp: add_fresh add_full add_known)

lemma reg_bound: "ok k \<Longrightarrow> length (keys s) \<le> cap \<Longrightarrow> length (keys (add k s)) \<le> cap"
  by (simp add: keys_add)

lemma reg_distinct: "ok k \<Longrightarrow> distinct (keys s) \<Longrightarrow> distinct (keys (add k s))"
  by (simp add: keys_add)

lemma reg_idem: "ok k \<Longrightarrow> keys (add k (add k s)) = keys (add k s)"
  by (simp add: keys_add)

lemma reg_prefix: "ok k \<Longrightarrow> prefix (keys s) (keys (add k s))"
  by (simp add: keys_add)

text \<open>After any history of registrations the table holds the first \<open>cap\<close> distinct keys.\<close>

lemma history_step:
  "ok k \<Longrightarrow> keys s = take cap (nub ks) \<Longrightarrow> keys (add k s) = take cap (nub (ks @ [k]))"
proof (cases "length (nub ks) < cap")
  case True
  assume "ok k" "keys s = take cap (nub ks)"
  with True show ?thesis by (simp add: keys_add nub_snoc)
next
  case False
  assume "ok k" "keys s = take cap (nub ks)"
  with False show ?thesis by (simp add: keys_add nub_snoc)
qed

lemma history:
  "keys s = [] \<Longrightarrow> \<forall>k \<in> set ks. ok k \<Longrightarrow> keys (fold add ks s) = take cap (nub ks)"
proof (induction ks rule: rev_induct)
  case Nil
  then show ?case by simp
next
  case (snoc k ks)
  then show ?case using history_step [of k "fold add ks s" ks] by simp
qed

end

locale deletable_table = bounded_table +
  fixes del :: "'k \<Rightarrow> 's \<Rightarrow> 's"
  assumes del_mset: "mset (keys (del k s)) = mset (keys s) - {#k#}"
begin

lemma del_distinct: "distinct (keys s) \<Longrightarrow> distinct (keys (del k s))"
  by (metis del_mset distinct_remove1 mset_eq_imp_distinct_iff mset_remove1)

lemma del_set: "distinct (keys s) \<Longrightarrow> set (keys (del k s)) = set (keys s) - {k}"
  by (metis del_mset mset_remove1 set_mset_mset set_remove1_eq)

lemma del_length: "length (keys (del k s)) \<le> length (keys s)"
  by (metis del_mset diff_subset_eq_self size_mset size_mset_mono)

lemma del_frees: "k \<in> set (keys s) \<Longrightarrow> length (keys (del k s)) < length (keys s)"
  by (metis del_mset length_pos_if_in_set length_remove1 mset_remove1 size_mset diff_less zero_less_one)

lemma del_add_mem:
  "ok k \<Longrightarrow> distinct (keys s) \<Longrightarrow> j \<in> set (keys s) \<Longrightarrow> k \<notin> set (keys s) \<Longrightarrow> length (keys s) \<le> cap \<Longrightarrow>
   k \<in> set (keys (add k (del j s)))"
  by (rule add_mem) (auto simp: del_set dest: del_frees [of j s])

end

end
