(* ===== verification/Broker.thy ===== *)
theory Broker
  imports CScan Registry
begin

text \<open>
  The message broker of \<^verbatim>\<open>module3/task02\<close> (\<^verbatim>\<open>broker.c\<close>): its tables of subscribers and
  publishers, the handlers of the three requests, the routing of a publication, the receive loop
  with its signals, and the shutdown. The live part of each static array (the first
  \<open>subscriber_count\<close> or \<open>publisher_count\<close> cells) is a list. What the kernel decides (whether
  \<open>msgsnd\<close> succeeds, what \<open>msgrcv\<close> returns) is an input. Progress messages on the terminal are
  left out; the messages and signals sent are the output.
\<close>

section \<open>State\<close>

definition MAX_SUBSCRIBERS :: nat where "MAX_SUBSCRIBERS = 128"
definition MAX_PUBLISHERS :: nat where "MAX_PUBLISHERS = 128"
definition MAX_TEXT_LEN :: nat where "MAX_TEXT_LEN = 512"

record subscriber =
  sub_pid :: int
  sub_topic :: string

record broker =
  subscribers :: "subscriber list"
  publishers :: "int list"
  shutdown_flag :: bool
  timeout_flag :: bool

definition init_broker :: broker where
  "init_broker = \<lparr>subscribers = [], publishers = [], shutdown_flag = False, timeout_flag = False\<rparr>"

datatype signum = SIGINT | SIGALRM

definition broker_signal_handler :: "signum \<Rightarrow> broker \<Rightarrow> broker" where
  "broker_signal_handler sig b =
     (if sig = SIGINT then b\<lparr>shutdown_flag := True\<rparr> else b\<lparr>timeout_flag := True\<rparr>)"

section \<open>The tables\<close>

text \<open>The search loop: the first cell from \<open>i\<close> on with this pid and topic.\<close>

fun find_sub :: "subscriber list \<Rightarrow> int \<Rightarrow> string \<Rightarrow> nat \<Rightarrow> nat option" where
  "find_sub [] pid topic i = None"
| "find_sub (s # ss) pid topic i =
     (if sub_pid s = pid \<and> sub_topic s = topic then Some i else find_sub ss pid topic (Suc i))"

definition register_subscriber :: "int \<Rightarrow> string \<Rightarrow> broker \<Rightarrow> broker" where
  "register_subscriber pid topic b =
     (if MAX_SUBSCRIBERS \<le> length (subscribers b) then b
      else case find_sub (subscribers b) pid topic 0 of
        Some i \<Rightarrow> b
      | None \<Rightarrow> b\<lparr>subscribers := subscribers b @ [\<lparr>sub_pid = pid, sub_topic = take 63 topic\<rparr>]\<rparr>)"

text \<open>The loop that moves the cells after the removed one down by one place.\<close>

function shift_down :: "'a list \<Rightarrow> nat \<Rightarrow> nat \<Rightarrow> 'a list" where
  "shift_down xs j n = (if j < n - 1 then shift_down (xs[j := xs ! Suc j]) (Suc j) n else xs)"
  by pat_completeness auto
termination
  by (relation "measure (\<lambda>(xs, j, n). n - j)") auto

declare shift_down.simps [simp del]

definition unregister_subscriber :: "int \<Rightarrow> string \<Rightarrow> broker \<Rightarrow> broker" where
  "unregister_subscriber pid topic b =
     (case find_sub (subscribers b) pid topic 0 of
        None \<Rightarrow> b
      | Some i \<Rightarrow>
          let n = length (subscribers b)
          in b\<lparr>subscribers := take (n - 1) (shift_down (subscribers b) i n)\<rparr>)"

definition register_publisher :: "int \<Rightarrow> broker \<Rightarrow> broker" where
  "register_publisher pid b =
     (if MAX_PUBLISHERS \<le> length (publishers b) then b
      else if pid \<in> set (publishers b) then b
      else b\<lparr>publishers := publishers b @ [pid]\<rparr>)"

section \<open>Routing\<close>

text \<open>
  \<open>snd_ok i\<close> says whether the \<open>msgsnd\<close> to the subscription in cell \<open>i\<close> succeeds. The result is
  the messages put into the queue, in order, as pairs of \<open>mtype\<close> and text, and \<open>routed_count\<close>.
\<close>

fun route_loop :: "(nat \<Rightarrow> bool) \<Rightarrow> nat \<Rightarrow> subscriber list \<Rightarrow> string \<Rightarrow> string \<Rightarrow> (int \<times> string) list" where
  "route_loop snd_ok i [] topic text = []"
| "route_loop snd_ok i (s # ss) topic text =
     (if sub_topic s = topic \<and> snd_ok i
      then (sub_pid s, text) # route_loop snd_ok (Suc i) ss topic text
      else route_loop snd_ok (Suc i) ss topic text)"

definition route_text :: "string \<Rightarrow> string \<Rightarrow> string" where
  "route_text topic payload = snprintf MAX_TEXT_LEN (''['' @ topic @ '']: '' @ payload)"

definition route_message :: "(nat \<Rightarrow> bool) \<Rightarrow> string \<Rightarrow> string \<Rightarrow> broker \<Rightarrow> (int \<times> string) list \<times> nat" where
  "route_message snd_ok topic payload b =
     (let sent = route_loop snd_ok 0 (subscribers b) topic (route_text topic payload)
      in (sent, length sent))"

section \<open>Requests\<close>

text \<open>\<open>sscanf (msg_text, lit "%d,%63s", &pid, topic) == 2\<close>.\<close>

definition scan_request :: "string \<Rightarrow> string \<Rightarrow> (int \<times> string) option" where
  "scan_request lit msg_text =
     Option.bind (scan_lit lit msg_text) (\<lambda>r1.
     Option.bind (scan_d r1) (\<lambda>(pid, r2).
     Option.bind (scan_lit '','' r2) (\<lambda>r3.
     Option.bind (scan_s 63 r3) (\<lambda>(topic, _). Some (pid, topic)))))"

definition handle_subscribe :: "string \<Rightarrow> broker \<Rightarrow> broker" where
  "handle_subscribe msg_text b =
     (case scan_request ''subscribe,'' msg_text of
        Some (pid, topic) \<Rightarrow> register_subscriber pid topic b
      | None \<Rightarrow> b)"

definition handle_unsubscribe :: "string \<Rightarrow> broker \<Rightarrow> broker" where
  "handle_unsubscribe msg_text b =
     (case scan_request ''unsubscribe,'' msg_text of
        Some (pid, topic) \<Rightarrow> unregister_subscriber pid topic b
      | None \<Rightarrow> b)"

definition handle_send :: "(nat \<Rightarrow> bool) \<Rightarrow> string \<Rightarrow> broker \<Rightarrow> broker \<times> (int \<times> string) list" where
  "handle_send snd_ok msg_text b =
     (case strchr_split CHR '','' msg_text of None \<Rightarrow> (b, []) | Some (_, after1) \<Rightarrow>
      (case strchr_split CHR '','' after1 of None \<Rightarrow> (b, []) | Some (_, after2) \<Rightarrow>
      (case strchr_split CHR '','' after2 of None \<Rightarrow> (b, []) | Some (topic_text, payload) \<Rightarrow>
         let pub_pid = atoi after1;
             topic = take 63 topic_text;
             b' = register_publisher pub_pid b
         in (b', fst (route_message snd_ok topic payload b')))))"

definition process_incoming_message ::
  "(nat \<Rightarrow> bool) \<Rightarrow> string \<Rightarrow> broker \<Rightarrow> broker \<times> (int \<times> string) list" where
  "process_incoming_message snd_ok msg_text b =
     (if take 10 msg_text = ''subscribe,'' then (handle_subscribe msg_text b, [])
      else if take 12 msg_text = ''unsubscribe,'' then (handle_unsubscribe msg_text b, [])
      else if take 5 msg_text = ''send,'' then handle_send snd_ok msg_text b
      else (b, []))"

section \<open>The receive loop and the shutdown\<close>

text \<open>
  What \<open>msgrcv\<close> brings: a message (with the outcome of the sends it leads to), a signal that
  interrupts the blocked call, a signal delivered after the test of the flags but before the call
  blocks (the handler runs, the call blocks all the same), or another error.
\<close>

datatype input = Msg string "nat \<Rightarrow> bool" | Interrupt signum | EarlySignal signum | RecvError

text \<open>\<open>Stopped\<close>: the loop was left; \<open>Blocked\<close>: the broker still waits in \<open>msgrcv\<close>.\<close>

datatype loop_status = Stopped | Blocked

fun broker_loop :: "broker \<Rightarrow> input list \<Rightarrow> broker \<times> (int \<times> string) list \<times> loop_status"
  and broker_recv :: "broker \<Rightarrow> input list \<Rightarrow> broker \<times> (int \<times> string) list \<times> loop_status" where
  "broker_loop b is =
     (if shutdown_flag b \<or> timeout_flag b then (b, [], Stopped) else broker_recv b is)"
| "broker_recv b [] = (b, [], Blocked)"
| "broker_recv b (Msg m snd_ok # is) =
     (let (b', sent) = process_incoming_message snd_ok m b;
          (b'', sent', st) = broker_loop b' is
      in (b'', sent @ sent', st))"
| "broker_recv b (Interrupt sig # is) = (broker_signal_handler sig b, [], Stopped)"
| "broker_recv b (EarlySignal sig # is) = broker_recv (broker_signal_handler sig b) is"
| "broker_recv b (RecvError # is) = (b, [], Stopped)"

declare broker_loop.simps [simp del]

datatype final_act = Kill int signum | RemoveQueue

definition notify_clients :: "broker \<Rightarrow> final_act list" where
  "notify_clients b =
     map (\<lambda>s. Kill (sub_pid s) SIGINT) (subscribers b) @ map (\<lambda>p. Kill p SIGINT) (publishers b)"

definition shutdown_broker :: "broker \<Rightarrow> final_act list" where
  "shutdown_broker b = notify_clients b @ [RemoveQueue]"

section \<open>The whole program\<close>

text \<open>
  \<open>key\<close> is what \<open>ftok\<close> gives (-1 when it fails), \<open>queues\<close> the keys of the queues that exist, and \<open>ok\<close> says
  whether \<open>msgget\<close> finds nothing else wrong (memory, permissions). \<open>None\<close> is the exit with failure.
\<close>

definition get_ipc_key :: "int \<Rightarrow> int option" where
  "get_ipc_key key = (if key = - 1 then None else Some key)"

text \<open>With \<open>IPC_CREAT | IPC_EXCL\<close> an existing queue is an error.\<close>

definition create_exclusive_queue :: "bool \<Rightarrow> int \<Rightarrow> int set \<Rightarrow> (int \<times> int set) option" where
  "create_exclusive_queue ok key queues =
     (case get_ipc_key key of
        None \<Rightarrow> None
      | Some k \<Rightarrow> if k \<in> queues \<or> \<not> ok then None else Some (k, insert k queues))"

definition connect_to_queue :: "bool \<Rightarrow> int \<Rightarrow> int set \<Rightarrow> int option" where
  "connect_to_queue ok key queues =
     (case get_ipc_key key of
        None \<Rightarrow> None
      | Some k \<Rightarrow> if k \<notin> queues \<or> \<not> ok then None else Some k)"

definition run_broker ::
  "bool \<Rightarrow> int \<Rightarrow> int set \<Rightarrow> input list
     \<Rightarrow> (broker \<times> (int \<times> string) list \<times> loop_status \<times> final_act list \<times> int set) option" where
  "run_broker ok key queues is =
     (case create_exclusive_queue ok key queues of
        None \<Rightarrow> None
      | Some (k, queues) \<Rightarrow>
          let (b, sent, st) = broker_loop init_broker is
          in Some (if st = Stopped then (b, sent, st, shutdown_broker b, queues - {k}) else (b, sent, st, [], queues)))"

end
