(* ===== verification/BrokerClients.thy ===== *)
theory BrokerClients
  imports Broker
begin

text \<open>
  The broker's clients (\<^verbatim>\<open>publisher.c\<close> and \<^verbatim>\<open>subscriber.c\<close> of \<^verbatim>\<open>module3/task02\<close>): the texts
  they send, and their loops as functions of what \<open>fgets\<close>, \<open>msgsnd\<close> and \<open>msgrcv\<close> return.
\<close>

section \<open>Publisher\<close>

text \<open>
  What \<open>fgets\<close> returns: a line of at most 255 characters, or NULL after SIGINT, at the end of the
  input, after another signal, or after a read error.
\<close>

datatype fgets_result = Line string | NullSigint | NullEof | NullEintr | NullError

definition pub_text :: "int \<Rightarrow> string \<Rightarrow> string \<Rightarrow> string" where
  "pub_text pid topic line = snprintf MAX_TEXT_LEN (''send,'' @ fmt_d pid @ '','' @ topic @ '','' @ line)"

text \<open>Each input comes with whether the \<open>msgsnd\<close> it leads to succeeds; the result is the texts sent.\<close>

fun publisher_loop :: "int \<Rightarrow> string \<Rightarrow> (fgets_result \<times> bool) list \<Rightarrow> string list" where
  "publisher_loop pid topic [] = []"
| "publisher_loop pid topic ((Line l, snd_ok) # is) =
     (let line = takeWhile (\<lambda>c. c \<noteq> CHR 0x0A) l in
      if line = [] then publisher_loop pid topic is
      else if snd_ok then pub_text pid topic line # publisher_loop pid topic is
      else [])"
| "publisher_loop pid topic ((NullEintr, _) # is) = publisher_loop pid topic is"
| "publisher_loop pid topic ((NullSigint, _) # is) = []"
| "publisher_loop pid topic ((NullEof, _) # is) = []"
| "publisher_loop pid topic ((NullError, _) # is) = []"

text \<open>The whole program: the texts sent, and whether it ends well (it does not when there is no queue).\<close>

definition run_publisher ::
  "bool \<Rightarrow> int \<Rightarrow> int set \<Rightarrow> int \<Rightarrow> string \<Rightarrow> (fgets_result \<times> bool) list \<Rightarrow> string list \<times> bool" where
  "run_publisher ok key queues pid topic is =
     (case connect_to_queue ok key queues of None \<Rightarrow> ([], False) | Some _ \<Rightarrow> (publisher_loop pid topic is, True))"

section \<open>Subscriber\<close>

definition sub_text :: "int \<Rightarrow> string \<Rightarrow> string" where
  "sub_text pid topic = snprintf MAX_TEXT_LEN (''subscribe,'' @ fmt_d pid @ '','' @ topic)"

definition unsub_text :: "int \<Rightarrow> string \<Rightarrow> string" where
  "unsub_text pid topic = snprintf MAX_TEXT_LEN (''unsubscribe,'' @ fmt_d pid @ '','' @ topic)"

text \<open>The subscriptions: the texts sent, and whether all were (a failure ends the program).\<close>

fun subscribe_all :: "int \<Rightarrow> string list \<Rightarrow> bool list \<Rightarrow> string list \<times> bool" where
  "subscribe_all pid [] oks = ([], True)"
| "subscribe_all pid (t # ts) [] = ([], False)"
| "subscribe_all pid (t # ts) (ok # oks) =
     (if ok then (let (ms, r) = subscribe_all pid ts oks in (sub_text pid t # ms, r)) else ([], False))"

text \<open>What \<open>msgrcv\<close> returns to the subscriber, or that the loop test finds the flag of SIGINT set;
  every error leaves the loop.\<close>

datatype rx_result = RxText string | RxFlag | RxSigint | RxEintr | RxRemoved | RxError

fun receive_loop :: "rx_result list \<Rightarrow> string list \<times> bool" where
  "receive_loop [] = ([], False)"
| "receive_loop (RxText t # is) = (let (ts, f) = receive_loop is in (t # ts, f))"
| "receive_loop (RxFlag # is) = ([], True)"
| "receive_loop (RxSigint # is) = ([], True)"
| "receive_loop (RxEintr # is) = ([], False)"
| "receive_loop (RxRemoved # is) = ([], False)"
| "receive_loop (RxError # is) = ([], False)"

datatype nowait_result = SndOk | SndRemoved | SndFailed

fun unsubscribe_all :: "int \<Rightarrow> string list \<Rightarrow> nowait_result list \<Rightarrow> string list" where
  "unsubscribe_all pid [] rs = []"
| "unsubscribe_all pid (t # ts) [] = []"
| "unsubscribe_all pid (t # ts) (SndOk # rs) = unsub_text pid t # unsubscribe_all pid ts rs"
| "unsubscribe_all pid (t # ts) (SndRemoved # rs) = []"
| "unsubscribe_all pid (t # ts) (SndFailed # rs) = unsubscribe_all pid ts rs"

text \<open>The whole program: the texts sent to the broker, the texts shown, and whether it ends well.\<close>

definition run_subscriber ::
  "bool \<Rightarrow> int \<Rightarrow> int set \<Rightarrow> int \<Rightarrow> string list \<Rightarrow> bool list \<Rightarrow> rx_result list \<Rightarrow> nowait_result list
     \<Rightarrow> string list \<times> string list \<times> bool" where
  "run_subscriber ok key queues pid topics oks rx rs =
     (case connect_to_queue ok key queues of
        None \<Rightarrow> ([], [], False)
      | Some _ \<Rightarrow>
          let (subs, all_ok) = subscribe_all pid topics oks in
          if \<not> all_ok then (subs, [], False)
          else let (shown, shutdown) = receive_loop rx in
            (subs @ (if shutdown then unsubscribe_all pid topics rs else []), shown, True))"

section \<open>Choosing the program\<close>

text \<open>
  \<open>main\<close>: the options \<open>getopt\<close> returned (an unknown one as a question mark) and the arguments
  after them. Exactly one mode must be chosen, once or more.
\<close>

datatype mode = RunBroker | RunPublisher string | RunSubscriber "string list" | Usage | MissingTopic

definition main_mode :: "char list \<Rightarrow> string list \<Rightarrow> mode" where
  "main_mode opts args =
     (if \<not> set opts \<subseteq> set ''bps'' then Usage else
      let mode_b = of_bool (CHR ''b'' \<in> set opts); mode_p = of_bool (CHR ''p'' \<in> set opts);
          mode_s = of_bool (CHR ''s'' \<in> set opts) in
      if mode_b + mode_p + mode_s \<noteq> (1::nat) then Usage
      else if mode_b = 1 then RunBroker
      else if mode_p = 1 then (case args of [] \<Rightarrow> MissingTopic | t # _ \<Rightarrow> RunPublisher t)
      else if args = [] then MissingTopic else RunSubscriber args)"

end
