(* ===== verification/BrokerProofs.thy ===== *)
theory BrokerProofs
  imports BrokerClients
begin

text \<open>
  The correctness of the broker: its tables as interpretations of the table interfaces, the
  invariant of every reachable state, what a publication delivers and to whom, the round trip
  from the clients' texts to the broker's tables and back, and the shutdown.
\<close>

section \<open>The tables implement the interfaces\<close>

definition sub_keys :: "broker \<Rightarrow> (int \<times> string) list" where
  "sub_keys b = map (\<lambda>s. (sub_pid s, sub_topic s)) (subscribers b)"

abbreviation reg_sub :: "int \<times> string \<Rightarrow> broker \<Rightarrow> broker" where
  "reg_sub k b \<equiv> register_subscriber (fst k) (snd k) b"

abbreviation unreg_sub :: "int \<times> string \<Rightarrow> broker \<Rightarrow> broker" where
  "unreg_sub k b \<equiv> unregister_subscriber (fst k) (snd k) b"

lemma find_sub_None: "find_sub ss p t i = None \<longleftrightarrow> (p, t) \<notin> (\<lambda>s. (sub_pid s, sub_topic s)) ` set ss"
  by (induction ss arbitrary: i) auto

lemma find_sub_Some:
  "find_sub ss p t i = Some j \<Longrightarrow>
   \<exists>n. j = i + n \<and> n < length ss \<and> sub_pid (ss ! n) = p \<and> sub_topic (ss ! n) = t
     \<and> (p, t) \<notin> set (map (\<lambda>s. (sub_pid s, sub_topic s)) (take n ss))"
proof (induction ss arbitrary: i)
  case Nil
  then show ?case by simp
next
  case (Cons s ss)
  show ?case
  proof (cases "sub_pid s = p \<and> sub_topic s = t")
    case True
    with Cons.prems show ?thesis by (intro exI [of _ 0]) simp
  next
    case False
    with Cons.prems have "find_sub ss p t (Suc i) = Some j" by auto
    from Cons.IH [OF this] obtain n where n: "j = Suc i + n" "n < length ss"
      "sub_pid (ss ! n) = p" "sub_topic (ss ! n) = t"
      "(p, t) \<notin> set (map (\<lambda>s. (sub_pid s, sub_topic s)) (take n ss))" by blast
    with False show ?thesis by (intro exI [of _ "Suc n"]) auto
  qed
qed

lemma sub_keys_simps [simp]:
  "sub_keys (b\<lparr>subscribers := ss\<rparr>) = map (\<lambda>s. (sub_pid s, sub_topic s)) ss"
  "sub_keys (b\<lparr>publishers := ps\<rparr>) = sub_keys b"
  "sub_keys (b\<lparr>shutdown_flag := f\<rparr>) = sub_keys b"
  "sub_keys (b\<lparr>timeout_flag := f\<rparr>) = sub_keys b"
  "length (sub_keys b) = length (subscribers b)"
  by (simp_all add: sub_keys_def)

lemma shift_down_removes:
  "i < length xs \<Longrightarrow> take (length xs - Suc 0) (shift_down xs i (length xs)) = take i xs @ drop (Suc i) xs"
proof (induction "length xs - i" arbitrary: xs i)
  case 0
  then show ?case by simp
next
  case (Suc m)
  show ?case
  proof (cases "i < length xs - 1")
    case True
    let ?ys = "xs[i := xs ! Suc i]"
    have "take (length xs - Suc 0) (shift_down ?ys (Suc i) (length ?ys)) = take (Suc i) ?ys @ drop (Suc (Suc i)) ?ys"
      using Suc.hyps(1) [of ?ys "Suc i"] Suc.hyps(2) True by simp
    also have "\<dots> = take i xs @ drop (Suc i) xs"
      using True by (simp add: take_Suc_conv_app_nth Cons_nth_drop_Suc)
    finally show ?thesis using True by (simp add: shift_down.simps [of xs i])
  next
    case False
    with Suc.prems have "i = length xs - 1" by simp
    with Suc.prems show ?thesis by (simp add: shift_down.simps)
  qed
qed

lemma sub_keys_unreg: "sub_keys (unreg_sub k b) = remove1 k (sub_keys b)"
proof (cases "find_sub (subscribers b) (fst k) (snd k) 0")
  case None
  then have "k \<notin> set (sub_keys b)" by (auto simp: find_sub_None sub_keys_def)
  with None show ?thesis by (simp add: unregister_subscriber_def remove1_idem)
next
  case (Some i)
  have f: "i < length (subscribers b)" "sub_pid (subscribers b ! i) = fst k" "sub_topic (subscribers b ! i) = snd k"
    "k \<notin> set (map (\<lambda>s. (sub_pid s, sub_topic s)) (take i (subscribers b)))"
    using find_sub_Some [OF Some] by auto
  let ?f = "\<lambda>s. (sub_pid s, sub_topic s)"
  have split: "sub_keys b = map ?f (take i (subscribers b)) @ k # map ?f (drop (Suc i) (subscribers b))"
    using f id_take_nth_drop [of i "subscribers b"]
    by (simp add: sub_keys_def) (metis (no_types, lifting) list.simps(9) map_append prod.collapse)
  have "k \<notin> set (map ?f (take i (subscribers b)))" using f by simp
  then have "remove1 k (sub_keys b) = map ?f (take i (subscribers b)) @ map ?f (drop (Suc i) (subscribers b))"
    by (subst split) (simp add: remove1_append)
  with Some f show ?thesis
    by (simp add: unregister_subscriber_def Let_def shift_down_removes)
qed

interpretation sub_table: bounded_registry reg_sub sub_keys MAX_SUBSCRIBERS "\<lambda>k. length (snd k) \<le> 63"
proof unfold_locales
  fix k b
  assume "length (snd (k :: int \<times> string)) \<le> 63" "k \<notin> set (sub_keys b)" "length (sub_keys b) < MAX_SUBSCRIBERS"
  moreover from this have "find_sub (subscribers b) (fst k) (snd k) 0 = None"
    by (simp add: find_sub_None sub_keys_def)
  ultimately show "sub_keys (reg_sub k b) = sub_keys b @ [k]"
    by (simp add: register_subscriber_def) (simp add: sub_keys_def)
next
  fix b k
  assume "MAX_SUBSCRIBERS \<le> length (sub_keys b)"
  then show "sub_keys (reg_sub k b) = sub_keys b" by (simp add: register_subscriber_def)
next
  fix k b
  assume "k \<in> set (sub_keys b)"
  then have "find_sub (subscribers b) (fst k) (snd k) 0 \<noteq> None"
    by (auto simp: find_sub_None sub_keys_def)
  then show "sub_keys (reg_sub k b) = sub_keys b"
    by (auto simp: register_subscriber_def)
qed

interpretation sub_deletes: deletable_table reg_sub sub_keys MAX_SUBSCRIBERS "\<lambda>k. length (snd k) \<le> 63" unreg_sub
  by unfold_locales (simp add: sub_keys_unreg)

interpretation pub_table: bounded_registry register_publisher publishers MAX_PUBLISHERS "\<lambda>k. True"
  by unfold_locales (auto simp: register_publisher_def)

lemma register_frames [simp]:
  "publishers (register_subscriber p t b) = publishers b"
  "subscribers (register_publisher p b) = subscribers b"
  "sub_keys (register_publisher p b) = sub_keys b"
  "publishers (unregister_subscriber p t b) = publishers b"
  by (auto simp: register_subscriber_def register_publisher_def unregister_subscriber_def Let_def
      split: option.splits)

lemma route_message_sent:
  "fst (route_message snd_ok topic payload b) = route_loop snd_ok 0 (subscribers b) topic (route_text topic payload)"
  by (simp add: route_message_def Let_def)

section \<open>The invariant of every reachable state\<close>

definition topic_ok :: "string \<Rightarrow> bool" where
  "topic_ok t \<longleftrightarrow> t \<noteq> [] \<and> length t \<le> 63 \<and> (\<forall>c \<in> set t. \<not> isspace c)"

definition broker_inv :: "broker \<Rightarrow> bool" where
  "broker_inv b \<longleftrightarrow>
     length (subscribers b) \<le> MAX_SUBSCRIBERS \<and> distinct (sub_keys b)
     \<and> (\<forall>k \<in> set (sub_keys b). topic_ok (snd k))
     \<and> length (publishers b) \<le> MAX_PUBLISHERS \<and> distinct (publishers b)"

lemma broker_inv_init: "broker_inv init_broker"
  by (simp add: broker_inv_def init_broker_def sub_keys_def)

lemma broker_inv_handler [simp]: "broker_inv (broker_signal_handler sig b) = broker_inv b"
  by (simp add: broker_inv_def broker_signal_handler_def)

lemma topic_ok_length: "topic_ok t \<Longrightarrow> length t \<le> 63"
  by (simp add: topic_ok_def)

lemma broker_inv_register_subscriber:
  assumes inv: "broker_inv b" and t: "topic_ok t"
  shows "broker_inv (register_subscriber p t b)"
proof -
  have ok: "length (snd (p, t)) \<le> 63" using topic_ok_length [OF t] by simp
  have "set (sub_keys (reg_sub (p, t) b)) \<subseteq> insert (p, t) (set (sub_keys b))"
    by (simp only: sub_table.keys_add [OF ok]) auto
  then have "\<forall>k \<in> set (sub_keys (reg_sub (p, t) b)). topic_ok (snd k)"
    using inv t by (auto simp: broker_inv_def)
  with inv sub_table.reg_bound [OF ok, of b] sub_table.reg_distinct [OF ok, of b]
  show ?thesis by (simp add: broker_inv_def)
qed

lemma broker_inv_unregister_subscriber:
  assumes inv: "broker_inv b"
  shows "broker_inv (unregister_subscriber p t b)"
proof -
  have "set (sub_keys (unreg_sub (p, t) b)) \<subseteq> set (sub_keys b)"
    by (simp only: sub_keys_unreg set_remove1_subset)
  then have "\<forall>k \<in> set (sub_keys (unreg_sub (p, t) b)). topic_ok (snd k)"
    using inv by (auto simp: broker_inv_def)
  with inv sub_deletes.del_length [of "(p, t)" b] sub_deletes.del_distinct [of b "(p, t)"]
  show ?thesis by (simp add: broker_inv_def)
qed

lemma broker_inv_register_publisher: "broker_inv b \<Longrightarrow> broker_inv (register_publisher p b)"
  using pub_table.reg_bound [of b p] pub_table.reg_distinct [of b p]
  by (simp add: broker_inv_def)

lemma scan_request_topic: "scan_request lit m = Some (p, t) \<Longrightarrow> topic_ok t"
  by (auto simp: scan_request_def topic_ok_def dest!: scan_s_Some split: Option.bind_splits)

lemma handle_send_state:
  "\<exists>b'. fst (handle_send snd_ok m b) = b' \<and> (b' = b \<or> (\<exists>p. b' = register_publisher p b))"
  by (auto simp: handle_send_def Let_def split: option.splits)

lemma broker_inv_process:
  assumes "broker_inv b"
  shows "broker_inv (fst (process_incoming_message snd_ok m b))"
proof -
  have "broker_inv (handle_subscribe m b)" and "broker_inv (handle_unsubscribe m b)"
    using assms
    by (auto simp: handle_subscribe_def handle_unsubscribe_def dest: scan_request_topic
        intro: broker_inv_register_subscriber broker_inv_unregister_subscriber split: option.splits)
  moreover have "broker_inv (fst (handle_send snd_ok m b))"
    using assms handle_send_state [of snd_ok m b] by (auto intro: broker_inv_register_publisher)
  ultimately show ?thesis using assms by (simp add: process_incoming_message_def)
qed

lemma broker_inv_loop:
  "broker_inv b \<Longrightarrow> broker_inv (fst (broker_loop b is))"
  "broker_inv b \<Longrightarrow> broker_inv (fst (broker_recv b is))"
proof (induction b "is" and b "is" rule: broker_loop_broker_recv.induct)
  case (1 b "is")
  then show ?case by (simp add: broker_loop.simps)
next
  case (3 b m snd_ok "is")
  then show ?case
    using broker_inv_process [of b snd_ok m] by (auto simp: Let_def split: prod.splits)
qed auto

text \<open>C32: In every state the broker can reach, whatever messages, signals and errors it receives, its
  tables are within their arrays, no client is registered twice for a topic or as a publisher, and every
  stored topic is a non-empty word of at most 63 characters.\<close>

theorem broker_reachable_inv: "broker_inv (fst (broker_loop init_broker is))"
  by (rule broker_inv_loop(1) [OF broker_inv_init])

section \<open>What a publication delivers\<close>

lemma route_loop_eq:
  "route_loop snd_ok i ss topic text =
   map (\<lambda>(j, s). (sub_pid s, text)) (filter (\<lambda>(j, s). sub_topic s = topic \<and> snd_ok j) (enumerate i ss))"
  by (induction ss arbitrary: i) auto

lemma route_loop_all:
  "route_loop (\<lambda>_. True) i (subscribers b) topic text =
   map (\<lambda>k. (fst k, text)) (filter (\<lambda>k. snd k = topic) (sub_keys b))"
proof -
  have "route_loop (\<lambda>_. True) i ss topic text =
      map (\<lambda>k. (fst k, text)) (filter (\<lambda>k. snd k = topic) (map (\<lambda>s. (sub_pid s, sub_topic s)) ss))" for ss
    by (induction ss arbitrary: i) auto
  then show ?thesis by (simp add: sub_keys_def)
qed

lemma route_loop_sub_keys:
  "(p, x) \<in> set (route_loop snd_ok i ss topic text) \<Longrightarrow> \<exists>s \<in> set ss. sub_pid s = p \<and> sub_topic s = topic"
  by (induction ss arbitrary: i) (auto split: if_splits)

lemma process_send:
  assumes "is_int32 p" "CHR '','' \<notin> set topic"
  shows "process_incoming_message snd_ok (''send,'' @ fmt_d p @ '','' @ topic @ '','' @ payload) b =
    (register_publisher p b,
     route_loop snd_ok 0 (subscribers b) (take 63 topic) (route_text (take 63 topic) payload))"
proof -
  have c0: "strchr_split CHR '','' (''send,'' @ fmt_d p @ '','' @ topic @ '','' @ payload)
      = Some (''send'', fmt_d p @ '','' @ topic @ '','' @ payload)"
    using strchr_split_append [of "CHR '',''" "''send''"] by simp
  have c1: "strchr_split CHR '','' (fmt_d p @ '','' @ topic @ '','' @ payload)
      = Some (fmt_d p, topic @ '','' @ payload)"
    using strchr_split_append [of "CHR '',''" "fmt_d p"] by simp
  have c2: "strchr_split CHR '','' (topic @ '','' @ payload) = Some (topic, payload)"
    using strchr_split_append [of "CHR '',''" topic payload] assms(2) by simp
  have "atoi (fmt_d p @ '','' @ topic @ '','' @ payload) = p"
    using assms(1) by (intro atoi_fmt_d) (auto simp: isdigit_def)
  with c0 c1 c2 show ?thesis
    by (simp add: process_incoming_message_def handle_send_def Let_def route_message_sent)
qed

text \<open>A publication of \<open>payload\<close> on a topic without commas registers the publisher and puts into the
  queue exactly one message for each subscription to the topic (cut to 63 characters) whose send succeeds,
  in the order of the table, addressed to the subscriber's pid and with the text "[topic]: payload".\<close>

theorem publication_delivers:
  assumes "is_int32 p" "CHR '','' \<notin> set topic"
  shows "process_incoming_message snd_ok (''send,'' @ fmt_d p @ '','' @ topic @ '','' @ payload) b =
    (register_publisher p b,
     map (\<lambda>(j, s). (sub_pid s, route_text (take 63 topic) payload))
       (filter (\<lambda>(j, s). sub_topic s = take 63 topic \<and> snd_ok j) (enumerate 0 (subscribers b))))"
  by (simp only: process_send [OF assms] route_loop_eq)

theorem publication_delivers_witness:
  "is_int32 20001 \<and> CHR '','' \<notin> set ''news'' \<and>
   snd (process_incoming_message (\<lambda>_. True) (''send,'' @ fmt_d 20001 @ '','' @ ''news'' @ '','' @ ''Hello'')
     (init_broker\<lparr>subscribers := [\<lparr>sub_pid = 10001, sub_topic = ''news''\<rparr>, \<lparr>sub_pid = 10002, sub_topic = ''sport''\<rparr>]\<rparr>))
   = [(10001, ''[news]: Hello'')]"
proof -
  have h: "is_int32 20001" "CHR '','' \<notin> set ''news''" by (simp_all add: is_int32_def)
  show ?thesis
    using h by (simp only: publication_delivers [OF h])
      (simp add: route_text_def snprintf_def MAX_TEXT_LEN_def)
qed

section \<open>Requests of the clients\<close>

text \<open>What a client may use as a topic so that it survives the text protocol.\<close>

definition plain_topic :: "string \<Rightarrow> bool" where
  "plain_topic t \<longleftrightarrow> t \<noteq> [] \<and> (\<forall>c \<in> set t. \<not> isspace c \<and> c \<noteq> CHR '','')"

lemma scan_request_plain:
  assumes p: "is_int32 p" and t: "plain_topic t"
  shows "scan_request lit (lit @ fmt_d p @ '','' @ t) = Some (p, take 63 t)"
proof -
  have "scan_d (fmt_d p @ '','' @ t) = Some (p, '','' @ t)"
    using p by (intro scan_d_fmt_d) (auto simp: isdigit_def)
  moreover have "scan_s 63 t = Some (take 63 t, drop 63 t)"
    using t by (simp add: scan_s_word plain_topic_def)
  ultimately show ?thesis
    using scan_lit_append [of "'',''" t] by (simp add: scan_request_def scan_lit_append)
qed

lemma process_subscribe:
  assumes "is_int32 p" "plain_topic t" "length t \<le> 480"
  shows "process_incoming_message snd_ok (sub_text p t) b = (register_subscriber p (take 63 t) b, [])"
proof -
  have "sub_text p t = ''subscribe,'' @ fmt_d p @ '','' @ t"
    unfolding sub_text_def using length_fmt_d [OF assms(1)] assms(3)
    by (intro snprintf_fits) (simp add: MAX_TEXT_LEN_def)
  then show ?thesis
    using scan_request_plain [OF assms(1,2), of "''subscribe,''"]
    by (simp add: process_incoming_message_def handle_subscribe_def)
qed

lemma process_unsubscribe:
  assumes "is_int32 p" "plain_topic t" "length t \<le> 480"
  shows "process_incoming_message snd_ok (unsub_text p t) b = (unregister_subscriber p (take 63 t) b, [])"
proof -
  have "unsub_text p t = ''unsubscribe,'' @ fmt_d p @ '','' @ t"
    unfolding unsub_text_def using length_fmt_d [OF assms(1)] assms(3)
    by (intro snprintf_fits) (simp add: MAX_TEXT_LEN_def)
  then show ?thesis
    using scan_request_plain [OF assms(1,2), of "''unsubscribe,''"]
    by (simp add: process_incoming_message_def handle_unsubscribe_def)
qed

lemma pub_text_fits:
  assumes "is_int32 p" "length t + length line \<le> 490"
  shows "pub_text p t line = ''send,'' @ fmt_d p @ '','' @ t @ '','' @ line"
  unfolding pub_text_def using length_fmt_d [OF assms(1)] assms(2)
  by (intro snprintf_fits) (simp add: MAX_TEXT_LEN_def)

lemma process_publish:
  assumes "is_int32 q" "CHR '','' \<notin> set t" "length t + length line \<le> 490"
  shows "process_incoming_message snd_ok (pub_text q t line) b =
    (register_publisher q b,
     route_loop snd_ok 0 (subscribers b) (take 63 t) (''['' @ take 63 t @ '']: '' @ line))"
proof -
  have "route_text (take 63 t) line = ''['' @ take 63 t @ '']: '' @ line"
    unfolding route_text_def using assms(3) by (intro snprintf_fits) (simp add: MAX_TEXT_LEN_def)
  then show ?thesis by (simp only: pub_text_fits [OF assms(1,3)] process_send [OF assms(1,2)])
qed

text \<open>A subscriber that has room in the table and then a publisher, with their own texts, get the
  message through: the subscriber's pid receives "[topic]: line" exactly once, whatever else the table holds.\<close>

theorem subscribe_then_publish:
  assumes inv: "broker_inv b" and room: "length (subscribers b) < MAX_SUBSCRIBERS"
    and pids: "is_int32 p" "is_int32 q" and t: "plain_topic t" and len: "length t + length line \<le> 480"
  shows "filter (\<lambda>m. fst m = p)
     (snd (process_incoming_message (\<lambda>_. True) (pub_text q t line)
        (fst (process_incoming_message snd_ok (sub_text p t) b))))
     = [(p, ''['' @ take 63 t @ '']: '' @ line)]"
proof -
  let ?k = "(p, take 63 t)" and ?text = "''['' @ take 63 t @ '']: '' @ line"
  let ?b1 = "reg_sub ?k b"
  have comma: "CHR '','' \<notin> set t" using t by (auto simp: plain_topic_def)
  have ok: "length (snd ?k) \<le> 63" by simp
  have mem: "?k \<in> set (sub_keys ?b1)"
    using room by (simp only: sub_table.keys_add [OF ok]) (auto simp: sub_keys_def)
  have dist: "distinct (sub_keys ?b1)"
    using inv by (intro sub_table.reg_distinct [OF ok]) (simp add: broker_inv_def)
  have "filter (\<lambda>m. fst m = p) (map (\<lambda>k. (fst k, ?text)) (filter (\<lambda>k. snd k = take 63 t) (sub_keys ?b1)))
      = map (\<lambda>k. (fst k, ?text)) (filter (\<lambda>k. k = ?k) (sub_keys ?b1))"
    by (simp add: filter_map comp_def prod_eq_iff conj_commute)
  also have "\<dots> = [(p, ?text)]"
    using mem dist by (simp only: filter_eq_singleton) simp
  finally show ?thesis
    using len by (simp add: process_subscribe [OF pids(1) t] process_publish [OF pids(2) comma] route_loop_all)
qed

theorem subscribe_then_publish_witness:
  "broker_inv init_broker \<and> plain_topic ''news'' \<and>
   filter (\<lambda>m. fst m = 10001)
     (snd (process_incoming_message (\<lambda>_. True) (pub_text 20001 ''news'' ''Hello News'')
        (fst (process_incoming_message (\<lambda>_. True) (sub_text 10001 ''news'') init_broker))))
     = [(10001, ''[news]: Hello News'')]"
proof -
  have h: "broker_inv init_broker" "length (subscribers init_broker) < MAX_SUBSCRIBERS"
    "is_int32 10001" "is_int32 20001" "plain_topic ''news''"
    "length ''news'' + length ''Hello News'' \<le> 480"
    by (simp_all add: broker_inv_init)
      (simp_all add: init_broker_def MAX_SUBSCRIBERS_def is_int32_def plain_topic_def isspace_def)
  show ?thesis using h(1,5) subscribe_then_publish [OF h] by simp
qed

text \<open>A subscriber that sends its unsubscription takes exactly its own entry out of the table, and no later
  publication on that topic reaches it.\<close>

theorem unsubscribe_stops_delivery:
  assumes inv: "broker_inv b" and pids: "is_int32 p" "is_int32 q"
    and t: "plain_topic t" and len: "length t + length line \<le> 480"
  shows "let b' = fst (process_incoming_message snd_ok (unsub_text p t) b)
    in sub_keys b' = remove1 (p, take 63 t) (sub_keys b) \<and>
       p \<notin> fst ` set (snd (process_incoming_message snd_ok' (pub_text q t line) b'))"
proof -
  let ?b' = "unregister_subscriber p (take 63 t) b"
  have comma: "CHR '','' \<notin> set t" using t by (auto simp: plain_topic_def)
  have b': "process_incoming_message snd_ok (unsub_text p t) b = (?b', [])"
    using len by (simp add: process_unsubscribe [OF pids(1) t])
  have keys: "sub_keys ?b' = remove1 (p, take 63 t) (sub_keys b)"
    using sub_keys_unreg [of "(p, take 63 t)" b] by simp
  then have "(p, take 63 t) \<notin> set (sub_keys ?b')"
    using inv by (simp add: broker_inv_def)
  then have "p \<notin> fst ` set (snd (process_incoming_message snd_ok' (pub_text q t line) ?b'))"
    using len by (auto simp: process_publish [OF pids(2) comma] sub_keys_def dest!: route_loop_sub_keys)
  with keys show ?thesis by (simp add: b' Let_def)
qed

theorem unsubscribe_stops_delivery_witness:
  "let b = fst (process_incoming_message (\<lambda>_. True) (sub_text 10007 ''tech'') init_broker);
       b' = fst (process_incoming_message (\<lambda>_. True) (unsub_text 10007 ''tech'') b)
   in sub_keys b = [(10007, ''tech'')] \<and> sub_keys b' = [] \<and>
      10007 \<notin> fst ` set (snd (process_incoming_message (\<lambda>_. True) (pub_text 20003 ''tech'' ''x'') b'))"
proof -
  let ?b = "fst (process_incoming_message (\<lambda>_. True) (sub_text 10007 ''tech'') init_broker)"
  have h: "broker_inv ?b" "is_int32 10007" "is_int32 20003" "plain_topic ''tech''"
    "length ''tech'' + length ''x'' \<le> 480"
    by (simp_all add: broker_inv_process broker_inv_init is_int32_def plain_topic_def isspace_def)
  have "?b = register_subscriber 10007 ''tech'' init_broker"
    using h by (simp add: process_subscribe)
  then have "sub_keys ?b = [(10007, ''tech'')]"
    using sub_table.keys_add [of "(10007, ''tech'')" init_broker]
    by (simp add: sub_keys_def init_broker_def MAX_SUBSCRIBERS_def)
  then show ?thesis using unsubscribe_stops_delivery [OF h] by (simp add: Let_def)
qed

text \<open>No publication is cut on its way through the broker: each text that the handling of a message puts
  into the queue is "[topic]: payload" in full, with a payload that ends the message received.\<close>

theorem routed_text_never_cut:
  assumes "length m < MAX_TEXT_LEN"
  shows "\<forall>(p, text) \<in> set (snd (process_incoming_message snd_ok m b)).
    \<exists>topic payload pre. text = ''['' @ topic @ '']: '' @ payload \<and> m = pre @ payload"
proof (cases "take 10 m = ''subscribe,'' \<or> take 12 m = ''unsubscribe,'' \<or> take 5 m \<noteq> ''send,''")
  case True
  then show ?thesis by (auto simp: process_incoming_message_def)
next
  case False
  then have snd: "process_incoming_message snd_ok m b = handle_send snd_ok m b"
    by (simp add: process_incoming_message_def)
  show ?thesis
  proof (clarsimp simp: snd)
    fix p s
    assume "(p, s) \<in> set (snd (handle_send snd_ok m b))"
    then obtain x after1 y after2 topic payload where
      c: "strchr_split CHR '','' m = Some (x, after1)"
         "strchr_split CHR '','' after1 = Some (y, after2)"
         "strchr_split CHR '','' after2 = Some (topic, payload)"
      and mem: "(p, s) \<in> set (route_loop snd_ok 0 (subscribers b) (take 63 topic) (route_text (take 63 topic) payload))"
      by (auto simp: handle_send_def Let_def route_message_sent split: option.splits)
    have m: "m = x @ '','' @ y @ '','' @ topic @ '','' @ payload"
      using c [THEN strchr_split_Some] by auto
    have "m = ''send'' @ CHR '','' # drop 5 m"
      using False append_take_drop_id [of 5 m] by simp
    then have "x = ''send''"
      using c(1) strchr_split_append [of "CHR '',''" "''send''" "drop 5 m"] by simp
    then have "length (''['' @ take 63 topic @ '']: '' @ payload) < MAX_TEXT_LEN"
      using assms m by simp
    then have "s = ''['' @ take 63 topic @ '']: '' @ payload"
      using mem by (auto simp: route_loop_eq route_text_def snprintf_fits)
    with m show "\<exists>topic payload. s = CHR ''['' # topic @ CHR '']'' # CHR '':'' # CHR '' '' # payload \<and> (\<exists>pre. m = pre @ payload)"
      by (metis append.assoc append_Cons append_Nil)
  qed
qed

theorem routed_text_never_cut_witness:
  "(3, ''[t]: hi'') \<in> set (snd (process_incoming_message (\<lambda>_. True) ''send,7,t,hi''
        (init_broker\<lparr>subscribers := [\<lparr>sub_pid = 3, sub_topic = ''t''\<rparr>]\<rparr>)))
   \<and> (\<exists>topic payload pre. ''[t]: hi'' = ''['' @ topic @ '']: '' @ payload \<and> ''send,7,t,hi'' = pre @ payload)"
proof -
  let ?b = "init_broker\<lparr>subscribers := [\<lparr>sub_pid = 3, sub_topic = ''t''\<rparr>]\<rparr>"
  have h: "length ''send,7,t,hi'' < MAX_TEXT_LEN" by (simp add: MAX_TEXT_LEN_def)
  have m: "(3, ''[t]: hi'') \<in> set (snd (process_incoming_message (\<lambda>_. True) ''send,7,t,hi'' ?b))"
    by code_simp
  with bspec [OF routed_text_never_cut [OF h, of "\<lambda>_. True" ?b] m] show ?thesis by auto
qed

text \<open>A topic with a blank in it is subscribed under its first word only, while a publication is routed
  under the whole of it: a broker that was just started delivers such a publication to nobody.\<close>

theorem blank_topic_lost:
  assumes pids: "is_int32 p" "is_int32 q"
    and w: "plain_topic w" "length w < 63" and blank: "isspace c" "CHR '','' \<notin> set r"
    and len: "length r + length line \<le> 400"
  shows "let t = w @ c # r;
             b = fst (process_incoming_message snd_ok (sub_text p t) init_broker)
         in sub_keys b = [(p, w)] \<and> snd (process_incoming_message snd_ok' (pub_text q t line) b) = []"
proof -
  let ?t = "w @ c # r" and ?b = "reg_sub (p, w) init_broker"
  have comma: "CHR '','' \<notin> set ?t"
    using w blank by (auto simp: plain_topic_def isspace_def)
  have "sub_text p ?t = ''subscribe,'' @ fmt_d p @ '','' @ ?t"
    unfolding sub_text_def using length_fmt_d [OF pids(1)] len w(2)
    by (intro snprintf_fits) (simp add: MAX_TEXT_LEN_def)
  moreover have "scan_d (fmt_d p @ '','' @ ?t) = Some (p, '','' @ ?t)"
    using pids(1) by (intro scan_d_fmt_d) (auto simp: isdigit_def)
  moreover have "scan_s 63 ?t = Some (w, c # r)"
    using w blank by (simp add: scan_s_blank plain_topic_def)
  ultimately have sub: "process_incoming_message snd_ok (sub_text p ?t) init_broker = (?b, [])"
    using scan_lit_append [of "''subscribe,''" "fmt_d p @ '','' @ ?t"] scan_lit_append [of "'',''" ?t]
    by (simp add: process_incoming_message_def handle_subscribe_def scan_request_def)
  have "sub_keys ?b = [(p, w)]"
    using w by (subst sub_table.keys_add) (auto simp: sub_keys_def init_broker_def MAX_SUBSCRIBERS_def)
  moreover have "take 63 ?t \<noteq> w"
    using w(2) by (simp add: take_Cons split: nat.splits)
  ultimately have "route_loop snd_ok' 0 (subscribers ?b) (take 63 ?t) x = []" for x
    using route_loop_sub_keys [where ss = "subscribers ?b" and topic = "take 63 ?t"]
    by (fastforce simp: sub_keys_def neq_Nil_conv)
  then show ?thesis
    using sub \<open>sub_keys ?b = [(p, w)]\<close> process_publish [OF pids(2) comma, of line] w(2) len
    by (simp add: Let_def)
qed

theorem blank_topic_lost_witness:
  "plain_topic ''world'' \<and> isspace CHR '' '' \<and>
   snd (process_incoming_message (\<lambda>_. True) (pub_text 8 ''world news'' ''hi'')
     (fst (process_incoming_message (\<lambda>_. True) (sub_text 7 ''world news'') init_broker))) = []"
proof -
  have h: "is_int32 7" "is_int32 8" "plain_topic ''world''" "length ''world'' < 63" "isspace CHR '' ''"
    "CHR '','' \<notin> set ''news''" "length ''news'' + length ''hi'' \<le> 400"
    by (simp_all add: is_int32_def plain_topic_def isspace_def)
  show ?thesis using h(3,5) blank_topic_lost [OF h] by (simp add: Let_def)
qed

section \<open>The life of the broker\<close>

fun handle_all :: "(string \<times> (nat \<Rightarrow> bool)) list \<Rightarrow> broker \<Rightarrow> broker \<times> (int \<times> string) list" where
  "handle_all [] b = (b, [])"
| "handle_all ((m, snd_ok) # ms) b =
     (let (b', sent) = process_incoming_message snd_ok m b; (b'', sent') = handle_all ms b'
      in (b'', sent @ sent'))"

lemma process_flags [simp]:
  "shutdown_flag (fst (process_incoming_message snd_ok m b)) = shutdown_flag b"
  "timeout_flag (fst (process_incoming_message snd_ok m b)) = timeout_flag b"
  by (auto simp: process_incoming_message_def handle_subscribe_def handle_unsubscribe_def handle_send_def
      register_subscriber_def unregister_subscriber_def register_publisher_def Let_def
      split: option.splits)

lemma broker_loop_messages:
  assumes "\<not> shutdown_flag b" "\<not> timeout_flag b"
  shows "broker_loop b (map (\<lambda>(m, ok). Msg m ok) ms @ is) =
    (let (b', sent) = handle_all ms b; (b'', sent', st) = broker_loop b' is in (b'', sent @ sent', st))"
  using assms
proof (induction ms arbitrary: b)
  case Nil
  then show ?case by (simp add: Let_def split: prod.splits)
next
  case (Cons x ms)
  obtain m ok where x: "x = (m, ok)" by (cases x)
  obtain b1 s1 where p: "process_incoming_message ok m b = (b1, s1)"
    by (cases "process_incoming_message ok m b")
  have "\<not> shutdown_flag b1" "\<not> timeout_flag b1"
    using Cons.prems process_flags [of ok m b] by (simp_all add: p)
  from Cons.IH [OF this] Cons.prems show ?case
    by (subst broker_loop.simps) (simp add: x p Let_def split: prod.splits)
qed

lemma handle_all_flags:
  "handle_all ms b = (b', sent) \<Longrightarrow> shutdown_flag b' = shutdown_flag b \<and> timeout_flag b' = timeout_flag b"
proof (induction ms arbitrary: b b' sent)
  case Nil
  then show ?case by simp
next
  case (Cons x ms)
  obtain m ok where x: "x = (m, ok)" by (cases x)
  obtain b1 s1 where p: "process_incoming_message ok m b = (b1, s1)"
    by (cases "process_incoming_message ok m b")
  with Cons.prems obtain s2 where "handle_all ms b1 = (b', s2)"
    by (auto simp: x Let_def split: prod.splits)
  from Cons.IH [OF this] show ?case
    using process_flags [of ok m b] by (simp add: p)
qed

lemma broker_run:
  "run_broker True key queues (map (\<lambda>(m, ok). Msg m ok) ms @ Interrupt sig # rest) =
    (if key = - 1 \<or> key \<in> queues then None
     else let (b, sent) = handle_all ms init_broker
     in Some (broker_signal_handler sig b, sent, Stopped,
          map (\<lambda>k. Kill (fst k) SIGINT) (sub_keys b) @ map (\<lambda>p. Kill p SIGINT) (publishers b) @ [RemoveQueue], queues))"
proof -
  obtain b sent where h: "handle_all ms init_broker = (b, sent)" by (cases "handle_all ms init_broker")
  then have "\<not> shutdown_flag b" "\<not> timeout_flag b"
    using handle_all_flags [OF h] by (simp_all add: init_broker_def)
  then have "broker_loop b (Interrupt sig # rest) = (broker_signal_handler sig b, [], Stopped)"
    by (subst broker_loop.simps) simp
  with h show ?thesis
    using broker_loop_messages [of init_broker ms "Interrupt sig # rest"]
    by (simp add: run_broker_def create_exclusive_queue_def get_ipc_key_def shutdown_broker_def notify_clients_def
        broker_signal_handler_def sub_keys_def init_broker_def)
qed

text \<open>C36: A broker that is interrupted by SIGINT or by its inactivity alarm has handled every message before
  the interruption, in order and once each, then sends SIGINT to every registered subscriber and publisher,
  and removes the queue as its last act.\<close>

theorem broker_serves_then_cleans_up:
  "run_broker True key queues (map (\<lambda>(m, ok). Msg m ok) ms @ Interrupt sig # rest) =
    (if key = - 1 \<or> key \<in> queues then None
     else let (b, sent) = handle_all ms init_broker
     in Some (broker_signal_handler sig b, sent, Stopped,
          map (\<lambda>k. Kill (fst k) SIGINT) (sub_keys b) @ map (\<lambda>p. Kill p SIGINT) (publishers b) @ [RemoveQueue], queues))"
  by (rule broker_run)

text \<open>A signal that arrives between the test of the flags and the blocking \<open>msgrcv\<close> does not stop the
  broker: it stays blocked until another message comes, handles that message, and stops only then.\<close>

theorem early_signal_is_late:
  assumes "\<not> shutdown_flag b" "\<not> timeout_flag b"
  shows "broker_loop b [EarlySignal sig] = (broker_signal_handler sig b, [], Blocked) \<and>
    broker_loop b (EarlySignal sig # Msg m ok # is) =
      (let (b', sent) = process_incoming_message ok m (broker_signal_handler sig b) in (b', sent, Stopped))"
proof -
  let ?b = "broker_signal_handler sig b"
  obtain b1 s1 where p: "process_incoming_message ok m ?b = (b1, s1)"
    by (cases "process_incoming_message ok m ?b")
  have "shutdown_flag ?b \<or> timeout_flag ?b" by (simp add: broker_signal_handler_def)
  then have "broker_loop b1 is = (b1, [], Stopped)"
    using process_flags [of ok m ?b] by (subst broker_loop.simps) (simp add: p)
  with assms show ?thesis by (simp add: broker_loop.simps [of b] p)
qed

theorem early_signal_is_late_witness:
  "\<not> shutdown_flag init_broker \<and>
   broker_loop init_broker [EarlySignal SIGINT] = (init_broker\<lparr>shutdown_flag := True\<rparr>, [], Blocked)"
proof -
  have h: "\<not> shutdown_flag init_broker" "\<not> timeout_flag init_broker" by (simp_all add: init_broker_def)
  show ?thesis using h early_signal_is_late [OF h, of SIGINT] by (simp add: broker_signal_handler_def)
qed

end
