(* ===== verification/StepSystem.thy ===== *)
theory StepSystem
  imports Main
begin

text \<open>
  What the models of concurrent programs share. A program is a step relation on a state that holds all
  processes and what is between them. \<open>step_system\<close> is the contract of its invariant, \<open>draining_system\<close>
  adds that every state that is not at rest has a step that brings it closer to rest without new demand, and
  \<open>simulation\<close> relates a system to an abstract one.
\<close>

locale step_system =
  fixes step :: "'s \<Rightarrow> 's \<Rightarrow> bool"
    and init :: "'s \<Rightarrow> bool"
    and inv :: "'s \<Rightarrow> bool"
  assumes inv_init: "init s \<Longrightarrow> inv s"
    and inv_step: "step s s' \<Longrightarrow> inv s \<Longrightarrow> inv s'"
begin

lemma inv_steps: "step\<^sup>*\<^sup>* s s' \<Longrightarrow> inv s \<Longrightarrow> inv s'"
  by (induction rule: rtranclp_induct) (auto intro: inv_step)

lemma inv_reachable: "init s \<Longrightarrow> step\<^sup>*\<^sup>* s s' \<Longrightarrow> inv s'"
  by (rule inv_steps) (auto intro: inv_init)

end

locale draining_system = step_system step init inv
  for step :: "'s \<Rightarrow> 's \<Rightarrow> bool" and init inv :: "'s \<Rightarrow> bool" +
  fixes quiet :: "'s \<Rightarrow> bool"
    and demand :: "'s \<Rightarrow> 'd"
    and todo :: "'s \<Rightarrow> nat \<times> nat"
  assumes progress: "inv s \<Longrightarrow> \<not> quiet s \<Longrightarrow>
    \<exists>s'. step s s' \<and> demand s' = demand s \<and> (todo s', todo s) \<in> less_than <*lex*> less_than"
begin

lemma drains: "inv s \<Longrightarrow> \<exists>s'. step\<^sup>*\<^sup>* s s' \<and> demand s' = demand s \<and> quiet s' \<and> inv s'"
proof (induction "todo s" arbitrary: s rule: wf_induct_rule [OF wf_lex_prod [OF wf_less_than wf_less_than]])
  case (1 s)
  show ?case
  proof (cases "quiet s")
    case True
    with 1 show ?thesis by blast
  next
    case False
    then obtain s1 where s1: "step s s1" "demand s1 = demand s" "(todo s1, todo s) \<in> less_than <*lex*> less_than"
      using progress [OF "1.prems"] by blast
    moreover have "inv s1" by (rule inv_step [OF s1(1) "1.prems"])
    ultimately obtain s' where "step\<^sup>*\<^sup>* s1 s'" "demand s' = demand s1" "quiet s'" "inv s'"
      using "1.hyps" by blast
    with s1 show ?thesis by (metis converse_rtranclp_into_rtranclp)
  qed
qed

lemma reachable_drains:
  "init s0 \<Longrightarrow> step\<^sup>*\<^sup>* s0 s \<Longrightarrow> \<exists>s'. step\<^sup>*\<^sup>* s s' \<and> demand s' = demand s \<and> quiet s' \<and> inv s'"
  by (rule drains) (rule inv_reachable)

end

text \<open>
  A forward simulation: every step of the concrete system from a state with the invariant is, seen through
  \<open>abs\<close>, a run (often one step, or none) of the abstract system.
\<close>

locale simulation = step_system step init inv
  for step :: "'s \<Rightarrow> 's \<Rightarrow> bool" and init inv :: "'s \<Rightarrow> bool" +
  fixes astep :: "'a \<Rightarrow> 'a \<Rightarrow> bool"
    and ainit :: "'a \<Rightarrow> bool"
    and abs :: "'s \<Rightarrow> 'a"
  assumes abs_init: "init s \<Longrightarrow> ainit (abs s)"
    and abs_step: "step s s' \<Longrightarrow> inv s \<Longrightarrow> astep\<^sup>*\<^sup>* (abs s) (abs s')"
begin

lemma abs_steps:
  assumes "step\<^sup>*\<^sup>* s s'" "inv s"
  shows "astep\<^sup>*\<^sup>* (abs s) (abs s')"
  using assms(1)
proof (induction rule: rtranclp_induct)
  case (step t u)
  have "inv t" by (rule inv_steps [OF step.hyps(1) assms(2)])
  with abs_step [OF step.hyps(2)] step.IH show ?case by (meson rtranclp_trans)
qed simp

lemma abs_reachable: "init s \<Longrightarrow> step\<^sup>*\<^sup>* s s' \<Longrightarrow> ainit (abs s) \<and> astep\<^sup>*\<^sup>* (abs s) (abs s')"
  by (simp add: abs_init abs_steps inv_init)

text \<open>What holds in every reachable state of the abstract system holds of every reachable state.\<close>

lemma transfer:
  assumes "\<And>a b. ainit a \<Longrightarrow> astep\<^sup>*\<^sup>* a b \<Longrightarrow> P b" "init s" "step\<^sup>*\<^sup>* s s'"
  shows "P (abs s')"
  using assms abs_reachable by blast

end

end
