(* ===== verification/BrokerSystem.thy ===== *)
theory BrokerSystem
  imports BrokerProofs BrokerClients StepSystem
begin

text \<open>
  The broker and its clients together (\<^verbatim>\<open>module3/task02\<close>), joined by one System V queue: clients put
  requests of type 1 into it, the broker takes them and puts messages with the subscribers' pids as
  types into the same queue, each subscriber takes its own. The system refines a specification that
  knows nothing of texts and queues, only who is subscribed to what. The scenarios of
  \<^verbatim>\<open>unit_tests.c\<close> follow from it.
\<close>

section \<open>Specification\<close>

text \<open>A request, as the clients' programs make them.\<close>

datatype request = Sub int string | Unsub int string | Pub int string string

fun request_text :: "request \<Rightarrow> string" where
  "request_text (Sub p t) = sub_text p t"
| "request_text (Unsub p t) = unsub_text p t"
| "request_text (Pub p t line) = pub_text p t line"

text \<open>Pids above 1, topics of one word, texts that fit the buffer.\<close>

fun proper :: "request \<Rightarrow> bool" where
  "proper (Sub p t) = (is_int32 p \<and> 1 < p \<and> plain_topic t \<and> length t \<le> 480)"
| "proper (Unsub p t) = (is_int32 p \<and> 1 < p \<and> plain_topic t \<and> length t \<le> 480)"
| "proper (Pub p t line) = (is_int32 p \<and> 1 < p \<and> plain_topic t \<and> length t + length line \<le> 490)"

text \<open>The subscriptions in their order; at most 128, topics count by their first 63 characters.\<close>

type_synonym subscriptions = "(int \<times> string) list"

fun spec_step :: "request \<Rightarrow> subscriptions \<Rightarrow> subscriptions \<times> (int \<times> string) list" where
  "spec_step (Sub p t) ks =
     (if length ks < MAX_SUBSCRIBERS \<and> (p, take 63 t) \<notin> set ks then ks @ [(p, take 63 t)] else ks, [])"
| "spec_step (Unsub p t) ks = (remove1 (p, take 63 t) ks, [])"
| "spec_step (Pub p t line) ks =
     (ks, map (\<lambda>k. (fst k, ''['' @ take 63 t @ '']: '' @ line)) (filter (\<lambda>k. snd k = take 63 t) ks))"

fun spec_run :: "request list \<Rightarrow> subscriptions \<Rightarrow> subscriptions \<times> (int \<times> string) list" where
  "spec_run [] ks = (ks, [])"
| "spec_run (r # rs) ks =
     (let (ks, out) = spec_step r ks; (ks, out') = spec_run rs ks in (ks, out @ out'))"

definition mailbox :: "int \<Rightarrow> (int \<times> string) list \<Rightarrow> string list" where
  "mailbox p ms = map snd (filter (\<lambda>m. fst m = p) ms)"

text \<open>What a subscriber is to receive after a history of requests.\<close>

definition deliveries :: "int \<Rightarrow> request list \<Rightarrow> string list" where
  "deliveries p rs = mailbox p (snd (spec_run rs []))"

section \<open>System\<close>

text \<open>\<open>msgrcv\<close> with a positive type: the first message of that type.\<close>

definition sysv_take :: "int \<Rightarrow> (int \<times> string) list \<Rightarrow> (string \<times> (int \<times> string) list) option" where
  "sysv_take t q =
     (case filter (\<lambda>m. fst m = t) q of [] \<Rightarrow> None | m # _ \<Rightarrow> Some (snd m, remove1 m q))"

text \<open>For the specification only: all requests made, and how many of them have been handled.\<close>

record net =
  queue :: "(int \<times> string) list"
  server :: broker
  received :: "int \<Rightarrow> string list"
  asked :: "request list"
  handled :: nat

definition init_net :: net where
  "init_net = \<lparr>queue = [], server = init_broker, received = (\<lambda>_. []), asked = [], handled = 0\<rparr>"

text \<open>The queue has room for what is sent.\<close>

inductive net_step :: "net \<Rightarrow> net \<Rightarrow> bool" where
  ask: "proper r \<Longrightarrow> net_step s (s\<lparr>queue := queue s @ [(1, request_text r)], asked := asked s @ [r]\<rparr>)"
| serve: "sysv_take 1 (queue s) = Some (m, q) \<Longrightarrow> process_incoming_message (\<lambda>_. True) m (server s) = (b, sent) \<Longrightarrow>
    net_step s (s\<lparr>queue := q @ sent, server := b, handled := handled s + 1\<rparr>)"
| deliver: "1 < p \<Longrightarrow> sysv_take p (queue s) = Some (m, q) \<Longrightarrow>
    net_step s (s\<lparr>queue := q, received := (received s)(p := received s p @ [m])\<rparr>)"

abbreviation net_reach :: "net \<Rightarrow> bool" where
  "net_reach \<equiv> net_step\<^sup>*\<^sup>* init_net"

section \<open>The broker refines the specification\<close>

lemma plain_topic_comma: "plain_topic t \<Longrightarrow> CHR '','' \<notin> set t"
  by (auto simp: plain_topic_def)

lemma process_refines:
  assumes "proper r"
  shows "sub_keys (fst (process_incoming_message (\<lambda>_. True) (request_text r) b)) = fst (spec_step r (sub_keys b))"
    and "snd (process_incoming_message (\<lambda>_. True) (request_text r) b) = snd (spec_step r (sub_keys b))"
proof -
  have keys: "sub_keys (register_subscriber p (take 63 t) b) =
      (if length (sub_keys b) < MAX_SUBSCRIBERS \<and> (p, take 63 t) \<notin> set (sub_keys b) then sub_keys b @ [(p, take 63 t)] else sub_keys b)"
    for p t using sub_table.keys_add [of "(p, take 63 t)" b] by simp
  have un: "sub_keys (unregister_subscriber p (take 63 t) b) = remove1 (p, take 63 t) (sub_keys b)" for p t
    using sub_keys_unreg [of "(p, take 63 t)" b] by simp
  show "sub_keys (fst (process_incoming_message (\<lambda>_. True) (request_text r) b)) = fst (spec_step r (sub_keys b))"
    using assms
    by (cases r) (simp_all add: process_subscribe process_unsubscribe process_publish plain_topic_comma keys un)
  show "snd (process_incoming_message (\<lambda>_. True) (request_text r) b) = snd (spec_step r (sub_keys b))"
    using assms
    by (cases r) (simp_all add: process_subscribe process_unsubscribe process_publish plain_topic_comma route_loop_all)
qed

lemma spec_run_snoc:
  "spec_run (rs @ [r]) ks = (fst (spec_step r (fst (spec_run rs ks))), snd (spec_run rs ks) @ snd (spec_step r (fst (spec_run rs ks))))"
  by (induction rs arbitrary: ks) (simp_all add: split_beta Let_def)

definition clients_only :: "(int \<times> string) list \<Rightarrow> bool" where
  "clients_only ms \<longleftrightarrow> list_all (\<lambda>m. 1 < fst m) ms"

lemma spec_step_clients:
  "proper r \<Longrightarrow> clients_only ks \<Longrightarrow> clients_only (fst (spec_step r ks)) \<and> clients_only (snd (spec_step r ks))"
  by (cases r) (auto simp: clients_only_def list_all_iff dest: notin_set_remove1)

lemma spec_run_clients:
  "list_all proper rs \<Longrightarrow> clients_only (fst (spec_run rs []))"
proof (induction rs rule: rev_induct)
  case Nil
  show ?case by (simp add: clients_only_def)
next
  case (snoc r rs)
  then show ?case using spec_step_clients [of r "fst (spec_run rs [])"] by (simp add: spec_run_snoc)
qed

section \<open>The system refines the specification\<close>

lemma mailbox_append [simp]: "mailbox p (xs @ ys) = mailbox p xs @ mailbox p ys"
  by (simp add: mailbox_def)

lemma mailbox_Nil [simp]: "mailbox p [] = []"
  by (simp add: mailbox_def)

lemma mailbox_one [simp]: "mailbox p [(t, m)] = (if t = p then [m] else [])"
  by (simp add: mailbox_def)

lemma mailbox_broker: "clients_only ms \<Longrightarrow> mailbox 1 ms = []"
  by (auto simp: clients_only_def mailbox_def list_all_iff filter_empty_conv)

lemma sysv_take_mailbox:
  assumes "sysv_take t q = Some (m, q')"
  shows "mailbox t q = m # mailbox t q'" and "p \<noteq> t \<Longrightarrow> mailbox p q' = mailbox p q" and "length q = Suc (length q')"
proof -
  obtain n ms where f: "filter (\<lambda>m. fst m = t) q = n # ms" and r: "m = snd n" "q' = remove1 n q"
    using assms by (auto simp: sysv_take_def split: list.splits)
  with filter_first [OF f] obtain ys zs where s: "q = ys @ n # zs" "q' = ys @ zs" "fst n = t" "\<forall>n \<in> set ys. fst n \<noteq> t" by blast
  then have "mailbox t ys = []" by (auto simp: mailbox_def filter_empty_conv)
  with s r(1) show "mailbox t q = m # mailbox t q'" by (simp add: mailbox_def)
  show "p \<noteq> t \<Longrightarrow> mailbox p q' = mailbox p q" "length q = Suc (length q')" using s by (simp_all add: mailbox_def)
qed

lemma sysv_take_Some: "mailbox t q \<noteq> [] \<Longrightarrow> \<exists>m q'. sysv_take t q = Some (m, q')"
  by (cases "filter (\<lambda>m. fst m = t) q") (auto simp: sysv_take_def mailbox_def)

definition net_inv :: "net \<Rightarrow> bool" where
  "net_inv s \<longleftrightarrow> handled s \<le> length (asked s) \<and> list_all proper (asked s)
     \<and> mailbox 1 (queue s) = map request_text (drop (handled s) (asked s))
     \<and> sub_keys (server s) = fst (spec_run (take (handled s) (asked s)) [])
     \<and> list_all (\<lambda>m. 1 \<le> fst m) (queue s)
     \<and> (\<forall>p > 1. received s p @ mailbox p (queue s) = deliveries p (take (handled s) (asked s)))"

lemma net_inv_init: "net_inv init_net"
  by (simp add: net_inv_def init_net_def deliveries_def mailbox_def sub_keys_def init_broker_def)

lemma sysv_take_types:
  "sysv_take t q = Some (m, q') \<Longrightarrow> list_all P q \<Longrightarrow> list_all P q'"
  by (auto simp: sysv_take_def list_all_iff dest: notin_set_remove1 split: list.splits)

text \<open>What one turn of the broker does, given that its queue and its tables are as the invariant says.\<close>

lemma serve_first_request:
  assumes "net_inv s" "sysv_take 1 (queue s) = Some (m, q)" "process_incoming_message (\<lambda>_. True) m (server s) = (b, sent)"
  shows "\<exists>r. drop (handled s) (asked s) = r # drop (Suc (handled s)) (asked s) \<and> proper r
    \<and> spec_step r (sub_keys (server s)) = (sub_keys b, sent) \<and> clients_only sent"
proof -
  note i = assms(1) [unfolded net_inv_def]
  have "mailbox 1 (queue s) \<noteq> []" using sysv_take_mailbox(1) [OF assms(2)] by simp
  with i have less: "handled s < length (asked s)" by auto
  let ?r = "asked s ! handled s"
  have d: "drop (handled s) (asked s) = ?r # drop (Suc (handled s)) (asked s)" using less by (simp add: Cons_nth_drop_Suc)
  have m: "m = request_text ?r" using i sysv_take_mailbox(1) [OF assms(2)] d by auto
  have r: "proper ?r" using i less by (simp add: list_all_length)
  have sp: "spec_step ?r (sub_keys (server s)) = (sub_keys b, sent)"
    using process_refines [OF r, of "server s"] assms(3) by (simp add: m prod_eq_iff)
  have "list_all proper (take (handled s) (asked s))" using i by (auto simp: list_all_iff dest: in_set_takeD)
  then have "clients_only (sub_keys (server s))" using spec_run_clients i by auto
  with spec_step_clients [OF r] sp have "clients_only sent" by fastforce
  with d r sp show ?thesis by blast
qed

lemma net_inv_step: "net_step s s' \<Longrightarrow> net_inv s \<Longrightarrow> net_inv s'"
proof (induction rule: net_step.induct)
  case (ask r s)
  then show ?case by (auto simp: net_inv_def)
next
  case (serve s m q b sent)
  note i = serve.prems [unfolded net_inv_def] and t = sysv_take_mailbox [OF serve.hyps(1)]
  obtain r where r: "drop (handled s) (asked s) = r # drop (Suc (handled s)) (asked s)"
      "spec_step r (sub_keys (server s)) = (sub_keys b, sent)" "clients_only sent"
    using serve_first_request [OF serve.prems serve.hyps] by blast
  then have less: "handled s < length (asked s)" by (metis drop_eq_Nil linorder_not_less list.simps(3))
  with r(1) have "asked s ! handled s = r" by (simp add: Cons_nth_drop_Suc [symmetric])
  with less have snoc: "take (Suc (handled s)) (asked s) = take (handled s) (asked s) @ [r]"
    by (simp add: take_Suc_conv_app_nth)
  have "mailbox 1 sent = []" "list_all (\<lambda>m. 1 \<le> fst m) sent"
    using r(3) by (simp_all add: mailbox_broker) (auto simp: clients_only_def list_all_iff)
  moreover have "list_all (\<lambda>m. 1 \<le> fst m) q" using sysv_take_types [OF serve.hyps(1)] i by blast
  moreover have "mailbox 1 q = map request_text (drop (Suc (handled s)) (asked s))" using i t(1) r(1) by auto
  ultimately show ?case
    using i less t(2) r(2) by (simp add: net_inv_def deliveries_def spec_run_snoc snoc)
next
  case (deliver p s m q)
  note t = sysv_take_mailbox [OF deliver.hyps(2)]
  have "list_all (\<lambda>m. 1 \<le> fst m) q"
    using sysv_take_types [OF deliver.hyps(2)] deliver.prems by (simp add: net_inv_def)
  with deliver t show ?case by (auto simp: net_inv_def)
qed

interpretation net: step_system net_step "\<lambda>s. s = init_net" net_inv
  by unfold_locales (auto intro: net_inv_init net_inv_step)

lemma net_reach_inv: "net_reach s \<Longrightarrow> net_inv s"
  by (rule net.inv_reachable) simp_all

lemma proper_examples: "proper (Sub 10001 ''news'')" "proper (Pub 20001 ''news'' ''Hello News'')"
  by (simp_all add: is_int32_def plain_topic_def isspace_def)

lemma net_reach_asked:
  assumes "net_reach s" "proper r"
  shows "net_reach (s\<lparr>queue := queue s @ [(1, request_text r)], asked := asked s @ [r]\<rparr>)"
  using assms by (blast intro: rtranclp.rtrancl_into_rtrancl net_step.ask)

lemma net_reach_example:
  "\<exists>s. net_reach s \<and> asked s = [Sub 10001 ''news'', Pub 20001 ''news'' ''Hello News''] \<and> handled s = 0"
  using net_reach_asked [OF net_reach_asked [OF rtranclp.rtrancl_refl proper_examples(1)] proper_examples(2)]
  by (intro exI conjI) (assumption, simp_all add: init_net_def)


text \<open>C1: Whatever the interleaving of clients, broker and queue, the broker handles the requests in the order in which
  they were made, and what each subscriber has received, followed by what waits for it in the queue, is exactly what
  the specification delivers to it for the requests handled so far.\<close>
theorem network_refines_specification:
  assumes "net_reach s" "1 < p"
  shows "mailbox 1 (queue s) = map request_text (drop (handled s) (asked s))
    \<and> received s p @ mailbox p (queue s) = deliveries p (take (handled s) (asked s))"
  using net_reach_inv [OF assms(1)] assms(2) by (simp add: net_inv_def)

theorem network_refines_specification_witness:
  "\<exists>s. net_reach s \<and> mailbox 1 (queue s) = [request_text (Sub 10001 ''news''), request_text (Pub 20001 ''news'' ''Hello News'')]
    \<and> received s 10001 @ mailbox 10001 (queue s) = []"
proof -
  obtain s where s: "net_reach s" "asked s = [Sub 10001 ''news'', Pub 20001 ''news'' ''Hello News'']" "handled s = 0"
    using net_reach_example by blast
  show ?thesis using s network_refines_specification [OF s(1), of 10001] by (intro exI [of _ s]) (simp add: deliveries_def)
qed

section \<open>An abstract broker\<close>

text \<open>
  A message broker without texts, queue and message types: requests wait in their order, each is handled
  at once by \<open>spec_step\<close>, and every client has a mailbox of its own.
\<close>

record pubsub =
  waiting :: "request list"
  subs :: subscriptions
  boxes :: "int \<Rightarrow> string list"
  got :: "int \<Rightarrow> string list"

definition init_pubsub :: pubsub where
  "init_pubsub = \<lparr>waiting = [], subs = [], boxes = (\<lambda>_. []), got = (\<lambda>_. [])\<rparr>"

inductive pubsub_step :: "pubsub \<Rightarrow> pubsub \<Rightarrow> bool" where
  request: "pubsub_step a (a\<lparr>waiting := waiting a @ [r]\<rparr>)"
| handle: "waiting a = r # rs \<Longrightarrow> spec_step r (subs a) = (ks, ms) \<Longrightarrow>
    pubsub_step a (a\<lparr>waiting := rs, subs := ks, boxes := (\<lambda>p. boxes a p @ mailbox p ms)\<rparr>)"
| fetch: "boxes a p = m # ms \<Longrightarrow>
    pubsub_step a (a\<lparr>boxes := (boxes a)(p := ms), got := (got a)(p := got a p @ [m])\<rparr>)"

definition pubsub_of :: "net \<Rightarrow> pubsub" where
  "pubsub_of s = \<lparr>waiting = drop (handled s) (asked s), subs = sub_keys (server s),
     boxes = (\<lambda>p. if 1 < p then mailbox p (queue s) else []), got = received s\<rparr>"

lemma mailbox_clients: "clients_only ms \<Longrightarrow> \<not> 1 < p \<Longrightarrow> mailbox p ms = []"
  by (auto simp: clients_only_def mailbox_def list_all_iff filter_empty_conv)

lemma net_step_pubsub: "net_step s s' \<Longrightarrow> net_inv s \<Longrightarrow> pubsub_step (pubsub_of s) (pubsub_of s')"
proof (induction rule: net_step.induct)
  case (ask r s)
  then have "handled s \<le> length (asked s)" by (simp add: net_inv_def)
  then have "pubsub_of (s\<lparr>queue := queue s @ [(1, request_text r)], asked := asked s @ [r]\<rparr>)
      = (pubsub_of s)\<lparr>waiting := waiting (pubsub_of s) @ [r]\<rparr>"
    by (auto simp: pubsub_of_def)
  then show ?case by (simp add: pubsub_step.request)
next
  case (serve s m q b sent)
  obtain r where r: "drop (handled s) (asked s) = r # drop (Suc (handled s)) (asked s)"
      "spec_step r (sub_keys (server s)) = (sub_keys b, sent)" "clients_only sent"
    using serve_first_request [OF serve.prems serve.hyps] by blast
  have "mailbox p q = mailbox p (queue s)" if "1 < p" for p
    using sysv_take_mailbox(2) [OF serve.hyps(1)] that by simp
  then have "pubsub_of (s\<lparr>queue := q @ sent, server := b, handled := handled s + 1\<rparr>)
      = (pubsub_of s)\<lparr>waiting := drop (Suc (handled s)) (asked s), subs := sub_keys b,
          boxes := (\<lambda>p. boxes (pubsub_of s) p @ mailbox p sent)\<rparr>"
    using mailbox_clients [OF r(3)] by (auto simp: pubsub_of_def)
  moreover have "pubsub_step (pubsub_of s) \<dots>" using r by (intro pubsub_step.handle) (simp_all add: pubsub_of_def)
  ultimately show ?case by simp
next
  case (deliver p s m q)
  note t = sysv_take_mailbox [OF deliver.hyps(2)]
  have "pubsub_of (s\<lparr>queue := q, received := (received s)(p := received s p @ [m])\<rparr>)
      = (pubsub_of s)\<lparr>boxes := (boxes (pubsub_of s))(p := mailbox p q), got := (got (pubsub_of s))(p := got (pubsub_of s) p @ [m])\<rparr>"
    using deliver.hyps(1) t(2) by (auto simp: pubsub_of_def)
  moreover have "pubsub_step (pubsub_of s) \<dots>"
    using deliver.hyps(1) t(1) by (intro pubsub_step.fetch) (simp add: pubsub_of_def)
  ultimately show ?case by simp
qed

lemma pubsub_of_init: "pubsub_of init_net = init_pubsub"
  by (simp add: pubsub_of_def init_net_def init_pubsub_def init_broker_def sub_keys_def mailbox_def fun_eq_iff)

interpretation net: simulation net_step "\<lambda>s. s = init_net" net_inv pubsub_step "\<lambda>a. a = init_pubsub" pubsub_of
  by unfold_locales (auto simp: pubsub_of_init intro: net_step_pubsub)



section \<open>Everything can be delivered\<close>

lemma net_progress:
  assumes "net_inv s" "queue s \<noteq> []"
  shows "\<exists>s'. net_step s s' \<and> asked s' = asked s
    \<and> ((length (asked s') - handled s', length (queue s')), (length (asked s) - handled s, length (queue s))) \<in> less_than <*lex*> less_than"
proof (cases "mailbox 1 (queue s) = []")
  case False
  then obtain m q where t: "sysv_take 1 (queue s) = Some (m, q)"
    using sysv_take_Some by blast
  obtain b sent where p: "process_incoming_message (\<lambda>_. True) m (server s) = (b, sent)" by fastforce
  note st = net_step.serve [OF t p]
  from False assms(1) have "handled s < length (asked s)" by (auto simp: net_inv_def)
  then have "length (asked s) - Suc (handled s) < length (asked s) - handled s" by (rule diff_less_mono2 [OF lessI])
  with st show ?thesis by (intro exI [of _ "s\<lparr>queue := q @ sent, server := b, handled := handled s + 1\<rparr>"]) simp
next
  case True
  from assms(2) obtain x ms where q: "queue s = x # ms" by (auto simp: neq_Nil_conv)
  then have "1 < fst x" using True assms(1) by (auto simp: net_inv_def mailbox_def split: if_splits)
  moreover obtain m q' where t: "sysv_take (fst x) (queue s) = Some (m, q')"
    by (simp add: sysv_take_def q)
  ultimately have "net_step s (s\<lparr>queue := q', received := (received s)(fst x := received s (fst x) @ [m])\<rparr>)"
    by (rule net_step.deliver)
  with sysv_take_mailbox(3) [OF t] show ?thesis
    by (intro exI [of _ "s\<lparr>queue := q', received := (received s)(fst x := received s (fst x) @ [m])\<rparr>"]) simp
qed

interpretation net: draining_system net_step "\<lambda>s. s = init_net" net_inv "\<lambda>s. queue s = []" asked
    "\<lambda>s. (length (asked s) - handled s, length (queue s))"
  by unfold_locales (use net_progress in blast)



end
