(* ===== verification/BrokerTests.thy ===== *)
theory BrokerTests
  imports BrokerSystem "HOL-Library.Multiset"
begin

text \<open>
  The test program \<^verbatim>\<open>module3/task02/unit_tests.c\<close>: it starts the broker as a child, puts requests into the queue, waits
  until the broker has taken them all, and looks at what the subscribers would find. \<open>ftok\<close> succeeds, \<open>/tmp\<close> being
  there, and the requests of a test (below 3 KB) do not fill a queue.
\<close>

section \<open>The queue of the key\<close>

text \<open>The queue with its identifier, if there is one; identifiers are not used again.\<close>

datatype q_errno = Enoent | Eexist | Einval | Enomsg

record sysv =
  sysv_queue :: "(nat \<times> (int \<times> string) list) option"
  next_id :: nat

text \<open>\<open>msgget\<close>, with \<open>create\<close> for \<open>IPC_CREAT | IPC_EXCL\<close>; \<open>msgsnd\<close> and \<open>msgrcv\<close> (with \<open>IPC_NOWAIT\<close>).\<close>

definition msgget :: "bool \<Rightarrow> 'a sysv_scheme \<Rightarrow> (q_errno + nat) \<times> 'a sysv_scheme" where
  "msgget create k =
     (case sysv_queue k of
        Some (i, _) \<Rightarrow> (if create then Inl Eexist else Inr i, k)
      | None \<Rightarrow> if create then (Inr (next_id k), k\<lparr>sysv_queue := Some (next_id k, []), next_id := next_id k + 1\<rparr>)
          else (Inl Enoent, k))"

definition msgsnd :: "nat \<Rightarrow> int \<times> string \<Rightarrow> 'a sysv_scheme \<Rightarrow> q_errno option \<times> 'a sysv_scheme" where
  "msgsnd i m k =
     (case sysv_queue k of
        None \<Rightarrow> (Some Einval, k)
      | Some (j, q) \<Rightarrow> if i \<noteq> j then (Some Einval, k) else (None, k\<lparr>sysv_queue := Some (j, q @ [m])\<rparr>))"

definition msgrcv :: "nat \<Rightarrow> int \<Rightarrow> 'a sysv_scheme \<Rightarrow> (q_errno + string) \<times> 'a sysv_scheme" where
  "msgrcv i t k =
     (case sysv_queue k of
        None \<Rightarrow> (Inl Einval, k)
      | Some (j, q) \<Rightarrow> if i \<noteq> j then (Inl Einval, k) else
          (case sysv_take t q of
             None \<Rightarrow> (Inl Enomsg, k)
           | Some (m, q) \<Rightarrow> (Inr m, k\<lparr>sysv_queue := Some (j, q)\<rparr>)))"

section \<open>The test process and the broker\<close>

text \<open>
  The child with the queue it serves, \<open>global_msqid\<close>, the identifier a test has put aside, the broker's last acts, and
  the counters.
\<close>

record tester = sysv +
  child :: "(nat \<times> broker) option"
  global_msqid :: "nat option"
  saved_msqid :: "nat option"
  last_acts :: "final_act list"
  tests_run :: nat
  tests_failed :: nat

text \<open>A broker whose queue goes away ends with an error of \<open>msgrcv\<close>.\<close>

definition force_cleanup_queue :: "tester \<Rightarrow> tester" where
  "force_cleanup_queue w =
     (case msgget False w of
        (Inl _, w) \<Rightarrow> w
      | (Inr i, w) \<Rightarrow>
          let w = w\<lparr>sysv_queue := None\<rparr> in
          case child w of
            None \<Rightarrow> w
          | Some (j, b) \<Rightarrow>
              if i \<noteq> j then w
              else w\<lparr>child := None, last_acts := last_acts w @ shutdown_broker (fst (broker_recv b [RecvError]))\<rparr>)"

definition start_broker_child :: "tester \<Rightarrow> tester" where
  "start_broker_child w =
     (let w = force_cleanup_queue w;
          w = (case msgget True w of (Inl _, w) \<Rightarrow> w | (Inr i, w) \<Rightarrow> w\<lparr>child := Some (i, init_broker)\<rparr>)
      in case msgget False w of (Inl _, w) \<Rightarrow> w\<lparr>global_msqid := None\<rparr> | (Inr i, w) \<Rightarrow> w\<lparr>global_msqid := Some i\<rparr>)"

text \<open>SIGINT interrupts the broker in \<open>msgrcv\<close>; it removes the queue last.\<close>

definition stop_broker_child :: "tester \<Rightarrow> tester" where
  "stop_broker_child w =
     (force_cleanup_queue (case child w of
        None \<Rightarrow> w
      | Some (i, b) \<Rightarrow>
          w\<lparr>child := None, last_acts := last_acts w @ shutdown_broker (fst (broker_recv b [Interrupt SIGINT])),
            sysv_queue := (case sysv_queue w of Some (j, q) \<Rightarrow> if i = j then None else Some (j, q) | None \<Rightarrow> None)\<rparr>))
      \<lparr>global_msqid := None\<rparr>"

text \<open>The broker takes requests until it is blocked; \<open>n\<close> bounds their number.\<close>

fun serve_all :: "nat \<Rightarrow> (int \<times> string) list \<Rightarrow> broker \<Rightarrow> (int \<times> string) list \<times> broker" where
  "serve_all 0 q b = (q, b)"
| "serve_all (Suc n) q b =
     (case sysv_take 1 q of
        None \<Rightarrow> (q, b)
      | Some (m, q') \<Rightarrow> let (b', sent) = process_incoming_message (\<lambda>_. True) m b in serve_all n (q' @ sent) b')"

definition broker_works :: "tester \<Rightarrow> tester" where
  "broker_works w =
     (case (child w, sysv_queue w) of
        (Some (i, b), Some (j, q)) \<Rightarrow>
          if i \<noteq> j then w else let (q, b) = serve_all (length q) q b in w\<lparr>child := Some (i, b), sysv_queue := Some (j, q)\<rparr>
      | _ \<Rightarrow> w)"

section \<open>The tests\<close>

text \<open>
  What the tests do, with the assertions on the results: \<open>Get\<close>, \<open>Sent\<close> and, to the identifier put aside,
  \<open>SentSaved\<close> with the expected error or with success, \<open>Send\<close> without an assertion, \<open>Rcv\<close> with the expected text or \<open>ENOMSG\<close>, \<open>Count\<close> for the loop that takes all messages.
\<close>

datatype test_op =
    Cleanup | Get bool "q_errno option" | Remove | Start | Created | Stop | Send string | Sent string "q_errno option"
  | SentSaved string "q_errno option" | Wait | Rcv int "string option" | Count int nat

function rcv_all :: "int \<Rightarrow> (int \<times> string) list \<Rightarrow> nat \<times> (int \<times> string) list" where
  "rcv_all t q =
     (case sysv_take t q of None \<Rightarrow> (0, q) | Some (m, q) \<Rightarrow> let (n, q) = rcv_all t q in (n + 1, q))"
  by auto
termination by (relation "measure (length \<circ> snd)") (auto dest: sysv_take_mailbox(3))

declare rcv_all.simps [simp del]

text \<open>A send through a descriptor, or through -1, with what is expected of it.\<close>

definition send_to :: "nat option \<Rightarrow> string \<Rightarrow> q_errno option \<Rightarrow> tester \<Rightarrow> bool \<times> tester" where
  "send_to d m expected w =
     (case d of
        None \<Rightarrow> (expected = Some Einval, w)
      | Some i \<Rightarrow> let (r, w) = msgsnd i (1, m) w in (r = expected, w))"

fun run_op :: "test_op \<Rightarrow> tester \<Rightarrow> bool \<times> tester" where
  "run_op Cleanup w = (True, force_cleanup_queue w)"
| "run_op (Get create expected) w =
     (let (r, w) = msgget create w in (case r of Inl e \<Rightarrow> expected = Some e | Inr _ \<Rightarrow> expected = None, w))"
| "run_op Remove w = (True, w\<lparr>sysv_queue := None\<rparr>)"
| "run_op Start w = (True, start_broker_child w)"
| "run_op Created w = (global_msqid w \<noteq> None, w\<lparr>saved_msqid := global_msqid w\<rparr>)"
| "run_op Stop w = (True, stop_broker_child w)"
| "run_op (Send m) w = (True, snd (send_to (global_msqid w) m None w))"
| "run_op (Sent m expected) w = send_to (global_msqid w) m expected w"
| "run_op (SentSaved m expected) w = send_to (saved_msqid w) m expected w"
| "run_op Wait w = (True, broker_works w)"
| "run_op (Rcv t expected) w =
     (case global_msqid w of
        None \<Rightarrow> (False, w)
      | Some i \<Rightarrow> let (r, w) = msgrcv i t w in
          (case r of Inr m \<Rightarrow> expected = Some m | Inl e \<Rightarrow> expected = None \<and> e = Enomsg, w))"
| "run_op (Count t expected) w =
     (case sysv_queue w of
        None \<Rightarrow> (expected = 0, w)
      | Some (j, q) \<Rightarrow> let (n, q) = rcv_all t q in (n = expected, w\<lparr>sysv_queue := Some (j, q)\<rparr>))"

text \<open>An assertion that fails ends the test, without the \<open>stop_broker_child\<close> at its end.\<close>

fun run_test :: "test_op list \<Rightarrow> tester \<Rightarrow> bool \<times> tester" where
  "run_test [] w = (True, w)"
| "run_test (op # ops) w = (let (ok, w) = run_op op w in if ok then run_test ops w else (False, w))"

definition RUN_TEST :: "test_op list \<Rightarrow> tester \<Rightarrow> tester" where
  "RUN_TEST ops w =
     (let (ok, w) = run_test ops (w\<lparr>tests_run := tests_run w + 1\<rparr>) in
      if ok then w else w\<lparr>tests_failed := tests_failed w + 1\<rparr>)"

definition test_connect_no_broker :: "test_op list" where
  "test_connect_no_broker = [Cleanup, Get False (Some Enoent)]"

definition test_duplicate_broker :: "test_op list" where
  "test_duplicate_broker = [Cleanup, Get True None, Get True (Some Eexist), Remove]"

definition test_default_routing :: "test_op list" where
  "test_default_routing =
     [Start, Created, Sent ''subscribe,10001,news'' None, Sent ''subscribe,10002,sport'' None, Wait,
      Sent ''send,20001,news,Hello News'' None, Sent ''send,20002,sport,Hello Sport'' None, Wait,
      Rcv 10001 (Some ''[news]: Hello News''), Rcv 10002 (Some ''[sport]: Hello Sport''), Rcv 10001 None, Stop]"

definition test_one_sub_multiple_topics :: "test_op list" where
  "test_one_sub_multiple_topics =
     [Start, Send ''subscribe,10003,t1'', Send ''subscribe,10003,t2'', Send ''subscribe,10003,t3'', Wait,
      Send ''send,20001,t1,msg1'', Send ''send,20001,t2,msg2'', Send ''send,20001,t3,msg3'', Wait,
      Rcv 10003 (Some ''[t1]: msg1''), Rcv 10003 (Some ''[t2]: msg2''), Rcv 10003 (Some ''[t3]: msg3''), Stop]"

definition test_one_topic_multiple_subs :: "test_op list" where
  "test_one_topic_multiple_subs =
     [Start, Send ''subscribe,10004,tech'', Send ''subscribe,10005,tech'', Send ''subscribe,10006,tech'', Wait,
      Send ''send,20002,tech,update'', Wait,
      Rcv 10004 (Some ''[tech]: update''), Rcv 10005 (Some ''[tech]: update''), Rcv 10006 (Some ''[tech]: update''), Stop]"

text \<open>A topic of 100 characters.\<close>

definition test_boundary_and_unsubscribe :: "test_op list" where
  "test_boundary_and_unsubscribe =
     (let long_topic = replicate 100 CHR ''A'' in
      [Start, Send (snprintf MAX_TEXT_LEN (''subscribe,10007,'' @ long_topic)), Wait,
       Send (snprintf MAX_TEXT_LEN (''unsubscribe,10007,'' @ long_topic)), Wait,
       Send (snprintf MAX_TEXT_LEN (''send,20003,'' @ long_topic @ '',test_payload'')), Wait,
       Rcv 10007 None, Stop])"

text \<open>\<open>Created\<close> puts the identifier aside.\<close>

definition test_broker_exits_first :: "test_op list" where
  "test_broker_exits_first = [Start, Created, Stop, SentSaved ''test'' (Some Einval)]"

text \<open>
  Three publishers with the pids \<open>pid i\<close> send their messages in the \<open>order\<close> of the numbers; after each message
  the broker may work.
\<close>

definition spam_line :: "nat \<Rightarrow> nat \<Rightarrow> string" where
  "spam_line i j = ''msg_'' @ fmt_d (int i) @ ''_'' @ fmt_d (int j)"

definition publish_spam :: "(nat \<Rightarrow> int) \<Rightarrow> (nat \<times> nat) \<times> bool \<Rightarrow> test_op list" where
  "publish_spam pid = (\<lambda>((i, j), works).
     Sent (snprintf MAX_TEXT_LEN (''send,'' @ fmt_d (pid i) @ '',spam_topic,'' @ spam_line i j)) None
       # (if works then [Wait] else []))"

definition test_concurrency_and_spam :: "(nat \<Rightarrow> int) \<Rightarrow> ((nat \<times> nat) \<times> bool) list \<Rightarrow> test_op list" where
  "test_concurrency_and_spam pid order =
     [Start, Created, Sent ''subscribe,10008,spam_topic'' None, Wait] @ concat (map (publish_spam pid) order)
       @ [Wait, Count 10008 60, Stop]"

definition unit_tests_main :: "(nat \<Rightarrow> int) \<Rightarrow> ((nat \<times> nat) \<times> bool) list \<Rightarrow> tester \<Rightarrow> tester \<times> int" where
  "unit_tests_main pid order w =
     (let w = fold RUN_TEST [test_connect_no_broker, test_duplicate_broker, test_default_routing, test_one_sub_multiple_topics,
          test_one_topic_multiple_subs, test_boundary_and_unsubscribe, test_broker_exits_first,
          test_concurrency_and_spam pid order] w
      in (w, if 0 < tests_failed w then 1 else 0))"

section \<open>The tests pass\<close>

lemma digit_chars:
  "char_of (48::nat) = CHR ''0''" "char_of (49::nat) = CHR ''1''" "char_of (50::nat) = CHR ''2''" "char_of (51::nat) = CHR ''3''"
  "char_of (52::nat) = CHR ''4''" "char_of (53::nat) = CHR ''5''" "char_of (54::nat) = CHR ''6''" "char_of (55::nat) = CHR ''7''"
  "char_of (56::nat) = CHR ''8''"
  by code_simp+

lemmas text_simps = sub_text_def unsub_text_def pub_text_def snprintf_def MAX_TEXT_LEN_def fmt_d_def dec_nat.simps digit_chars

lemma texts:
  "''subscribe,10001,news'' = sub_text 10001 ''news''"
  "''subscribe,10002,sport'' = sub_text 10002 ''sport''"
  "''send,20001,news,Hello News'' = pub_text 20001 ''news'' ''Hello News''"
  "''send,20002,sport,Hello Sport'' = pub_text 20002 ''sport'' ''Hello Sport''"
  "''subscribe,10003,t1'' = sub_text 10003 ''t1''"
  "''subscribe,10003,t2'' = sub_text 10003 ''t2''"
  "''subscribe,10003,t3'' = sub_text 10003 ''t3''"
  "''send,20001,t1,msg1'' = pub_text 20001 ''t1'' ''msg1''"
  "''send,20001,t2,msg2'' = pub_text 20001 ''t2'' ''msg2''"
  "''send,20001,t3,msg3'' = pub_text 20001 ''t3'' ''msg3''"
  "''subscribe,10004,tech'' = sub_text 10004 ''tech''"
  "''subscribe,10005,tech'' = sub_text 10005 ''tech''"
  "''subscribe,10006,tech'' = sub_text 10006 ''tech''"
  "''send,20002,tech,update'' = pub_text 20002 ''tech'' ''update''"
  by (simp_all add: text_simps)

lemma long_texts:
  "snprintf MAX_TEXT_LEN (''subscribe,10007,'' @ t) = sub_text 10007 t"
  "snprintf MAX_TEXT_LEN (''unsubscribe,10007,'' @ t) = unsub_text 10007 t"
  "snprintf MAX_TEXT_LEN (''send,20003,'' @ t @ '',test_payload'') = pub_text 20003 t ''test_payload''"
  by (simp_all add: text_simps)

lemma plain_topics:
  "plain_topic ''news''" "plain_topic ''sport''" "plain_topic ''tech''"
  "plain_topic ''t1''" "plain_topic ''t2''" "plain_topic ''t3''" "plain_topic (replicate 100 CHR ''A'')"
  by (simp_all add: plain_topic_def isspace_def)

lemma long_topic_comma: "CHR '','' \<notin> set (replicate 100 CHR ''A'')"
  by simp

lemmas test_simps = sysv_take_def Let_def process_subscribe process_unsubscribe process_publish plain_topics is_int32_def
  register_subscriber_def unregister_subscriber_def register_publisher_def MAX_SUBSCRIBERS_def MAX_PUBLISHERS_def init_broker_def

lemma shift_down_end: "\<not> j < n - 1 \<Longrightarrow> shift_down xs j n = xs"
  by (simp add: shift_down.simps)

definition clean :: "tester \<Rightarrow> bool" where
  "clean w \<longleftrightarrow> sysv_queue w = None \<and> child w = None"

text \<open>A test that passes leaves no queue and no broker.\<close>

definition passes :: "test_op list \<Rightarrow> bool" where
  "passes ops \<longleftrightarrow> (\<forall>w. clean w \<longrightarrow> (\<exists>w'. run_test ops w = (True, w') \<and> clean w'
     \<and> tests_run w' = tests_run w \<and> tests_failed w' = tests_failed w))"

lemma passesI:
  assumes "\<And>w. sysv_queue w = None \<Longrightarrow> child w = None \<Longrightarrow> fst (run_test ops w) \<and> clean (snd (run_test ops w))
    \<and> tests_run (snd (run_test ops w)) = tests_run w \<and> tests_failed (snd (run_test ops w)) = tests_failed w"
  shows "passes ops"
  unfolding passes_def
proof (intro allI impI)
  fix w assume "clean w"
  then have "fst (run_test ops w) \<and> clean (snd (run_test ops w))
    \<and> tests_run (snd (run_test ops w)) = tests_run w \<and> tests_failed (snd (run_test ops w)) = tests_failed w"
    using assms by (simp add: clean_def)
  then show "\<exists>w'. run_test ops w = (True, w') \<and> clean w' \<and> tests_run w' = tests_run w \<and> tests_failed w' = tests_failed w"
    by (intro exI [of _ "snd (run_test ops w)"]) (simp add: prod_eq_iff)
qed

lemmas call_simps = msgget_def msgsnd_def msgrcv_def force_cleanup_queue_def start_broker_child_def stop_broker_child_def
  broker_works_def send_to_def clean_def

text \<open>A tester whose broker runs, and the steps of a test there.\<close>

definition served :: "nat \<Rightarrow> (int \<times> string) list \<Rightarrow> broker \<Rightarrow> tester \<Rightarrow> tester" where
  "served i q b w = w\<lparr>sysv_queue := Some (i, q), child := Some (i, b), global_msqid := Some i\<rparr>"

lemma run_start:
  "sysv_queue w = None \<Longrightarrow> child w = None \<Longrightarrow>
   run_test (Start # ops) w = run_test ops (served (next_id w) [] init_broker (w\<lparr>next_id := next_id w + 1\<rparr>))"
  by (cases w) (simp add: call_simps served_def Let_def)

lemma run_send:
  "run_test (Send m # ops) (served i q b w) = run_test ops (served i (q @ [(1, m)]) b w)"
  "run_test (Sent m None # ops) (served i q b w) = run_test ops (served i (q @ [(1, m)]) b w)"
  by (cases w, simp add: call_simps served_def Let_def)+

lemma run_created: "run_test (Created # ops) (served i q b w) = run_test ops (served i q b (w\<lparr>saved_msqid := Some i\<rparr>))"
  by (cases w) (simp add: served_def Let_def)

lemma run_wait: "run_test (Wait # ops) (served i q b w) = (case serve_all (length q) q b of (q, b) \<Rightarrow> run_test ops (served i q b w))"
  by (cases w) (simp add: broker_works_def served_def Let_def case_prod_unfold)

lemma run_rcv:
  "run_test (Rcv t e # ops) (served i q b w) =
    (case sysv_take t q of
       None \<Rightarrow> if e = None then run_test ops (served i q b w) else (False, served i q b w)
     | Some (m, q) \<Rightarrow> if e = Some m then run_test ops (served i q b w) else (False, served i q b w))"
  by (cases w, cases "sysv_take t q") (simp_all add: msgrcv_def served_def Let_def case_prod_unfold)

lemma run_stop:
  "run_test (Stop # ops) (served i q b w) =
    run_test ops (w\<lparr>sysv_queue := None, child := None, global_msqid := None,
      last_acts := last_acts w @ shutdown_broker (fst (broker_recv b [Interrupt SIGINT]))\<rparr>)"
  by (cases w) (simp add: stop_broker_child_def force_cleanup_queue_def msgget_def served_def)

lemmas run_served = run_send run_created run_wait run_rcv run_stop

theorem default_routing_passes: "passes test_default_routing"
  by (rule passesI) (simp add: test_default_routing_def texts test_simps run_start run_served clean_def
      del: run_test.simps(2))

theorem one_sub_multiple_topics_passes: "passes test_one_sub_multiple_topics"
  by (rule passesI) (simp add: test_one_sub_multiple_topics_def texts test_simps run_start run_served clean_def
      del: run_test.simps(2))

theorem one_topic_multiple_subs_passes: "passes test_one_topic_multiple_subs"
  by (rule passesI) (simp add: test_one_topic_multiple_subs_def texts test_simps run_start run_served clean_def
      del: run_test.simps(2))

theorem boundary_and_unsubscribe_passes: "passes test_boundary_and_unsubscribe"
  unfolding test_boundary_and_unsubscribe_def Let_def long_texts
  by (rule passesI) (simp add: test_simps shift_down_end run_start run_served clean_def del: run_test.simps(2))

theorem broker_exits_first_passes: "passes test_broker_exits_first"
  by (rule passesI) (simp add: test_broker_exits_first_def Let_def call_simps)

theorem duplicate_broker_passes: "passes test_duplicate_broker"
  by (rule passesI) (simp add: test_duplicate_broker_def Let_def call_simps)

theorem connect_no_broker_passes: "passes test_connect_no_broker"
  by (rule passesI) (simp add: test_connect_no_broker_def Let_def call_simps)

section \<open>The queue comes and goes\<close>

text \<open>\<open>test_connect_no_broker\<close>, \<open>test_duplicate_broker\<close>: without a broker nobody can connect, and a second broker ends.\<close>

theorem connect_no_broker_fails: "connect_to_queue ok key {} = None"
  by (simp add: connect_to_queue_def get_ipc_key_def)

theorem duplicate_broker_fails:
  assumes "create_exclusive_queue ok key queues = Some (k, queues')"
  shows "run_broker ok' key queues' is = None"
  using assms by (auto simp: create_exclusive_queue_def get_ipc_key_def run_broker_def split: if_splits)

text \<open>\<open>test_broker_exits_first\<close>: while the broker runs the clients can connect, and when it has ended they cannot; the
  queues are as before, so that the next broker can start.\<close>

theorem broker_exits_first:
  assumes "key \<noteq> - 1" "key \<notin> queues"
  shows "connect_to_queue True key (insert key queues) = Some key
    \<and> (\<exists>b sent acts. run_broker True key queues [Interrupt SIGINT] = Some (b, sent, Stopped, acts, queues))
    \<and> connect_to_queue True key queues = None"
  using assms broker_run [of key queues "[]" SIGINT "[]"] by (simp add: connect_to_queue_def get_ipc_key_def)

section \<open>Three publishers at once\<close>

text \<open>
  Over the system of broker and clients: after one subscription, three processes with the pids \<open>pid i\<close> send 20 messages
  each, in any interleaving \<open>order\<close> of their numbers.
\<close>

definition spam_requests :: "(nat \<Rightarrow> int) \<Rightarrow> (nat \<times> nat) list \<Rightarrow> request list" where
  "spam_requests pid order =
     Sub 10008 ''spam_topic'' # map (\<lambda>(i, j). Pub (pid i) ''spam_topic'' (spam_line i j)) order"

lemma spec_run_pubs:
  "spec_run (map (\<lambda>(i, j). Pub (pid i) t (f i j)) order) [(p, take 63 t)]
   = ([(p, take 63 t)], map (\<lambda>(i, j). (p, ''['' @ take 63 t @ '']: '' @ f i j)) order)"
  by (induction order) auto

lemma spam_deliveries:
  "deliveries 10008 (spam_requests pid order) = map (\<lambda>(i, j). ''[spam_topic]: '' @ spam_line i j) order"
  using spec_run_pubs [of pid "''spam_topic''" spam_line order 10008]
  by (simp add: deliveries_def spam_requests_def MAX_SUBSCRIBERS_def mailbox_def comp_def filter_map split_beta)

theorem spam_all_delivered:
  assumes "net_reach s" "asked s = spam_requests pid order" "handled s = length (asked s)"
    and "mset order = mset (List.product [0..<3] [0..<20])" "received s 10008 = []"
  shows "length (mailbox 10008 (queue s)) = 60"
proof -
  have "mailbox 10008 (queue s) = deliveries 10008 (spam_requests pid order)"
    using net_reach_inv [OF assms(1)] assms(2,3,5) by (auto simp: net_inv_def dest: spec [of _ 10008])
  then have "length (mailbox 10008 (queue s)) = size (mset order)" by (simp add: spam_deliveries)
  then show ?thesis by (simp add: assms(4))
qed

text \<open>In the test program: every message in the queue is a publication or waits for the subscriber.\<close>

definition spam_msg :: "int \<times> string \<Rightarrow> bool" where
  "spam_msg m \<longleftrightarrow> fst m = 10008
     \<or> (\<exists>p l. is_int32 p \<and> length l \<le> 100 \<and> m = (1, pub_text p ''spam_topic'' l))"

definition spam_subs :: "subscriber list" where
  "spam_subs = [\<lparr>sub_pid = 10008, sub_topic = ''spam_topic''\<rparr>]"

lemma serve_all_spam:
  "subscribers b = spam_subs \<Longrightarrow> list_all spam_msg q \<Longrightarrow> serve_all n q b = (q', b') \<Longrightarrow>
   subscribers b' = spam_subs \<and> list_all spam_msg q' \<and> length q' = length q \<and> (length (mailbox 1 q) \<le> n \<longrightarrow> mailbox 1 q' = [])"
proof (induction n arbitrary: q b)
  case (Suc n)
  show ?case
  proof (cases "sysv_take 1 q")
    case None
    then have "mailbox 1 q = []" using sysv_take_Some [of 1 q] by force
    with None Suc.prems show ?thesis by auto
  next
    case (Some r)
    then obtain m q1 where r: "sysv_take 1 q = Some (m, q1)" by (cases r) auto
    note take = sysv_take_mailbox [OF r]
    have "(1, m) \<in> set q" "set q1 \<subseteq> set q" using r by (auto simp: sysv_take_def filter_eq_Cons_iff dest: set_remove1_subset [THEN subsetD] split: list.splits)
    then have ok: "spam_msg (1, m)" "list_all spam_msg q1" using Suc.prems(2) by (auto simp: list_all_iff)
    then obtain p l where m: "is_int32 p" "length l \<le> 100" "m = pub_text p ''spam_topic'' l" by (auto simp: spam_msg_def)
    let ?b = "register_publisher p b" and ?t = "''[spam_topic]: '' @ l"
    have "process_incoming_message (\<lambda>_. True) m b = (?b, [(10008, ?t)])"
      using process_publish [OF m(1), of "''spam_topic''" l] m(2,3) Suc.prems(1) by (simp add: spam_subs_def)
    then have "serve_all n (q1 @ [(10008, ?t)]) ?b = (q', b')" using Suc.prems(3) r by simp
    moreover have "subscribers ?b = spam_subs" using Suc.prems(1) by (simp add: register_publisher_def)
    moreover have "list_all spam_msg (q1 @ [(10008, ?t)])" using ok(2) by (simp add: spam_msg_def)
    ultimately have "subscribers b' = spam_subs \<and> list_all spam_msg q' \<and> length q' = length (q1 @ [(10008, ?t)])
        \<and> (length (mailbox 1 (q1 @ [(10008, ?t)])) \<le> n \<longrightarrow> mailbox 1 q' = [])"
      by (intro Suc.IH)
    with take show ?thesis by (simp add: mailbox_def)
  qed
qed (auto simp: mailbox_def)

lemma rcv_all_count: "fst (rcv_all t q) = length (mailbox t q)"
proof (induction t q rule: rcv_all.induct)
  case (1 t q)
  show ?case
  proof (cases "sysv_take t q")
    case None
    then have "mailbox t q = []" using sysv_take_Some [of t q] by force
    with None show ?thesis by (subst rcv_all.simps) simp
  next
    case (Some r)
    then obtain m q1 where r: "sysv_take t q = Some (m, q1)" by (cases r) auto
    then show ?thesis using 1 [OF r refl] sysv_take_mailbox(1) [OF r] by (subst rcv_all.simps) (simp add: case_prod_unfold)
  qed
qed

definition spam_state :: "nat \<Rightarrow> tester \<Rightarrow> bool" where
  "spam_state n w \<longleftrightarrow> (\<exists>i q b. sysv_queue w = Some (i, q) \<and> child w = Some (i, b) \<and> global_msqid w = Some i
     \<and> subscribers b = spam_subs \<and> list_all spam_msg q \<and> length q = n)"

lemma spam_works:
  assumes "spam_state n w"
  shows "spam_state n (broker_works w) \<and> (\<forall>i q. sysv_queue (broker_works w) = Some (i, q) \<longrightarrow> mailbox 1 q = [])
    \<and> tests_run (broker_works w) = tests_run w \<and> tests_failed (broker_works w) = tests_failed w"
proof -
  obtain i q b where w: "sysv_queue w = Some (i, q)" "child w = Some (i, b)" "global_msqid w = Some i"
      "subscribers b = spam_subs" "list_all spam_msg q" "length q = n"
    using assms by (auto simp: spam_state_def)
  obtain q' b' where s: "serve_all (length q) q b = (q', b')" by (cases "serve_all (length q) q b")
  have "length (mailbox 1 q) \<le> length q" by (simp add: mailbox_def)
  with serve_all_spam [OF w(4,5) s] show ?thesis using w s by (simp add: spam_state_def broker_works_def)
qed

lemma spam_line_length:
  assumes "i < 3" "j < 20"
  shows "length (spam_line i j) \<le> 100"
proof -
  have "is_int32 (int i)" "is_int32 (int j)" using assms by (simp_all add: is_int32_def)
  from length_fmt_d [OF this(1)] length_fmt_d [OF this(2)] show ?thesis by (simp add: spam_line_def)
qed

lemma run_test_append: "run_test (xs @ ys) w = (case run_test xs w of (ok, w) \<Rightarrow> if ok then run_test ys w else (False, w))"
  by (induction xs arbitrary: w) (simp_all add: case_prod_unfold Let_def)

lemma spam_publishes:
  assumes "\<forall>i. is_int32 (pid i)"
  shows "spam_state n w \<Longrightarrow> \<forall>((i, j), _) \<in> set order. i < 3 \<and> j < 20 \<Longrightarrow>
    \<exists>w'. run_test (concat (map (publish_spam pid) order)) w = (True, w') \<and> spam_state (n + length order) w'
      \<and> tests_run w' = tests_run w \<and> tests_failed w' = tests_failed w"
proof (induction order arbitrary: n w)
  case (Cons e order)
  obtain i j works where e: "e = ((i, j), works)" by (cases e) auto
  let ?m = "pub_text (pid i) ''spam_topic'' (spam_line i j)"
  have m: "snprintf MAX_TEXT_LEN (''send,'' @ fmt_d (pid i) @ '',spam_topic,'' @ spam_line i j) = ?m" by (simp add: pub_text_def)
  have "length (spam_line i j) \<le> 100" using Cons.prems(2) e by (intro spam_line_length) auto
  then have ok: "spam_msg (1, ?m)" using assms by (auto simp: spam_msg_def)
  obtain k q b where w: "sysv_queue w = Some (k, q)" "child w = Some (k, b)" "global_msqid w = Some k"
      "subscribers b = spam_subs" "list_all spam_msg q" "length q = n"
    using Cons.prems(1) by (auto simp: spam_state_def)
  let ?w = "w\<lparr>sysv_queue := Some (k, q @ [(1, ?m)])\<rparr>"
  have w1: "spam_state (Suc n) ?w" using w ok by (simp add: spam_state_def)
  have "\<exists>w2. run_test (publish_spam pid e) w = (True, w2) \<and> spam_state (Suc n) w2
      \<and> tests_run w2 = tests_run w \<and> tests_failed w2 = tests_failed w"
    using w w1 spam_works [OF w1] unfolding e publish_spam_def prod.case m by (simp add: send_to_def msgsnd_def)
  then obtain w2 where w2: "run_test (publish_spam pid e) w = (True, w2)" "spam_state (Suc n) w2"
      "tests_run w2 = tests_run w" "tests_failed w2 = tests_failed w" by blast
  with Cons.IH [OF w2(2)] Cons.prems(2) show ?case by (simp add: run_test_append)
qed simp

theorem concurrency_and_spam_passes:
  assumes "\<forall>i. is_int32 (pid i)" "mset (map fst order) = mset (List.product [0..<3] [0..<20])"
  shows "passes (test_concurrency_and_spam pid order)"
  unfolding passes_def
proof (intro allI impI)
  fix w assume w: "clean w"
  have "set (map fst order) = {0..<3} \<times> {0..<20}" using assms(2) by (metis set_mset_mset set_product set_upt)
  then have "fst e \<in> {0..<3} \<times> {0..<20}" if "e \<in> set order" for e using that by auto
  then have bounds: "\<forall>((i, j), _) \<in> set order. i < 3 \<and> j < 20" by (auto dest: bspec)
  have "size (mset (map fst order)) = size (mset (List.product [0..<3::nat] [0..<20::nat]))" by (simp only: assms(2))
  then have len: "length order = 60" by simp
  have sub: "''subscribe,10008,spam_topic'' = sub_text 10008 ''spam_topic''" "plain_topic ''spam_topic''"
    by (simp_all add: text_simps plain_topic_def isspace_def)
  have "\<exists>w'. run_test [Start, Created, Sent ''subscribe,10008,spam_topic'' None, Wait] w = (True, w') \<and> spam_state 0 w'
      \<and> tests_run w' = tests_run w \<and> tests_failed w' = tests_failed w"
    using w by (simp add: sub test_simps call_simps spam_state_def spam_subs_def)
  then obtain w1 where w1: "run_test [Start, Created, Sent ''subscribe,10008,spam_topic'' None, Wait] w = (True, w1)"
      "spam_state 0 w1" "tests_run w1 = tests_run w" "tests_failed w1 = tests_failed w" by blast
  obtain w2 where w2: "run_test (concat (map (publish_spam pid) order)) w1 = (True, w2)" "spam_state 60 w2"
      "tests_run w2 = tests_run w1" "tests_failed w2 = tests_failed w1"
    using spam_publishes [OF assms(1) w1(2) bounds] len by auto
  let ?w = "broker_works w2"
  obtain i q b where w3: "sysv_queue ?w = Some (i, q)" "child ?w = Some (i, b)" "list_all spam_msg q" "length q = 60"
      "mailbox 1 q = []"
    using spam_works [OF w2(2)] by (auto simp: spam_state_def)
  have "fst m = 10008" if "m \<in> set q" for m
  proof -
    have "fst m \<noteq> 1" using w3(5) that by (simp add: mailbox_def filter_empty_conv)
    moreover have "spam_msg m" using w3(3) that by (simp add: list_all_iff)
    ultimately show ?thesis unfolding spam_msg_def by (elim disjE exE conjE) simp_all
  qed
  then have "filter (\<lambda>m. fst m = 10008) q = q" by (simp add: filter_id_conv)
  then have "fst (rcv_all 10008 q) = 60" using w3(4) by (simp add: rcv_all_count mailbox_def)
  then have "\<exists>w'. run_test [Wait, Count 10008 60, Stop] w2 = (True, w') \<and> clean w'
      \<and> tests_run w' = tests_run w2 \<and> tests_failed w' = tests_failed w2"
    using w3 spam_works [OF w2(2)] by (simp add: Let_def case_prod_unfold call_simps)
  with w1 w2 show "\<exists>w'. run_test (test_concurrency_and_spam pid order) w = (True, w') \<and> clean w'
      \<and> tests_run w' = tests_run w \<and> tests_failed w' = tests_failed w"
    unfolding test_concurrency_and_spam_def run_test_append by simp
qed

lemma RUN_TEST_passes:
  assumes "passes ops" "clean w"
  shows "clean (RUN_TEST ops w)" "tests_run (RUN_TEST ops w) = tests_run w + 1" "tests_failed (RUN_TEST ops w) = tests_failed w"
proof -
  let ?w = "w\<lparr>tests_run := tests_run w + 1\<rparr>"
  have "clean ?w" using assms(2) by (simp add: clean_def)
  then obtain w' where "run_test ops ?w = (True, w')" "clean w'" "tests_run w' = tests_run ?w" "tests_failed w' = tests_failed ?w"
    using assms(1) unfolding passes_def by blast
  then show "clean (RUN_TEST ops w)" "tests_run (RUN_TEST ops w) = tests_run w + 1" "tests_failed (RUN_TEST ops w) = tests_failed w"
    by (simp_all add: RUN_TEST_def)
qed

text \<open>The first test removes a queue that it finds.\<close>

lemma first_test:
  "child w = None \<Longrightarrow> clean (RUN_TEST test_connect_no_broker w)
    \<and> tests_run (RUN_TEST test_connect_no_broker w) = tests_run w + 1
    \<and> tests_failed (RUN_TEST test_connect_no_broker w) = tests_failed w"
  by (simp add: RUN_TEST_def test_connect_no_broker_def call_simps Let_def split: option.split)

lemma fold_passes:
  "list_all passes ts \<Longrightarrow> clean w \<Longrightarrow>
   clean (fold RUN_TEST ts w) \<and> tests_run (fold RUN_TEST ts w) = tests_run w + length ts \<and> tests_failed (fold RUN_TEST ts w) = tests_failed w"
proof (induction ts arbitrary: w)
  case (Cons t ts)
  then show ?case using RUN_TEST_passes [of t w] Cons.IH [of "RUN_TEST t w"] by simp
qed simp

text \<open>Whatever queue there is before, whatever the pids of the three concurrent publishers, in whatever order their
  messages come and whenever the broker works between them, the eight tests pass and leave no queue and no broker.\<close>
theorem unit_tests_pass:
  assumes "child w = None" "tests_run w = 0" "tests_failed w = 0"
    and "\<forall>i. is_int32 (pid i)" "mset (map fst order) = mset (List.product [0..<3] [0..<20])"
  shows "\<exists>w'. unit_tests_main pid order w = (w', 0) \<and> tests_run w' = 8 \<and> sysv_queue w' = None \<and> child w' = None"
proof -
  let ?ts = "[test_duplicate_broker, test_default_routing, test_one_sub_multiple_topics, test_one_topic_multiple_subs,
    test_boundary_and_unsubscribe, test_broker_exits_first, test_concurrency_and_spam pid order]"
  let ?w = "RUN_TEST test_connect_no_broker w"
  note first = first_test [OF assms(1)]
  have ts: "list_all passes ?ts"
    using concurrency_and_spam_passes [OF assms(4,5)]
    by (simp add: duplicate_broker_passes default_routing_passes one_sub_multiple_topics_passes one_topic_multiple_subs_passes
        boundary_and_unsubscribe_passes broker_exits_first_passes)
  have "clean ?w" using first by simp
  from fold_passes [OF ts this] first assms(2,3) show ?thesis
    by (simp add: unit_tests_main_def clean_def)
qed

theorem unit_tests_pass_witness:
  "\<exists>w'. unit_tests_main (\<lambda>_. 20000) (map (\<lambda>p. (p, False)) (List.product [0..<3] [0..<20]))
      \<lparr>sysv_queue = Some (3, [(7, ''old'')]), next_id = 4, child = None, global_msqid = None, saved_msqid = None,
       last_acts = [], tests_run = 0, tests_failed = 0\<rparr> = (w', 0)
    \<and> tests_run w' = 8 \<and> sysv_queue w' = None \<and> child w' = None"
  by (rule unit_tests_pass) (simp_all add: is_int32_def comp_def)

text \<open>The unit tests end the broker with SIGINT, and the broker passes the signal on to the pids its tables hold, which the
  tests made up: processes of the machine that happen to have them are interrupted.\<close>
theorem tests_interrupt_strangers:
  assumes "clean w" "last_acts w = []"
  shows "last_acts (snd (run_test test_default_routing w))
    = [Kill 10001 SIGINT, Kill 10002 SIGINT, Kill 20001 SIGINT, Kill 20002 SIGINT, RemoveQueue]"
  using assms
  by (simp add: test_default_routing_def texts test_simps run_start run_served clean_def shutdown_broker_def notify_clients_def
      broker_signal_handler_def del: run_test.simps(2))

end
