(* ===== verification/Mem.thy ===== *)
theory Mem
  imports CLib "HOL-Library.Monad_Syntax"
begin

text \<open>
  A memory segment as a list of bytes, with the accesses a C program makes to it: every load and
  store is checked against the size of the segment and gives \<open>None\<close> outside it, so that a result
  \<open>Some\<close> of a function of the model says, among other things, that all its accesses were inside.
  \<open>size_t\<close> takes 8 bytes, \<open>int\<close> 4, little-endian. The collection \<open>mem\<close> holds the rules that
  read through a store.
\<close>

named_theorems mem \<open>loads from a memory after stores\<close>

type_synonym mem = "byte list"

definition load :: "mem \<Rightarrow> nat \<Rightarrow> nat \<Rightarrow> byte list option" where
  "load m a n = (if a + n \<le> length m then Some (take n (drop a m)) else None)"

definition store :: "mem \<Rightarrow> nat \<Rightarrow> byte list \<Rightarrow> mem option" where
  "store m a bs = (if a + length bs \<le> length m then Some (take a m @ bs @ drop (a + length bs) m) else None)"

definition load_size :: "mem \<Rightarrow> nat \<Rightarrow> nat option" where
  "load_size m a = map_option dec_le (load m a 8)"

definition store_size :: "mem \<Rightarrow> nat \<Rightarrow> nat \<Rightarrow> mem option" where
  "store_size m a v = store m a (enc_le 8 v)"

definition load_int :: "mem \<Rightarrow> nat \<Rightarrow> int option" where
  "load_int m a = map_option dec_int32 (load m a 4)"

definition store_int :: "mem \<Rightarrow> nat \<Rightarrow> int \<Rightarrow> mem option" where
  "store_int m a v = store m a (enc_int32 v)"

text \<open>An array of \<open>n\<close> ints.\<close>

fun load_ints :: "mem \<Rightarrow> nat \<Rightarrow> nat \<Rightarrow> int list option" where
  "load_ints m a 0 = Some []"
| "load_ints m a (Suc n) = do { x \<leftarrow> load_int m a; xs \<leftarrow> load_ints m (a + 4) n; Some (x # xs) }"

definition disjoint :: "nat \<Rightarrow> nat \<Rightarrow> nat \<Rightarrow> nat \<Rightarrow> bool" where
  "disjoint a n b k \<longleftrightarrow> a + n \<le> b \<or> b + k \<le> a"

lemma store_length [mem]: "store m a bs = Some m' \<Longrightarrow> length m' = length m"
  by (auto simp: store_def split: if_splits)

lemma load_store_same [mem]: "store m a bs = Some m' \<Longrightarrow> n = length bs \<Longrightarrow> load m' a n = Some bs"
  by (auto simp: store_def load_def split: if_splits)

lemma load_store_disjoint [mem]:
  assumes "store m a bs = Some m'" "disjoint a (length bs) b n"
  shows "load m' b n = load m b n"
proof -
  have m': "m' = take a m @ bs @ drop (a + length bs) m" and le: "a + length bs \<le> length m"
    using assms(1) by (auto simp: store_def split: if_splits)
  show ?thesis
  proof (cases "b + n \<le> length m")
    case True
    from assms(2) have "take n (drop b m') = take n (drop b m)"
      unfolding disjoint_def
    proof
      assume "a + length bs \<le> b"
      with le show ?thesis by (simp add: m' add.commute)
    next
      assume "b + n \<le> a"
      with le show ?thesis by (simp add: m' take_drop min_def)
    qed
    with True store_length [OF assms(1)] show ?thesis by (simp add: load_def)
  next
    case False
    with store_length [OF assms(1)] show ?thesis by (simp add: load_def)
  qed
qed

lemma store_size_length [mem]: "store_size m a v = Some m' \<Longrightarrow> length m' = length m"
  by (simp add: store_size_def mem)

lemma store_int_length [mem]: "store_int m a v = Some m' \<Longrightarrow> length m' = length m"
  by (simp add: store_int_def mem)

lemma store_size_Some: "a + 8 \<le> length m \<Longrightarrow> \<exists>m'. store_size m a v = Some m'"
  by (simp add: store_size_def store_def)

lemma store_int_Some: "a + 4 \<le> length m \<Longrightarrow> \<exists>m'. store_int m a v = Some m'"
  by (simp add: store_int_def store_def)

lemma load_size_store_size [mem]:
  "store_size m a v = Some m' \<Longrightarrow> v < 2 ^ 64 \<Longrightarrow> load_size m' a = Some v"
  by (auto simp: store_size_def load_size_def load_store_same dec_enc_le)

lemma load_size_store_size_disjoint [mem]:
  "store_size m a v = Some m' \<Longrightarrow> disjoint a 8 b 8 \<Longrightarrow> load_size m' b = load_size m b"
  by (simp add: store_size_def load_size_def load_store_disjoint)

lemma load_int_store_size_disjoint [mem]:
  "store_size m a v = Some m' \<Longrightarrow> disjoint a 8 b 4 \<Longrightarrow> load_int m' b = load_int m b"
  by (simp add: store_size_def load_int_def load_store_disjoint)

lemma load_int_store_int [mem]: "store_int m a v = Some m' \<Longrightarrow> load_int m' a = Some (to_int32 v)"
  by (auto simp: store_int_def load_int_def load_store_same dec_enc_int32)

lemma load_int_store_int_disjoint [mem]:
  "store_int m a v = Some m' \<Longrightarrow> disjoint a 4 b 4 \<Longrightarrow> load_int m' b = load_int m b"
  by (simp add: store_int_def load_int_def load_store_disjoint)

lemma load_size_store_int_disjoint [mem]:
  "store_int m a v = Some m' \<Longrightarrow> disjoint a 4 b 8 \<Longrightarrow> load_size m' b = load_size m b"
  by (simp add: store_int_def load_size_def load_store_disjoint)

lemma load_size_Some: "a + 8 \<le> length m \<Longrightarrow> \<exists>v. load_size m a = Some v"
  by (simp add: load_size_def load_def)

lemma load_size_bound:
  assumes "load_size m a = Some v"
  shows "v < 2 ^ 64"
proof -
  from assms have v: "v = dec_le (take 8 (drop a m))" and "length (take 8 (drop a m)) = 8"
    by (auto simp: load_size_def load_def split: if_splits)
  then show ?thesis using dec_le_bound [of "take 8 (drop a m)"] by simp
qed

lemma load_ints_length: "load_ints m a n = Some xs \<Longrightarrow> length xs = n"
  by (induction n arbitrary: a xs) (auto split: Option.bind_splits)

lemma load_ints_cong:
  "(\<And>b. a \<le> b \<Longrightarrow> b + 4 \<le> a + 4 * n \<Longrightarrow> load_int m' b = load_int m b) \<Longrightarrow> load_ints m' a n = load_ints m a n"
  by (induction n arbitrary: a) auto

lemma load_ints_snoc:
  "load_ints m a (Suc n) = do { xs \<leftarrow> load_ints m a n; x \<leftarrow> load_int m (a + 4 * n); Some (xs @ [x]) }"
proof (induction n arbitrary: a)
  case 0
  show ?case by (cases "load_int m a") auto
next
  case (Suc n)
  have e: "load_ints m (a + 4) (Suc n)
      = do { xs \<leftarrow> load_ints m (a + 4) n; x \<leftarrow> load_int m (a + 4 + 4 * n); Some (xs @ [x]) }"
    by (rule Suc.IH)
  show ?case
    unfolding load_ints.simps(2) [of m a "Suc n"] e load_ints.simps(2) [of m a n]
    by (cases "load_int m a"; cases "load_ints m (a + 4) n") (simp_all add: algebra_simps)
qed

end
