(* ===== verification/ShmList.thy ===== *)
theory ShmList
  imports Mem
begin

text \<open>
  The list of blocks in shared memory of \<^verbatim>\<open>module3/task04\<close> (System V) and \<^verbatim>\<open>module3/task05\<close>
  (POSIX): \<^verbatim>\<open>common.h\<close>, \<^verbatim>\<open>producer_logic.c\<close> and \<^verbatim>\<open>consumer_logic.c\<close> of each. The two programs
  differ in the header of the segment, which \<open>layout\<close> describes, and in the system calls that
  make and remove the segment and the semaphore. The code between taking and releasing the
  semaphore is a function on the bytes of the segment; a result \<open>None\<close> is an access outside the
  segment or a walk of the list that never ends. \<open>size_t\<close> arithmetic wraps at 64 bits. What
  \<open>rand\<close> returns is an input.
\<close>

section \<open>Layout\<close>

definition SHM_SIZE :: nat where "SHM_SIZE = 4096"

text \<open>Offsets of the header's fields, its size, and where the code finds the size of the segment.\<close>

record layout =
  o_first :: nat
  o_free :: nat
  o_done :: nat
  header_size :: nat
  seg_limit :: "mem \<Rightarrow> nat option"

definition layout4 :: layout where
  "layout4 = \<lparr>o_first = 0, o_free = 8, o_done = 16, header_size = 24, seg_limit = (\<lambda>m. Some SHM_SIZE)\<rparr>"

definition layout5 :: layout where
  "layout5 = \<lparr>o_first = 8, o_free = 16, o_done = 24, header_size = 32, seg_limit = (\<lambda>m. load_size m 0)\<rparr>"

definition block_header :: nat where "block_header = 16"

definition size_add :: "nat \<Rightarrow> nat \<Rightarrow> nat" where
  "size_add a b = (a + b) mod 2 ^ 64"

section \<open>Header\<close>

definition init_header4 :: "mem \<Rightarrow> mem option" where
  "init_header4 m = do {
     m \<leftarrow> store_size m (o_first layout4) 0;
     m \<leftarrow> store_size m (o_free layout4) (header_size layout4);
     store_int m (o_done layout4) 0 }"

definition init_header5 :: "mem \<Rightarrow> mem option" where
  "init_header5 m = do {
     m \<leftarrow> store_size m 0 SHM_SIZE;
     m \<leftarrow> store_size m (o_first layout5) 0;
     m \<leftarrow> store_size m (o_free layout5) (header_size layout5);
     store_int m (o_done layout5) 0 }"

section \<open>Producer\<close>

text \<open>The loop that fills the data of a new block with \<open>rand () % 100\<close>.\<close>

fun fill_data :: "mem \<Rightarrow> nat \<Rightarrow> nat \<Rightarrow> nat \<Rightarrow> (nat \<Rightarrow> nat) \<Rightarrow> mem option" where
  "fill_data m base i 0 rs = Some m"
| "fill_data m base i (Suc k) rs = do {
     m \<leftarrow> store_int m (base + 4 * i) (int (rs i mod 100));
     fill_data m base (Suc i) k rs }"

datatype gen_result = Generated | Exhausted

text \<open>
  One iteration of \<open>run_generation_loop\<close> between the two semaphore operations: \<open>r\<close> is the random
  number that decides the length, \<open>rs i\<close> the one for element \<open>i\<close>; \<open>last_off\<close> is the local
  \<open>last_block_offset\<close>.
\<close>

definition gen_iter ::
  "layout \<Rightarrow> nat \<Rightarrow> (nat \<Rightarrow> nat) \<Rightarrow> mem \<Rightarrow> nat \<Rightarrow> (gen_result \<times> mem \<times> nat) option" where
  "gen_iter L r rs m last_off = do {
     let n = 5 + r mod 11;
     let block_size = block_header + n * 4;
     free \<leftarrow> load_size m (o_free L);
     limit \<leftarrow> seg_limit L m;
     if limit < size_add free block_size then do {
       m \<leftarrow> store_int m (o_done L) 1;
       Some (Exhausted, m, last_off)
     } else do {
       let new_block = free;
       m \<leftarrow> store_size m new_block n;
       m \<leftarrow> store_size m (new_block + 8) 0;
       m \<leftarrow> fill_data m (new_block + 16) 0 n rs;
       first \<leftarrow> load_size m (o_first L);
       m \<leftarrow> (if first = 0 then store_size m (o_first L) new_block
            else store_size m (last_off + 8) new_block);
       free \<leftarrow> load_size m (o_free L);
       m \<leftarrow> store_size m (o_free L) (size_add free block_size);
       Some (Generated, m, new_block)
     } }"

text \<open>The walk of \<open>wait_for_processing\<close>: whether every block has been processed.\<close>

partial_function (option) all_processed :: "mem \<Rightarrow> nat \<Rightarrow> bool option" where
  "all_processed m current =
     (if current = 0 then Some True
      else do {
        n \<leftarrow> load_size m current;
        if 0 < n then Some False
        else do { next_block \<leftarrow> load_size m (current + 8); all_processed m next_block } })"

definition wait_check :: "layout \<Rightarrow> mem \<Rightarrow> bool option" where
  "wait_check L m = do { first \<leftarrow> load_size m (o_first L); all_processed m first }"

section \<open>Consumer\<close>

text \<open>The search for the first unprocessed block: its offset, or none.\<close>

partial_function (option) find_unprocessed :: "mem \<Rightarrow> nat \<Rightarrow> nat option option" where
  "find_unprocessed m current =
     (if current = 0 then Some None
      else do {
        n \<leftarrow> load_size m current;
        if 0 < n then Some (Some current)
        else do { next_block \<leftarrow> load_size m (current + 8); find_unprocessed m next_block } })"

text \<open>The loop over the data of a block that keeps the least and the greatest value.\<close>

fun min_max :: "mem \<Rightarrow> nat \<Rightarrow> nat \<Rightarrow> nat \<Rightarrow> int \<Rightarrow> int \<Rightarrow> (int \<times> int) option" where
  "min_max m base i 0 mn mx = Some (mn, mx)"
| "min_max m base i (Suc k) mn mx = do {
     val \<leftarrow> load_int m (base + 4 * i);
     min_max m base (Suc i) k (if val < mn then val else mn) (if mx < val then val else mx) }"

text \<open>
  One iteration of \<open>run_consumer_loop\<close>: what it prints (the offset, the number of elements, the
  least and the greatest) or that it waits or leaves the loop.
\<close>

datatype cons_result = Processed nat nat int int | WaitMore | LeaveLoop

definition cons_iter :: "layout \<Rightarrow> mem \<Rightarrow> (cons_result \<times> mem) option" where
  "cons_iter L m = do {
     first \<leftarrow> load_size m (o_first L);
     found \<leftarrow> find_unprocessed m first;
     case found of
       Some block \<Rightarrow> do {
         n \<leftarrow> load_size m block;
         x0 \<leftarrow> load_int m (block + 16);
         (mn, mx) \<leftarrow> min_max m (block + 16) 0 n x0 x0;
         m \<leftarrow> store_size m block 0;
         Some (Processed block n mn mx, m) }
     | None \<Rightarrow> do {
         d \<leftarrow> load_int m (o_done L);
         Some (if d \<noteq> 0 then LeaveLoop else WaitMore, m) } }"

end
