(* ===== verification/ShmProofs.thy ===== *)
theory ShmProofs
  imports ShmList
begin

text \<open>
  The shared-memory list implements a queue of blocks. \<open>blocks_at\<close> reads the bytes of a segment
  as a list of blocks with their data and whether they are processed; \<open>shm_inv\<close> ties a segment to
  such a list. A step of the producer appends a block, a step of the consumer marks the first
  unprocessed one and reports its extremes; neither leaves the segment nor fails.
\<close>

section \<open>The abstract queue\<close>

type_synonym block = "int list \<times> bool"

definition bsize :: "block \<Rightarrow> nat" where
  "bsize b = 16 + 4 * length (fst b)"

fun end_of :: "nat \<Rightarrow> block list \<Rightarrow> nat" where
  "end_of a [] = a"
| "end_of a (b # bs) = end_of (a + bsize b) bs"

text \<open>
  The segment holds the blocks \<open>bs\<close> one after the other from offset \<open>a\<close>, each linked to the next and
  the last one to \<open>z\<close>.
\<close>

fun blocks_at :: "mem \<Rightarrow> nat \<Rightarrow> block list \<Rightarrow> nat \<Rightarrow> bool" where
  "blocks_at m a [] z \<longleftrightarrow> True"
| "blocks_at m a ((xs, d) # bs) z \<longleftrightarrow>
     xs \<noteq> [] \<and> load_size m a = Some (if d then 0 else length xs)
     \<and> load_size m (a + 8) = Some (if bs = [] then z else a + bsize (xs, d))
     \<and> load_ints m (a + 16) (length xs) = Some xs
     \<and> blocks_at m (a + bsize (xs, d)) bs z"

text \<open>The offset of the last block.\<close>

definition last_at :: "nat \<Rightarrow> block list \<Rightarrow> nat" where
  "last_at a bs = end_of a (butlast bs)"

definition shm_inv :: "layout \<Rightarrow> mem \<Rightarrow> nat \<Rightarrow> block list \<Rightarrow> bool \<Rightarrow> bool" where
  "shm_inv L m last_off bs d \<longleftrightarrow>
     length m = SHM_SIZE \<and> seg_limit L m = Some SHM_SIZE
     \<and> load_size m (o_first L) = Some (if bs = [] then 0 else header_size L)
     \<and> load_size m (o_free L) = Some (end_of (header_size L) bs)
     \<and> load_int m (o_done L) = Some (if d then 1 else 0)
     \<and> end_of (header_size L) bs \<le> SHM_SIZE
     \<and> (bs \<noteq> [] \<longrightarrow> last_off = last_at (header_size L) bs)
     \<and> blocks_at m (header_size L) bs 0"

text \<open>What the consumers look for, and what processing does to the queue.\<close>

fun next_open :: "block list \<Rightarrow> int list option" where
  "next_open [] = None"
| "next_open ((xs, d) # bs) = (if d then next_open bs else Some xs)"

fun first_open :: "nat \<Rightarrow> block list \<Rightarrow> nat option" where
  "first_open a [] = None"
| "first_open a ((xs, d) # bs) = (if d then first_open (a + bsize (xs, d)) bs else Some a)"

fun mark_first :: "block list \<Rightarrow> block list" where
  "mark_first [] = []"
| "mark_first ((xs, d) # bs) = (if d then (xs, d) # mark_first bs else (xs, True) # bs)"

section \<open>Reading through the stores\<close>

definition same_on :: "mem \<Rightarrow> mem \<Rightarrow> nat \<Rightarrow> nat \<Rightarrow> bool" where
  "same_on m m' lo hi \<longleftrightarrow>
     (\<forall>b. lo \<le> b \<and> b + 8 \<le> hi \<longrightarrow> load_size m' b = load_size m b)
     \<and> (\<forall>b. lo \<le> b \<and> b + 4 \<le> hi \<longrightarrow> load_int m' b = load_int m b)"

lemma same_on_refl [simp]: "same_on m m lo hi"
  by (simp add: same_on_def)

lemma same_on_trans: "same_on m m' lo hi \<Longrightarrow> same_on m' m'' lo hi \<Longrightarrow> same_on m m'' lo hi"
  by (simp add: same_on_def)

lemma same_on_store_size: "store_size m a v = Some m' \<Longrightarrow> hi \<le> a \<or> a + 8 \<le> lo \<Longrightarrow> same_on m m' lo hi"
  unfolding same_on_def
  by (auto intro!: load_size_store_size_disjoint load_int_store_size_disjoint simp: disjoint_def)

lemma same_on_store_int: "store_int m a v = Some m' \<Longrightarrow> hi \<le> a \<or> a + 4 \<le> lo \<Longrightarrow> same_on m m' lo hi"
  unfolding same_on_def
  by (auto intro!: load_size_store_int_disjoint load_int_store_int_disjoint simp: disjoint_def)

lemma same_on_load_size: "same_on m m' lo hi \<Longrightarrow> lo \<le> b \<Longrightarrow> b + 8 \<le> hi \<Longrightarrow> load_size m' b = load_size m b"
  by (simp add: same_on_def)

lemma same_on_load_int: "same_on m m' lo hi \<Longrightarrow> lo \<le> b \<Longrightarrow> b + 4 \<le> hi \<Longrightarrow> load_int m' b = load_int m b"
  by (simp add: same_on_def)

lemma same_on_load_ints:
  "same_on m m' lo hi \<Longrightarrow> lo \<le> b \<Longrightarrow> b + 4 * n \<le> hi \<Longrightarrow> load_ints m' b n = load_ints m b n"
  by (rule load_ints_cong) (auto intro: same_on_load_int)

section \<open>Lists of blocks\<close>

lemma end_of_append [simp]: "end_of a (bs @ cs) = end_of (end_of a bs) cs"
  by (induction bs arbitrary: a) auto

lemma end_of_ge: "a \<le> end_of a bs"
proof (induction bs arbitrary: a)
  case (Cons b bs)
  have "a \<le> a + bsize b" by simp
  also have "\<dots> \<le> end_of (a + bsize b) bs" by (rule Cons)
  finally show ?case by simp
qed simp

lemma bsize_pair [simp]: "bsize (xs, d) = 16 + 4 * length xs"
  by (simp add: bsize_def)

lemma end_of_mark_first [simp]: "end_of a (mark_first bs) = end_of a bs"
  by (induction bs arbitrary: a rule: mark_first.induct) auto

lemma mark_first_Nil [simp]: "mark_first bs = [] \<longleftrightarrow> bs = []"
  by (cases bs rule: mark_first.cases) auto

lemma last_at_mark_first [simp]: "last_at a (mark_first bs) = last_at a bs"
  unfolding last_at_def by (induction bs arbitrary: a rule: mark_first.induct) auto

lemma last_at_snoc [simp]: "last_at a (bs @ [b]) = end_of a bs"
  by (simp add: last_at_def)

lemma blocks_at_append:
  "blocks_at m a (bs @ cs) z \<longleftrightarrow>
   blocks_at m a bs (if cs = [] then z else end_of a bs) \<and> blocks_at m (end_of a bs) cs z"
proof (induction bs arbitrary: a)
  case Nil
  then show ?case by simp
next
  case (Cons b bs)
  obtain xs d where b: "b = (xs, d)" by (cases b)
  show ?case
    by (simp only: b append_Cons blocks_at.simps Cons.IH end_of.simps)
      (cases "bs = []"; cases "cs = []"; simp)
qed

lemma blocks_at_same:
  assumes "same_on m m' lo hi" "lo \<le> a" "end_of a bs \<le> hi"
  shows "blocks_at m' a bs z = blocks_at m a bs z"
  using assms(2,3)
proof (induction bs arbitrary: a)
  case Nil
  then show ?case by simp
next
  case (Cons b bs)
  obtain xs d where b: "b = (xs, d)" by (cases b)
  have le: "a + 16 + 4 * length xs \<le> hi"
    using Cons.prems end_of_ge [of "a + bsize b" bs] by (simp add: b)
  then have "load_size m' a = load_size m a" "load_size m' (a + 8) = load_size m (a + 8)"
    "load_ints m' (a + 16) (length xs) = load_ints m (a + 16) (length xs)"
    using Cons.prems(1)
    by (auto intro: same_on_load_size [OF assms(1)] same_on_load_ints [OF assms(1)])
  moreover have "blocks_at m' (a + bsize b) bs z = blocks_at m (a + bsize b) bs z"
    using Cons.prems by (intro Cons.IH) auto
  ultimately show ?case by (simp add: b)
qed

lemma first_open_range: "first_open a bs = Some b \<Longrightarrow> a \<le> b \<and> b + 16 \<le> end_of a bs"
proof (induction bs arbitrary: a)
  case (Cons c bs)
  obtain xs d where c: "c = (xs, d)" by (cases c)
  show ?case
  proof (cases d)
    case True
    with Cons.prems Cons.IH [of "a + bsize c"] show ?thesis by (simp add: c)
  next
    case False
    with Cons.prems end_of_ge [of "a + bsize c" bs] show ?thesis by (simp add: c)
  qed
qed simp

lemma first_open_None: "first_open a bs = None \<longleftrightarrow> next_open bs = None"
  by (induction bs arbitrary: a rule: next_open.induct) auto

lemma first_open_block:
  "blocks_at m a bs z \<Longrightarrow> first_open a bs = Some b \<Longrightarrow>
   \<exists>xs. next_open bs = Some xs \<and> xs \<noteq> [] \<and> load_size m b = Some (length xs)
      \<and> load_ints m (b + 16) (length xs) = Some xs"
  by (induction bs arbitrary: a rule: next_open.induct) (auto split: if_splits)

text \<open>Storing 0 as the number of elements of the first open block marks it.\<close>

lemma blocks_at_mark:
  assumes "blocks_at m a bs z" "first_open a bs = Some b" "store_size m b 0 = Some m'"
  shows "blocks_at m' a (mark_first bs) z"
  using assms(1,2)
proof (induction bs arbitrary: a)
  case Nil
  then show ?case by simp
next
  case (Cons c bs)
  obtain xs d where c: "c = (xs, d)" by (cases c)
  let ?e = "a + 16 + 4 * length xs"
  show ?case
  proof (cases d)
    case True
    with Cons.prems have rest: "first_open ?e bs = Some b" by (simp add: c add.assoc)
    have s: "same_on m m' a ?e"
      using first_open_range [OF rest] by (intro same_on_store_size [OF assms(3)]) simp
    then have "load_size m' a = load_size m a" "load_size m' (a + 8) = load_size m (a + 8)"
      "load_ints m' (a + 16) (length xs) = load_ints m (a + 16) (length xs)"
      by (auto intro: same_on_load_size [OF s] same_on_load_ints [OF s])
    moreover have "blocks_at m' ?e (mark_first bs) z"
      using Cons.prems True rest by (intro Cons.IH) (auto simp: c add.assoc)
    ultimately show ?thesis using Cons.prems True by (simp add: c add.assoc)
  next
    case False
    with Cons.prems have b: "b = a" by (simp add: c)
    have s: "same_on m m' (a + 8) hi" for hi
      using b by (intro same_on_store_size [OF assms(3)]) simp
    have "load_size m' (a + 8) = load_size m (a + 8)"
      "load_ints m' (a + 16) (length xs) = load_ints m (a + 16) (length xs)"
      using same_on_load_size [OF s [of "a + 16"], of "a + 8"]
        same_on_load_ints [OF s [of ?e], of "a + 16" "length xs"] by simp_all
    moreover have "blocks_at m' ?e bs z = blocks_at m ?e bs z"
      by (rule blocks_at_same [OF s [of "end_of ?e bs"]]) simp_all
    moreover have "load_size m' a = Some 0"
      using assms(3) b by (simp add: load_size_store_size)
    ultimately show ?thesis using Cons.prems False by (simp add: c add.assoc)
  qed
qed

section \<open>The loops\<close>

lemma fill_data_ok:
  "base + 4 * (i + k) \<le> length m \<Longrightarrow>
   \<exists>m'. fill_data m base i k rs = Some m' \<and> length m' = length m
     \<and> load_ints m' (base + 4 * i) k = Some (map (\<lambda>j. int (rs j mod 100)) [i..<i + k])
     \<and> (\<forall>lo hi. hi \<le> base + 4 * i \<or> base + 4 * (i + k) \<le> lo \<longrightarrow> same_on m m' lo hi)"
proof (induction k arbitrary: m i)
  case 0
  then show ?case by simp
next
  case (Suc k)
  obtain m1 where m1: "store_int m (base + 4 * i) (int (rs i mod 100)) = Some m1"
    using Suc.prems store_int_Some [of "base + 4 * i" m] by auto
  then have len: "length m1 = length m" by (rule store_int_length)
  then obtain m' where m': "fill_data m1 base (Suc i) k rs = Some m'" "length m' = length m1"
    "load_ints m' (base + 4 * Suc i) k = Some (map (\<lambda>j. int (rs j mod 100)) [Suc i..<Suc i + k])"
    and same: "\<forall>lo hi. hi \<le> base + 4 * Suc i \<or> base + 4 * (Suc i + k) \<le> lo \<longrightarrow> same_on m1 m' lo hi"
    using Suc.IH [of "Suc i" m1] Suc.prems by auto
  have "same_on m1 m' (base + 4 * i) (base + 4 * i + 4)" using same by simp
  then have "load_int m' (base + 4 * i) = load_int m1 (base + 4 * i)"
    by (rule same_on_load_int) simp_all
  then have "load_int m' (base + 4 * i) = Some (int (rs i mod 100))"
    using m1 by (simp add: load_int_store_int)
  moreover have "base + 4 * i + 4 = base + 4 * Suc i" and "[i..<i + Suc k] = i # [Suc i..<Suc i + k]"
    by (simp_all add: upt_conv_Cons)
  ultimately have "load_ints m' (base + 4 * i) (Suc k) = Some (map (\<lambda>j. int (rs j mod 100)) [i..<i + Suc k])"
    using m'(3) by (simp only: load_ints.simps bind.bind_lunit list.map)
  moreover have "same_on m m' lo hi" if "hi \<le> base + 4 * i \<or> base + 4 * (i + Suc k) \<le> lo" for lo hi
    using that same same_on_store_int [OF m1, of hi lo] same_on_trans by auto
  ultimately show ?case using m1 m' len by auto
qed

lemma Min_insert_min: "finite S \<Longrightarrow> Min (insert (min v w) S) = Min (insert w (insert v S))"
  by (cases "S = {}") (simp_all add: min.commute min.left_commute min.assoc)

lemma Max_insert_max: "finite S \<Longrightarrow> Max (insert (max v w) S) = Max (insert w (insert v S))"
  by (cases "S = {}") (simp_all add: max.commute max.left_commute max.assoc)

lemma min_max_ok:
  "load_ints m (base + 4 * i) k = Some xs \<Longrightarrow>
   min_max m base i k mn mx = Some (Min (insert mn (set xs)), Max (insert mx (set xs)))"
proof (induction k arbitrary: i xs mn mx)
  case 0
  then show ?case by simp
next
  case (Suc k)
  from Suc.prems obtain v ys where v: "load_int m (base + 4 * i) = Some v" and xs: "xs = v # ys"
    and ys: "load_ints m (base + 4 * i + 4) k = Some ys"
    by (auto split: Option.bind_splits)
  then have ys': "load_ints m (base + 4 * Suc i) k = Some ys" by (simp add: algebra_simps)
  have "(if v < mn then v else mn) = min v mn" "(if mx < v then v else mx) = max v mx"
    by (auto simp: min_def max_def)
  then show ?case
    using v Suc.IH [OF ys'] by (simp add: xs Min_insert_min Max_insert_max del: Min_insert Max_insert)
qed

lemma find_unprocessed_ok:
  "blocks_at m a bs 0 \<Longrightarrow> 0 < a \<Longrightarrow>
   find_unprocessed m (if bs = [] then 0 else a) = Some (first_open a bs)"
proof (induction bs arbitrary: a)
  case Nil
  then show ?case by (simp add: find_unprocessed.simps)
next
  case (Cons b bs)
  obtain xs d where b: "b = (xs, d)" by (cases b)
  with Cons show ?case
    by (subst find_unprocessed.simps) (auto simp: b)
qed

lemma all_processed_ok:
  "blocks_at m a bs 0 \<Longrightarrow> 0 < a \<Longrightarrow>
   all_processed m (if bs = [] then 0 else a) = Some (next_open bs = None)"
proof (induction bs arbitrary: a)
  case Nil
  then show ?case by (simp add: all_processed.simps)
next
  case (Cons b bs)
  obtain xs d where b: "b = (xs, d)" by (cases b)
  with Cons show ?case
    by (subst all_processed.simps) (auto simp: b)
qed

lemma last_at_range: "bs \<noteq> [] \<Longrightarrow> a \<le> last_at a bs \<and> last_at a bs + 16 \<le> end_of a bs"
  using end_of_ge [of a "butlast bs"]
  by (cases bs rule: rev_cases) (auto simp: last_at_def bsize_def)

text \<open>Linking the last block to a new one.\<close>

lemma blocks_at_link:
  assumes "blocks_at m a bs z" "store_size m (last_at a bs + 8) v = Some m'" "v < 2 ^ 64"
  shows "blocks_at m' a bs v"
proof (cases bs rule: rev_cases)
  case Nil
  then show ?thesis by simp
next
  case (snoc cs b)
  obtain xs d where b: "b = (xs, d)" by (cases b)
  let ?e = "end_of a cs"
  have st: "store_size m (?e + 8) v = Some m'" using assms(2) by (simp add: snoc)
  have s: "same_on m m' lo hi" if "hi \<le> ?e + 8 \<or> ?e + 16 \<le> lo" for lo hi
    using that by (intro same_on_store_size [OF st]) (auto simp: add.commute)
  have "blocks_at m' a cs ?e = blocks_at m a cs ?e"
    by (rule blocks_at_same [OF s [of ?e a]]) simp_all
  moreover have "load_size m' ?e = load_size m ?e"
    by (rule same_on_load_size [OF s [of "?e + 8" ?e]]) simp_all
  moreover have "load_ints m' (?e + 16) (length xs) = load_ints m (?e + 16) (length xs)"
    by (rule same_on_load_ints [OF s [of "?e + 16 + 4 * length xs" "?e + 16"]]) simp_all
  moreover have "load_size m' (?e + 8) = Some v"
    using st assms(3) by (rule load_size_store_size)
  ultimately show ?thesis using assms(1) by (simp add: snoc b blocks_at_append)
qed

text \<open>Writing a new block past the end of the list.\<close>

lemma write_block_ok:
  assumes "e + 16 + 4 * n \<le> length m" "n < 2 ^ 64"
  shows "\<exists>m1 m2 m3. store_size m e n = Some m1 \<and> store_size m1 (e + 8) 0 = Some m2
     \<and> fill_data m2 (e + 16) 0 n rs = Some m3 \<and> length m3 = length m
     \<and> (\<forall>hi \<le> e. \<forall>lo. same_on m m3 lo hi)
     \<and> load_size m3 e = Some n \<and> load_size m3 (e + 8) = Some 0
     \<and> load_ints m3 (e + 16) n = Some (map (\<lambda>j. int (rs j mod 100)) [0..<n])"
proof -
  obtain m1 where m1: "store_size m e n = Some m1"
    using store_size_Some [of e m] assms(1) by auto
  then have l1: "length m1 = length m" by (rule store_size_length)
  obtain m2 where m2: "store_size m1 (e + 8) 0 = Some m2"
    using store_size_Some [of "e + 8" m1] assms(1) l1 by auto
  then have l2: "length m2 = length m" using l1 by (simp add: store_size_length)
  obtain m3 where m3: "fill_data m2 (e + 16) 0 n rs = Some m3" "length m3 = length m2"
    "load_ints m3 (e + 16) n = Some (map (\<lambda>j. int (rs j mod 100)) [0..<n])"
    and s: "\<And>lo hi. hi \<le> e + 16 \<Longrightarrow> same_on m2 m3 lo hi"
    using fill_data_ok [of "e + 16" 0 n m2 rs] assms(1) l2 by auto
  have "same_on m m3 lo hi" if "hi \<le> e" for lo hi
    using that same_on_store_size [OF m1, of hi lo] same_on_store_size [OF m2, of hi lo] s [of hi lo]
      same_on_trans by (metis le_add1 le_trans)
  moreover have "load_size m3 e = load_size m2 e" "load_size m3 (e + 8) = load_size m2 (e + 8)"
    using same_on_load_size [OF s [of "e + 16" e]] by simp_all
  moreover have "load_size m2 e = load_size m1 e"
    using m2 by (rule load_size_store_size_disjoint) (simp add: disjoint_def)
  ultimately show ?thesis
    using m1 m2 m3 l2 assms(2) by (auto simp: load_size_store_size)
qed

section \<open>The steps on a segment\<close>

text \<open>What the proofs need of a layout, and the steps of the two programs on any such layout.\<close>

locale shm_layout =
  fixes L :: layout
  assumes first_before_free: "o_first L + 8 \<le> o_free L"
    and free_before_done: "o_free L + 8 \<le> o_done L"
    and done_in_header: "o_done L + 4 \<le> header_size L"
    and header_fits: "header_size L \<le> 64"
    and limit_frame: "same_on m m' 0 (o_first L) \<Longrightarrow> seg_limit L m' = seg_limit L m"
begin

lemmas offsets = first_before_free free_before_done done_in_header header_fits

lemma gen_iter_exhausted:
  assumes inv: "shm_inv L m lo bs d"
    and full: "SHM_SIZE < end_of (header_size L) bs + 16 + 4 * (5 + r mod 11)"
  shows "\<exists>m'. gen_iter L r rs m lo = Some (Exhausted, m', lo) \<and> shm_inv L m' lo bs True"
proof -
  let ?H = "header_size L" and ?e = "end_of (header_size L) bs"
  have len: "length m = SHM_SIZE" and lim: "seg_limit L m = Some SHM_SIZE"
    and free: "load_size m (o_free L) = Some ?e" and e: "?e \<le> SHM_SIZE"
    using inv by (simp_all add: shm_inv_def)
  have add: "size_add ?e (block_header + (5 + r mod 11) * 4) = ?e + 16 + 4 * (5 + r mod 11)"
  proof -
    have "?e + 16 + 4 * (5 + r mod 11) < 2 ^ 64"
      using e by (simp add: SHM_SIZE_def)
    then show ?thesis by (simp add: size_add_def block_header_def)
  qed
  obtain m' where m': "store_int m (o_done L) 1 = Some m'"
    using store_int_Some [of "o_done L" m] offsets len by (auto simp: SHM_SIZE_def)
  have s1: "same_on m m' 0 (o_done L)" and s2: "same_on m m' ?H hi" for hi
    using offsets by (auto intro!: same_on_store_int [OF m'])
  have "seg_limit L m' = seg_limit L m"
    using offsets by (intro limit_frame same_on_store_int [OF m']) simp
  moreover have "blocks_at m' ?H bs 0 = blocks_at m ?H bs 0"
    by (rule blocks_at_same [OF s2 [of ?e]]) simp_all
  ultimately have "shm_inv L m' lo bs True"
    using inv offsets store_int_length [OF m'] load_int_store_int [OF m']
      same_on_load_size [OF s1, of "o_first L"] same_on_load_size [OF s1, of "o_free L"]
    by (simp add: shm_inv_def)
  moreover have "gen_iter L r rs m lo = Some (Exhausted, m', lo)"
    using full add by (simp add: gen_iter_def Let_def free lim m')
  ultimately show ?thesis by blast
qed

lemma gen_iter_generated:
  fixes r :: nat and rs :: "nat \<Rightarrow> nat"
  defines "n \<equiv> 5 + r mod 11"
  defines "xs \<equiv> map (\<lambda>j. int (rs j mod 100)) [0..<n]"
  assumes inv: "shm_inv L m lo bs d"
    and fits: "end_of (header_size L) bs + 16 + 4 * n \<le> SHM_SIZE"
  shows "\<exists>m'. gen_iter L r rs m lo = Some (Generated, m', end_of (header_size L) bs)
     \<and> shm_inv L m' (end_of (header_size L) bs) (bs @ [(xs, False)]) d"
proof -
  let ?H = "header_size L" and ?e = "end_of (header_size L) bs"
  have len: "length m = SHM_SIZE" and lim: "seg_limit L m = Some SHM_SIZE"
    and free: "load_size m (o_free L) = Some ?e" and e: "?e \<le> SHM_SIZE"
    and first: "load_size m (o_first L) = Some (if bs = [] then 0 else ?H)"
    and lo: "bs \<noteq> [] \<Longrightarrow> lo = last_at ?H bs" and blocks: "blocks_at m ?H bs 0"
    and dn: "load_int m (o_done L) = Some (if d then 1 else 0)"
    using inv by (simp_all add: shm_inv_def)
  have He: "?H \<le> ?e" by (rule end_of_ge)
  have n: "n < 16" and n64: "n < 2 ^ 64" by (simp_all add: n_def)
  have e64: "?e + 16 + 4 * n < 2 ^ 64" using fits by (simp add: SHM_SIZE_def)
  then have add: "size_add ?e (block_header + n * 4) = ?e + 16 + 4 * n"
    by (simp add: size_add_def block_header_def)
  obtain m1 m2 m3 where w: "store_size m ?e n = Some m1" "store_size m1 (?e + 8) 0 = Some m2"
    "fill_data m2 (?e + 16) 0 n rs = Some m3" "length m3 = length m"
    and s3: "\<And>lo hi. hi \<le> ?e \<Longrightarrow> same_on m m3 lo hi"
    and new3: "load_size m3 ?e = Some n" "load_size m3 (?e + 8) = Some 0" "load_ints m3 (?e + 16) n = Some xs"
    using write_block_ok [of ?e n m rs] fits len n64 unfolding xs_def by metis
  let ?at = "if bs = [] then o_first L else lo + 8"
  have at: "?at + 8 \<le> ?e"
    using lo last_at_range [of bs ?H] offsets He by auto
  obtain m4 where m4: "store_size m3 ?at ?e = Some m4"
    using store_size_Some [of ?at m3] at w(4) len e by auto
  then have l4: "length m4 = length m" using w(4) by (simp add: store_size_length)
  obtain m5 where m5: "store_size m4 (o_free L) (?e + 16 + 4 * n) = Some m5"
    using store_size_Some [of "o_free L" m4] l4 len offsets by (auto simp: SHM_SIZE_def)
  then have l5: "length m5 = SHM_SIZE" using l4 len by (simp add: store_size_length)
  have s5: "same_on m4 m5 lo' hi" if "hi \<le> o_free L \<or> o_free L + 8 \<le> lo'" for lo' hi
    using that by (rule same_on_store_size [OF m5])
  have s4: "same_on m3 m4 lo' hi" if "hi \<le> ?at \<or> ?at + 8 \<le> lo'" for lo' hi
    using that by (rule same_on_store_size [OF m4])
  have ge: "o_free L + 8 \<le> ?e" using offsets He by simp
  have at_free: "?at + 8 \<le> o_free L \<or> o_free L + 8 \<le> ?at" and at_first: "bs \<noteq> [] \<Longrightarrow> ?H \<le> ?at"
    using lo last_at_range [of bs ?H] offsets by auto
  have new: "same_on m3 m5 ?e hi" for hi
    using same_on_trans [OF s4 s5] at ge by auto
  have free4: "load_size m4 (o_free L) = Some ?e"
    using same_on_load_size [OF s4 [of "o_free L + 8" "o_free L"]] same_on_load_size [OF s3 [of ?e 0], of "o_free L"]
      at_free ge free by auto
  have iter: "gen_iter L r rs m lo = Some (Generated, m5, ?e)"
    using fits add w(1-3) m4 m5 first same_on_load_size [OF s3 [of ?e 0], of "o_first L"] ge offsets free4
    by (simp add: gen_iter_def Let_def free lim n_def [symmetric] split: if_splits)
  have "seg_limit L m5 = seg_limit L m"
  proof (rule limit_frame)
    have "o_first L \<le> ?at" using at_first offsets by auto
    then show "same_on m m5 0 (o_first L)"
      using same_on_trans [OF s3 same_on_trans [OF s4 s5]] offsets He by auto
  qed
  moreover have "load_size m5 (o_first L) = Some ?H"
  proof -
    have "load_size m5 (o_first L) = load_size m4 (o_first L)"
      using same_on_load_size [OF s5 [of "o_free L" 0]] offsets by simp
    also have "\<dots> = Some ?H"
    proof (cases "bs = []")
      case True
      with m4 e show ?thesis by (simp add: load_size_store_size SHM_SIZE_def)
    next
      case False
      then show ?thesis
        using same_on_load_size [OF s4 [of ?H 0], of "o_first L"] same_on_load_size [OF s3 [of ?e 0], of "o_first L"]
          at_first first offsets He by simp
    qed
    finally show ?thesis .
  qed
  moreover have "load_int m5 (o_done L) = load_int m (o_done L)"
  proof -
    have "?at + 8 \<le> o_done L \<or> ?H \<le> ?at" using at_first offsets by auto
    then show ?thesis
      using same_on_load_int [OF s5 [of ?H "o_done L"], of "o_done L"]
        same_on_load_int [OF s4 [of "o_done L + 4" "o_done L"], of "o_done L"]
        same_on_load_int [OF s3 [of ?e 0], of "o_done L"] offsets He by auto
  qed
  moreover have "blocks_at m5 ?H bs ?e"
  proof (cases "bs = []")
    case False
    have "blocks_at m3 ?H bs 0 = blocks_at m ?H bs 0"
      by (rule blocks_at_same [OF s3 [of ?e ?H]]) simp_all
    then have "blocks_at m4 ?H bs ?e"
      using blocks_at_link [of m3 ?H bs 0 ?e m4] blocks m4 False lo e by (simp add: SHM_SIZE_def)
    moreover have "blocks_at m5 ?H bs ?e = blocks_at m4 ?H bs ?e"
      using offsets by (intro blocks_at_same [OF s5 [of ?e ?H]]) simp_all
    ultimately show ?thesis by simp
  qed simp
  moreover have "blocks_at m5 ?e [(xs, False)] 0"
  proof -
    have "length xs = n" "xs \<noteq> []" by (simp_all add: xs_def n_def)
    then show ?thesis
      using new3 same_on_load_size [OF new [of "?e + 16"], of ?e] same_on_load_size [OF new [of "?e + 16"], of "?e + 8"]
        same_on_load_ints [OF new [of "?e + 16 + 4 * n"], of "?e + 16" n] by simp
  qed
  moreover have "load_size m5 (o_free L) = Some (?e + 16 + 4 * n)"
    using m5 e64 by (rule load_size_store_size)
  moreover have "length xs = n" by (simp add: xs_def)
  ultimately have "shm_inv L m5 ?e (bs @ [(xs, False)]) d"
    using l5 lim dn fits by (simp add: shm_inv_def blocks_at_append)
  with iter show ?thesis by blast
qed

lemma header_pos: "0 < header_size L"
  using offsets by simp

lemma cons_iter_none:
  assumes inv: "shm_inv L m lo bs d" and none: "next_open bs = None"
  shows "cons_iter L m = Some (if d then LeaveLoop else WaitMore, m)"
proof -
  have "find_unprocessed m (if bs = [] then 0 else header_size L) = Some None"
    using inv none header_pos find_unprocessed_ok [of m "header_size L" bs] first_open_None
    by (simp add: shm_inv_def)
  with inv show ?thesis by (simp add: cons_iter_def shm_inv_def)
qed

lemma cons_iter_some:
  assumes inv: "shm_inv L m lo bs d" and some: "next_open bs = Some xs"
  shows "\<exists>m' b. first_open (header_size L) bs = Some b
     \<and> cons_iter L m = Some (Processed b (length xs) (Min (set xs)) (Max (set xs)), m')
     \<and> shm_inv L m' lo (mark_first bs) d"
proof -
  let ?H = "header_size L" and ?e = "end_of (header_size L) bs"
  have blocks: "blocks_at m ?H bs 0" and len: "length m = SHM_SIZE" and e: "?e \<le> SHM_SIZE"
    using inv by (simp_all add: shm_inv_def)
  obtain b where b: "first_open ?H bs = Some b"
    using some first_open_None [of ?H bs] by (cases "first_open ?H bs") auto
  have r: "?H \<le> b" "b + 16 \<le> ?e" using first_open_range [OF b] by auto
  have blk: "xs \<noteq> []" "load_size m b = Some (length xs)" "load_ints m (b + 16) (length xs) = Some xs"
    using first_open_block [OF blocks b] some by auto
  then obtain x ys where xs: "xs = x # ys" by (cases xs) auto
  then have x0: "load_int m (b + 16) = Some x" using blk(3) by (auto split: Option.bind_splits)
  have mm: "min_max m (b + 16) 0 (length xs) x x = Some (Min (set xs), Max (set xs))"
    using min_max_ok [of m "b + 16" 0 "length xs" xs x x] blk(3) by (simp add: xs)
  obtain m' where m': "store_size m b 0 = Some m'"
    using store_size_Some [of b m] r e len by auto
  have find: "find_unprocessed m (if bs = [] then 0 else ?H) = Some (Some b)"
    using find_unprocessed_ok [OF blocks header_pos] b by simp
  have iter: "cons_iter L m = Some (Processed b (length xs) (Min (set xs)) (Max (set xs)), m')"
    using inv find blk(2) x0 mm m' by (simp add: cons_iter_def shm_inv_def)
  have s: "same_on m m' lo' ?H" for lo' using r by (intro same_on_store_size [OF m']) simp
  have "seg_limit L m' = seg_limit L m"
    using r offsets by (intro limit_frame same_on_store_size [OF m']) simp
  moreover have "load_size m' (o_first L) = load_size m (o_first L)" "load_size m' (o_free L) = load_size m (o_free L)"
    using same_on_load_size [OF s [of 0]] offsets by simp_all
  moreover have "load_int m' (o_done L) = load_int m (o_done L)"
    using same_on_load_int [OF s [of 0]] offsets by simp
  moreover have "blocks_at m' ?H (mark_first bs) 0"
    using blocks b m' by (rule blocks_at_mark)
  ultimately have "shm_inv L m' lo (mark_first bs) d"
    using inv store_size_length [OF m'] by (simp add: shm_inv_def)
  with iter b show ?thesis by blast
qed

lemma wait_check_ok:
  "shm_inv L m lo bs d \<Longrightarrow> wait_check L m = Some (next_open bs = None)"
  using all_processed_ok [of m "header_size L" bs] header_pos
  by (simp add: wait_check_def shm_inv_def)

end

interpretation task4: shm_layout layout4
  by unfold_locales (simp_all add: layout4_def)

interpretation task5: shm_layout layout5
proof unfold_locales
  fix m m'
  assume "same_on m m' 0 (o_first layout5)"
  then show "seg_limit layout5 m' = seg_limit layout5 m"
    using same_on_load_size [of m m' 0 8 0] by (simp add: layout5_def)
qed (simp_all add: layout5_def)

section \<open>The header of a new segment\<close>

lemma init_header4_ok:
  assumes "length m = SHM_SIZE"
  shows "\<exists>m'. init_header4 m = Some m' \<and> shm_inv layout4 m' lo [] False"
proof -
  obtain m1 where m1: "store_size m 0 0 = Some m1"
    using store_size_Some [of 0 m] assms by (auto simp: SHM_SIZE_def)
  obtain m2 where m2: "store_size m1 8 24 = Some m2"
    using store_size_Some [of 8 m1] assms store_size_length [OF m1] by (auto simp: SHM_SIZE_def)
  obtain m3 where m3: "store_int m2 16 0 = Some m3"
    using store_int_Some [of 16 m2] assms store_size_length [OF m1] store_size_length [OF m2]
    by (auto simp: SHM_SIZE_def)
  have "load_size m3 0 = Some 0" "load_size m3 8 = Some 24" "load_int m3 16 = Some 0" "length m3 = SHM_SIZE"
    using assms m1 m2 m3
    by (simp_all add: mem load_size_store_int_disjoint [OF m3] load_size_store_size_disjoint [OF m2] disjoint_def
        load_size_store_size [OF m1] load_size_store_size [OF m2] load_int_store_int [OF m3]
        store_int_length [OF m3] store_size_length [OF m2] store_size_length [OF m1])
  then show ?thesis
    using m1 m2 m3 by (simp add: init_header4_def layout4_def shm_inv_def SHM_SIZE_def)
qed

lemma init_header5_ok:
  assumes "length m = SHM_SIZE"
  shows "\<exists>m'. init_header5 m = Some m' \<and> shm_inv layout5 m' lo [] False"
proof -
  obtain m0 where m0: "store_size m 0 SHM_SIZE = Some m0"
    using store_size_Some [of 0 m] assms by (auto simp: SHM_SIZE_def)
  obtain m1 where m1: "store_size m0 8 0 = Some m1"
    using store_size_Some [of 8 m0] assms store_size_length [OF m0] by (auto simp: SHM_SIZE_def)
  obtain m2 where m2: "store_size m1 16 32 = Some m2"
    using store_size_Some [of 16 m1] assms store_size_length [OF m0] store_size_length [OF m1]
    by (auto simp: SHM_SIZE_def)
  obtain m3 where m3: "store_int m2 24 0 = Some m3"
    using store_int_Some [of 24 m2] assms store_size_length [OF m0] store_size_length [OF m1] store_size_length [OF m2]
    by (auto simp: SHM_SIZE_def)
  have "load_size m3 0 = Some SHM_SIZE" "load_size m3 8 = Some 0" "load_size m3 16 = Some 32"
    "load_int m3 24 = Some 0" "length m3 = SHM_SIZE"
    using assms m0 m1 m2 m3
    by (simp_all add: load_size_store_int_disjoint [OF m3] load_size_store_size_disjoint [OF m2]
        load_size_store_size_disjoint [OF m1] disjoint_def SHM_SIZE_def
        load_size_store_size [OF m0] load_size_store_size [OF m1] load_size_store_size [OF m2]
        load_int_store_int [OF m3] store_int_length [OF m3] store_size_length [OF m2]
        store_size_length [OF m1] store_size_length [OF m0])
  then show ?thesis
    using m0 m1 m2 m3 by (simp add: init_header5_def layout5_def shm_inv_def SHM_SIZE_def)
qed

end
