(* ===== verification/ShmSystem.thy ===== *)
theory ShmSystem
  imports ShmProofs
begin

text \<open>
  The running programs of \<^verbatim>\<open>module3/task04\<close> and \<^verbatim>\<open>module3/task05\<close>: one producer and any number of
  consumers on one segment and one semaphore, interleaved. Taking the semaphore, the work on the
  segment and releasing the semaphore are separate steps of the process that makes them. A process
  works on the bytes it found when it took the semaphore and writes its result over the segment,
  so that two overlapping sections would lose an update: that none overlap is a theorem.
\<close>

section \<open>Processes\<close>

text \<open>Where the producer is: the generation loop, then the waiting loop, then the clean-up.\<close>

datatype prod_pc = GenSleep | GenIn mem | GenOut gen_result | WaitSleep | WaitIn mem | WaitOut bool | Cleanup

text \<open>A consumer: before the lock, inside, about to release (\<open>True\<close>: and to leave), gone.\<close>

datatype cons_pc = ConsStart | ConsIn mem | ConsOut bool | ConsLeft

record shm_sys =
  seg :: mem
  sem :: nat
  last_off :: nat
  ppc :: prod_pc
  cpc :: "nat \<Rightarrow> cons_pc"
  made :: "int list list"
  taken :: "(nat \<times> int \<times> int) list"

text \<open>
  \<open>made\<close> is the history of the blocks generated, \<open>taken\<close> what the consumers printed (number of
  elements, least, greatest) in the order of the prints.
\<close>

definition init_sys :: "mem \<Rightarrow> shm_sys" where
  "init_sys m = \<lparr>seg = m, sem = 1, last_off = 0, ppc = GenSleep, cpc = (\<lambda>_. ConsStart), made = [], taken = []\<rparr>"

definition gen_data :: "nat \<Rightarrow> (nat \<Rightarrow> nat) \<Rightarrow> int list" where
  "gen_data r rs = map (\<lambda>j. int (rs j mod 100)) [0..<5 + r mod 11]"

inductive shm_step :: "layout \<Rightarrow> shm_sys \<Rightarrow> shm_sys \<Rightarrow> bool" for L where
  gen_lock: "ppc s = GenSleep \<Longrightarrow> 0 < sem s \<Longrightarrow> shm_step L s (s\<lparr>sem := sem s - 1, ppc := GenIn (seg s)\<rparr>)"
| gen_body: "ppc s = GenIn v \<Longrightarrow> gen_iter L r rs v (last_off s) = Some (res, m, lo) \<Longrightarrow>
     shm_step L s (s\<lparr>seg := m, last_off := lo, ppc := GenOut res,
       made := made s @ (if res = Generated then [gen_data r rs] else [])\<rparr>)"
| gen_unlock: "ppc s = GenOut res \<Longrightarrow>
     shm_step L s (s\<lparr>sem := sem s + 1, ppc := (if res = Generated then GenSleep else WaitSleep)\<rparr>)"
| wait_lock: "ppc s = WaitSleep \<Longrightarrow> 0 < sem s \<Longrightarrow> shm_step L s (s\<lparr>sem := sem s - 1, ppc := WaitIn (seg s)\<rparr>)"
| wait_body: "ppc s = WaitIn v \<Longrightarrow> wait_check L v = Some b \<Longrightarrow> shm_step L s (s\<lparr>ppc := WaitOut b\<rparr>)"
| wait_unlock: "ppc s = WaitOut b \<Longrightarrow>
     shm_step L s (s\<lparr>sem := sem s + 1, ppc := (if b then Cleanup else WaitSleep)\<rparr>)"
| cons_lock: "cpc s i = ConsStart \<Longrightarrow> 0 < sem s \<Longrightarrow>
     shm_step L s (s\<lparr>sem := sem s - 1, cpc := (cpc s)(i := ConsIn (seg s))\<rparr>)"
| cons_body: "cpc s i = ConsIn v \<Longrightarrow> cons_iter L v = Some (res, m) \<Longrightarrow>
     shm_step L s (s\<lparr>seg := m, cpc := (cpc s)(i := ConsOut (res = LeaveLoop)),
       taken := taken s @ (case res of Processed b n mn mx \<Rightarrow> [(n, mn, mx)] | _ \<Rightarrow> [])\<rparr>)"
| cons_unlock: "cpc s i = ConsOut leave \<Longrightarrow>
     shm_step L s (s\<lparr>sem := sem s + 1, cpc := (cpc s)(i := if leave then ConsLeft else ConsStart)\<rparr>)"

inductive shm_reachable :: "layout \<Rightarrow> mem \<Rightarrow> shm_sys \<Rightarrow> bool" for L m where
  start: "shm_reachable L m (init_sys m)"
| step: "shm_reachable L m s \<Longrightarrow> shm_step L s t \<Longrightarrow> shm_reachable L m t"

section \<open>The invariant\<close>

datatype agent = Producer | Consumer nat

definition inside :: "shm_sys \<Rightarrow> agent set" where
  "inside s = {a. case a of
      Producer \<Rightarrow> ppc s \<in> range GenIn \<union> range WaitIn \<union> range GenOut \<union> range WaitOut
    | Consumer i \<Rightarrow> cpc s i \<in> range ConsIn \<union> range ConsOut}"

definition summary :: "int list \<Rightarrow> nat \<times> int \<times> int" where
  "summary xs = (length xs, Min (set xs), Max (set xs))"

text \<open>The blocks of the segment: those made, the first \<open>k\<close> of them processed.\<close>

definition queue_of :: "int list list \<Rightarrow> nat \<Rightarrow> block list" where
  "queue_of xss k = map (\<lambda>xs. (xs, True)) (take k xss) @ map (\<lambda>xs. (xs, False)) (drop k xss)"

definition gen_over :: "shm_sys \<Rightarrow> bool" where
  "gen_over s \<longleftrightarrow> ppc s \<notin> {GenSleep, GenOut Generated} \<union> range GenIn"

definition all_taken :: "shm_sys \<Rightarrow> bool" where
  "all_taken s \<longleftrightarrow> gen_over s \<and> length (taken s) = length (made s)"

definition lock_inv :: "shm_sys \<Rightarrow> bool" where
  "lock_inv s \<longleftrightarrow> sem s = 1 \<and> inside s = {} \<or> sem s = 0 \<and> (\<exists>a. inside s = {a})"

definition view_inv :: "shm_sys \<Rightarrow> bool" where
  "view_inv s \<longleftrightarrow> (\<forall>v. ppc s \<in> {GenIn v, WaitIn v} \<longrightarrow> v = seg s) \<and> (\<forall>i v. cpc s i = ConsIn v \<longrightarrow> v = seg s)"

definition data_inv :: "layout \<Rightarrow> shm_sys \<Rightarrow> bool" where
  "data_inv L s \<longleftrightarrow>
     length (taken s) \<le> length (made s)
     \<and> taken s = map summary (take (length (taken s)) (made s))
     \<and> shm_inv L (seg s) (last_off s) (queue_of (made s) (length (taken s))) (gen_over s)
     \<and> (ppc s \<in> {WaitOut True, Cleanup} \<longrightarrow> all_taken s)
     \<and> (\<forall>i. cpc s i \<in> {ConsOut True, ConsLeft} \<longrightarrow> all_taken s)"

definition sys_inv :: "layout \<Rightarrow> shm_sys \<Rightarrow> bool" where
  "sys_inv L s \<longleftrightarrow> lock_inv s \<and> view_inv s \<and> data_inv L s"

lemma queue_of_simps [simp]:
  "queue_of [] k = []"
  "k \<le> length xss \<Longrightarrow> queue_of (xss @ [xs]) k = queue_of xss k @ [(xs, False)]"
  "map fst (queue_of xss k) = xss"
  by (simp_all add: queue_of_def comp_def)

lemma next_open_append:
  "next_open (map (\<lambda>xs. (xs, True)) xss @ bs) = next_open bs"
  by (induction xss) auto

lemma mark_first_append:
  "mark_first (map (\<lambda>xs. (xs, True)) xss @ bs) = map (\<lambda>xs. (xs, True)) xss @ mark_first bs"
  by (induction xss) auto

lemma next_open_processed [simp]: "next_open (map (\<lambda>xs. (xs, True)) xss) = None"
  using next_open_append [of xss "[]"] by simp

lemma next_open_queue:
  "k \<le> length xss \<Longrightarrow> next_open (queue_of xss k) = (if k < length xss then Some (xss ! k) else None)"
  by (cases "drop k xss") (auto simp: queue_of_def next_open_append nth_via_drop)

lemma mark_first_queue:
  assumes "k < length xss"
  shows "mark_first (queue_of xss k) = queue_of xss (Suc k)"
proof -
  have "drop k xss = xss ! k # drop (Suc k) xss" using assms by (rule Cons_nth_drop_Suc [symmetric])
  then show ?thesis
    using assms by (simp add: queue_of_def mark_first_append take_Suc_conv_app_nth)
qed

lemmas sys_defs = sys_inv_def lock_inv_def view_inv_def data_inv_def inside_def gen_over_def all_taken_def

lemma sys_inv_init: "shm_inv L m 0 [] False \<Longrightarrow> sys_inv L (init_sys m)"
  by (auto simp: sys_defs init_sys_def split: agent.splits)

section \<open>Every step keeps the invariant\<close>

inductive_simps shm_step_from: "shm_step L s t"



lemma inside_Producer [simp]:
  "Producer \<in> inside s \<longleftrightarrow> ppc s \<in> range GenIn \<union> range WaitIn \<union> range GenOut \<union> range WaitOut"
  by (simp add: inside_def)

lemma inside_Consumer [simp]: "Consumer i \<in> inside s \<longleftrightarrow> cpc s i \<in> range ConsIn \<union> range ConsOut"
  by (simp add: inside_def)

lemma insideI:
  "(Producer \<in> inside t \<longleftrightarrow> Producer \<in> A) \<Longrightarrow> (\<And>i. Consumer i \<in> inside t \<longleftrightarrow> Consumer i \<in> A) \<Longrightarrow> inside t = A"
  by (rule set_eqI) (metis agent.exhaust)

text \<open>Taking the semaphore when it is 1, and giving it back.\<close>

lemma inside_single: "lock_inv s \<Longrightarrow> a \<in> inside s \<Longrightarrow> inside s = {a} \<and> sem s = 0"
  by (auto simp: lock_inv_def)

lemma inside_free: "lock_inv s \<Longrightarrow> 0 < sem s \<Longrightarrow> inside s = {} \<and> sem s = 1"
  by (auto simp: lock_inv_def)

lemma lock_enter:
  "lock_inv s \<Longrightarrow> 0 < sem s \<Longrightarrow> sem t = sem s - 1 \<Longrightarrow> inside t = insert a (inside s) \<Longrightarrow> lock_inv t"
  by (auto simp: lock_inv_def)

lemma lock_work: "lock_inv s \<Longrightarrow> sem t = sem s \<Longrightarrow> inside t = inside s \<Longrightarrow> lock_inv t"
  by (simp add: lock_inv_def)

lemma lock_leave:
  "lock_inv s \<Longrightarrow> a \<in> inside s \<Longrightarrow> sem t = sem s + 1 \<Longrightarrow> inside t = inside s - {a} \<Longrightarrow> lock_inv t"
  by (auto simp: lock_inv_def)

lemma free_not_inside:
  assumes "inside s = {}"
  shows "ppc s \<notin> range GenIn \<union> range WaitIn \<union> range GenOut \<union> range WaitOut" "cpc s i \<notin> range ConsIn \<union> range ConsOut"
  using assms inside_Producer [of s] inside_Consumer [of i s] by auto

lemma summary_snoc:
  assumes "ts = map summary (take (length ts) xss)" "length ts < length xss"
  shows "ts @ [summary (xss ! length ts)] = map summary (take (Suc (length ts)) xss)"
proof -
  have "map summary (take (Suc (length ts)) xss) = map summary (take (length ts) xss) @ [summary (xss ! length ts)]"
    using assms(2) by (simp add: take_Suc_conv_app_nth)
  then show ?thesis using assms(1) by simp
qed

lemma take_more: "ts = map summary (take (length ts) xss) \<Longrightarrow> length ts \<le> length xss \<Longrightarrow>
    ts = map summary (take (length ts) (xss @ yss))"
  by simp

lemma lock_inv_step:
  assumes "shm_step L s t" "lock_inv s"
  shows "lock_inv t"
  using assms(1)
proof cases
  case gen_lock
  then show ?thesis by (intro lock_enter [OF assms(2), of t Producer] insideI) auto
next
  case (gen_body v r rs res m lo)
  then show ?thesis by (intro lock_work [OF assms(2)] insideI) auto
next
  case (gen_unlock res)
  then show ?thesis by (intro lock_leave [OF assms(2), of Producer] insideI) auto
next
  case wait_lock
  then show ?thesis by (intro lock_enter [OF assms(2), of t Producer] insideI) auto
next
  case (wait_body v b)
  then show ?thesis by (intro lock_work [OF assms(2)] insideI) auto
next
  case (wait_unlock b)
  then show ?thesis by (intro lock_leave [OF assms(2), of Producer] insideI) auto
next
  case (cons_lock i)
  then show ?thesis by (intro lock_enter [OF assms(2), of t "Consumer i"] insideI) auto
next
  case (cons_body i v res m)
  then show ?thesis by (intro lock_work [OF assms(2)] insideI) auto
next
  case (cons_unlock i leave)
  then show ?thesis by (intro lock_leave [OF assms(2), of "Consumer i"] insideI) auto
qed

text \<open>Only the process inside has a view of the segment, so nobody else's view goes stale.\<close>

lemma view_invI:
  assumes "\<And>v. ppc t \<in> {GenIn v, WaitIn v} \<Longrightarrow> v = seg t" "\<And>i v. cpc t i = ConsIn v \<Longrightarrow> v = seg t"
  shows "view_inv t"
  using assms by (auto simp: view_inv_def)

lemma alone_Producer: "lock_inv s \<Longrightarrow> Producer \<in> inside s \<Longrightarrow> cpc s i \<notin> range ConsIn \<union> range ConsOut"
  by (metis agent.distinct(1) inside_Consumer inside_single singletonD)

lemma alone_Consumer:
  "lock_inv s \<Longrightarrow> Consumer i \<in> inside s \<Longrightarrow>
   Producer \<notin> inside s \<and> (\<forall>j. j \<noteq> i \<longrightarrow> cpc s j \<notin> range ConsIn \<union> range ConsOut)"
  by (metis agent.distinct(1) agent.inject inside_Consumer inside_single singletonD)

lemma view_inv_step:
  assumes "shm_step L s t" "lock_inv s" "view_inv s"
  shows "view_inv t"
  using assms(1)
proof cases
  case (gen_body v r rs res m lo)
  then have "cpc s i \<noteq> ConsIn w" for i w using alone_Producer [OF assms(2), of i] by auto
  with gen_body show ?thesis by (intro view_invI) auto
next
  case (cons_body i v res m)
  then have "Producer \<notin> inside s \<and> (\<forall>j. j \<noteq> i \<longrightarrow> cpc s j \<notin> range ConsIn \<union> range ConsOut)"
    by (intro alone_Consumer [OF assms(2)]) auto
  with cons_body show ?thesis by (intro view_invI) (auto split: if_splits)
qed (use assms(3) in \<open>auto simp: view_inv_def split: if_splits\<close>)

text \<open>What the steps do to the queue.\<close>

lemma gen_over_update [simp]:
  "gen_over (cpc_update f s) = gen_over s"
  "gen_over (taken_update g s) = gen_over s"
  "gen_over (seg_update h s) = gen_over s"
  by (simp_all add: gen_over_def)

lemma data_invI:
  assumes "length (taken t) \<le> length (made t)" "taken t = map summary (take (length (taken t)) (made t))"
    "shm_inv L (seg t) (last_off t) (queue_of (made t) (length (taken t))) (gen_over t)"
    "ppc t \<in> {WaitOut True, Cleanup} \<Longrightarrow> all_taken t"
    "\<And>i. cpc t i \<in> {ConsOut True, ConsLeft} \<Longrightarrow> all_taken t"
  shows "data_inv L t"
  using assms by (auto simp: data_inv_def)

text \<open>A step that only moves program counters.\<close>

lemma data_inv_move:
  assumes "data_inv L s" "seg t = seg s" "last_off t = last_off s" "made t = made s" "taken t = taken s"
    "gen_over t = gen_over s"
    "ppc t \<in> {WaitOut True, Cleanup} \<Longrightarrow> ppc s \<in> {WaitOut True, Cleanup}"
    "\<And>i. cpc t i \<in> {ConsOut True, ConsLeft} \<Longrightarrow> cpc s i \<in> {ConsOut True, ConsLeft}"
  shows "data_inv L t"
  using assms unfolding data_inv_def all_taken_def by simp blast

text \<open>What releasing the semaphore leaves unchanged.\<close>

definition released :: "shm_sys \<Rightarrow> shm_sys \<Rightarrow> bool" where
  "released s t \<longleftrightarrow> inside t = {} \<and> made t = made s \<and> taken t = taken s \<and> gen_over t = gen_over s
     \<and> (ppc s = WaitOut True \<longrightarrow> ppc t = Cleanup)"

context shm_layout
begin

lemma data_inv_gen_body:
  assumes inv: "data_inv L s" and view: "view_inv s" and pc: "ppc s = GenIn v"
    and body: "gen_iter L r rs v (last_off s) = Some (res, m, lo)"
    and t: "t = s\<lparr>seg := m, last_off := lo, ppc := GenOut res,
       made := made s @ (if res = Generated then [gen_data r rs] else [])\<rparr>"
  shows "data_inv L t"
proof -
  have v: "v = seg s" using view pc by (simp add: view_inv_def)
  let ?q = "queue_of (made s) (length (taken s))"
  have shm: "shm_inv L v (last_off s) ?q False"
    using inv pc by (auto simp: data_inv_def gen_over_def v)
  have no: "cpc s i \<notin> {ConsOut True, ConsLeft}" for i
    using inv pc by (auto simp: data_inv_def all_taken_def gen_over_def)
  have le: "length (taken s) \<le> length (made s)" and sums: "taken s = map summary (take (length (taken s)) (made s))"
    using inv by (simp_all only: data_inv_def)
  show ?thesis
  proof (cases "SHM_SIZE < end_of (header_size L) ?q + 16 + 4 * (5 + r mod 11)")
    case True
    then have "res = Exhausted \<and> lo = last_off s \<and> shm_inv L m (last_off s) ?q True"
      using gen_iter_exhausted [OF shm, of r rs] body by auto
    then show ?thesis
      using le sums no by (intro data_invI) (auto simp: t gen_over_def image_iff)
  next
    case False
    then have "res = Generated \<and> shm_inv L m lo (?q @ [(gen_data r rs, False)]) False"
      using gen_iter_generated [OF shm, of r rs] body by (auto simp: gen_data_def)
    then show ?thesis
      using le sums no by (intro data_invI) (auto simp: t gen_over_def)
  qed
qed

lemma data_inv_cons_body:
  assumes inv: "data_inv L s" and view: "view_inv s" and pc: "cpc s i = ConsIn v"
    and body: "cons_iter L v = Some (res, m)"
    and t: "t = s\<lparr>seg := m, cpc := (cpc s)(i := ConsOut (res = LeaveLoop)),
       taken := taken s @ (case res of Processed b n mn mx \<Rightarrow> [(n, mn, mx)] | _ \<Rightarrow> [])\<rparr>"
  shows "data_inv L t"
proof -
  have v: "v = seg s" using view pc by (simp add: view_inv_def)
  let ?k = "length (taken s)"
  have shm: "shm_inv L v (last_off s) (queue_of (made s) ?k) (gen_over s)"
    and le: "?k \<le> length (made s)" and sums: "taken s = map summary (take ?k (made s))"
    using inv by (simp_all only: data_inv_def v)
  have gone: "ppc s \<in> {WaitOut True, Cleanup} \<Longrightarrow> all_taken s"
    "\<And>j. cpc s j \<in> {ConsOut True, ConsLeft} \<Longrightarrow> all_taken s"
    using inv by (simp_all only: data_inv_def)
  show ?thesis
  proof (cases "?k < length (made s)")
    case True
    then have next_block: "next_open (queue_of (made s) ?k) = Some (made s ! ?k)"
      using le by (simp add: next_open_queue)
    then obtain b where "res = Processed b (length (made s ! ?k)) (Min (set (made s ! ?k))) (Max (set (made s ! ?k)))"
      and "shm_inv L m (last_off s) (queue_of (made s) (Suc ?k)) (gen_over s)"
      using cons_iter_some [OF shm next_block] body True by (auto simp: mark_first_queue)
    moreover have "taken s @ [summary (made s ! ?k)] = map summary (take (Suc ?k) (made s))"
      using sums True by (rule summary_snoc)
    moreover have "\<not> all_taken s" using True by (simp add: all_taken_def)
    ultimately show ?thesis
      using gone True by (intro data_invI) (auto simp: t summary_def gen_over_def split: if_splits)
  next
    case False
    then have none: "next_open (queue_of (made s) ?k) = None"
      using le by (simp add: next_open_queue)
    then have "res = (if gen_over s then LeaveLoop else WaitMore)" "m = v"
      using cons_iter_none [OF shm none] body by auto
    then show ?thesis
      using gone shm sums le False
      by (intro data_invI) (auto simp: t all_taken_def v split: if_splits)
  qed
qed

lemma data_inv_wait_body:
  assumes inv: "data_inv L s" and view: "view_inv s" and pc: "ppc s = WaitIn v"
    and body: "wait_check L v = Some b" and t: "t = s\<lparr>ppc := WaitOut b\<rparr>"
  shows "data_inv L t"
proof -
  have "shm_inv L v (last_off s) (queue_of (made s) (length (taken s))) (gen_over s)"
    and le: "length (taken s) \<le> length (made s)" and over: "gen_over s"
    using inv view pc by (auto simp: data_inv_def view_inv_def gen_over_def)
  then have "b \<longleftrightarrow> length (taken s) = length (made s)"
    using wait_check_ok body by (auto simp: next_open_queue split: if_splits)
  moreover have "gen_over t" by (auto simp: t gen_over_def)
  ultimately show ?thesis
    using inv over by (auto simp: data_inv_def all_taken_def t split: if_splits)
qed

lemma sys_inv_step:
  assumes "shm_step L s t" "sys_inv L s"
  shows "sys_inv L t"
proof -
  have lock: "lock_inv s" and view: "view_inv s" and data: "data_inv L s"
    using assms(2) by (simp_all add: sys_inv_def)
  have "data_inv L t"
    using assms(1)
  proof cases
    case (gen_body v r rs res m lo)
    then show ?thesis using data_inv_gen_body [OF data view] by blast
  next
    case (wait_body v b)
    then show ?thesis using data_inv_wait_body [OF data view] by blast
  next
    case (cons_body i v res m)
    then show ?thesis using data_inv_cons_body [OF data view] by blast
  qed (rule data_inv_move [OF data]; auto simp: gen_over_def split: if_splits gen_result.splits)+
  with lock view assms(1) show ?thesis
    using lock_inv_step view_inv_step by (simp add: sys_inv_def)
qed

lemma sys_inv_reachable:
  assumes "shm_reachable L m s" "shm_inv L m 0 [] False"
  shows "sys_inv L s"
  using assms by induction (auto intro: sys_inv_init sys_inv_step)

text \<open>The work of every critical section is defined: no access outside the segment, no endless walk.\<close>

lemma bodies_defined:
  assumes "sys_inv L s"
  shows "ppc s = GenIn v \<Longrightarrow> gen_iter L r rs v (last_off s) \<noteq> None"
    and "ppc s = WaitIn v \<Longrightarrow> wait_check L v \<noteq> None"
    and "cpc s i = ConsIn v \<Longrightarrow> cons_iter L v \<noteq> None"
proof -
  let ?q = "queue_of (made s) (length (taken s))"
  have shm: "shm_inv L (seg s) (last_off s) ?q (gen_over s)" and view: "view_inv s"
    using assms by (simp_all only: sys_inv_def data_inv_def)
  show "gen_iter L r rs v (last_off s) \<noteq> None" if "ppc s = GenIn v"
    using gen_iter_exhausted [OF shm, of r rs] gen_iter_generated [OF shm, of r rs] view that
    by (cases "SHM_SIZE < end_of (header_size L) ?q + 16 + 4 * (5 + r mod 11)") (auto simp: view_inv_def)
  show "wait_check L v \<noteq> None" if "ppc s = WaitIn v"
    using wait_check_ok [OF shm] view that by (auto simp: view_inv_def)
  show "cons_iter L v \<noteq> None" if "cpc s i = ConsIn v"
    using cons_iter_none [OF shm] cons_iter_some [OF shm] view that
    by (cases "next_open ?q") (auto simp: view_inv_def)
qed

lemma end_of_queue: "length q * 16 + a \<le> end_of a q"
proof (induction q arbitrary: a)
  case (Cons b bs)
  from Cons.IH [of "a + bsize b"] show ?case by (simp add: bsize_def)
qed simp

text \<open>
  The system never gets stuck: the section in progress ends, then the producer fills the segment,
  one consumer drains it, and the producer sees that and goes on to its clean-up.
\<close>

abbreviation reaches :: "shm_sys \<Rightarrow> shm_sys \<Rightarrow> bool" where
  "reaches s t \<equiv> (shm_step L)\<^sup>*\<^sup>* s t"

lemma sys_inv_reaches: "reaches s t \<Longrightarrow> sys_inv L s \<Longrightarrow> sys_inv L t"
  by (induction rule: rtranclp_induct) (auto intro: sys_inv_step)

lemma sem_free: "sys_inv L s \<Longrightarrow> inside s = {} \<Longrightarrow> sem s = 1"
  by (auto simp: sys_inv_def lock_inv_def)

lemma leave_releases:
  assumes "sys_inv L s" "shm_step L s t" "a \<in> inside s" "inside t = inside s - {a}"
    "made t = made s" "taken t = taken s" "gen_over t = gen_over s" "ppc s = WaitOut True \<Longrightarrow> ppc t = Cleanup"
  shows "\<exists>t. shm_step L s t \<and> released s t"
  using assms inside_single [of s a] by (auto simp: sys_inv_def released_def)

lemma unlock_possible:
  assumes inv: "sys_inv L s"
    and out: "ppc s \<in> range GenOut \<union> range WaitOut \<or> cpc s i \<in> range ConsOut"
  shows "\<exists>t. shm_step L s t \<and> released s t"
proof -
  consider (gen) res where "ppc s = GenOut res" | (wait) b where "ppc s = WaitOut b"
    | (cons) leave where "cpc s i = ConsOut leave"
    using out by auto
  then show ?thesis
  proof cases
    case (gen res)
    then show ?thesis
      by (intro leave_releases [OF inv shm_step.gen_unlock, of res Producer] insideI)
        (cases res; auto simp: gen_over_def)+
  next
    case (wait b)
    then show ?thesis
      by (intro leave_releases [OF inv shm_step.wait_unlock, of b Producer] insideI) (auto simp: gen_over_def)
  next
    case (cons leave)
    moreover have "ppc s \<noteq> WaitOut True"
      using cons alone_Consumer [of s i] inv by (auto simp: sys_inv_def)
    ultimately show ?thesis
      by (intro leave_releases [OF inv shm_step.cons_unlock, of i leave "Consumer i"] insideI)
        (auto simp: gen_over_def)
  qed
qed

lemma work_possible:
  assumes inv: "sys_inv L s" and work: "ppc s \<in> range GenIn \<union> range WaitIn \<or> cpc s i \<in> range ConsIn"
  shows "\<exists>t. shm_step L s t \<and> (ppc t \<in> range GenOut \<union> range WaitOut \<or> cpc t i \<in> range ConsOut)"
proof -
  consider (gen) v where "ppc s = GenIn v" | (wait) v where "ppc s = WaitIn v" | (cons) v where "cpc s i = ConsIn v"
    using work by auto
  moreover have possible: "shm_step L s t \<Longrightarrow>
    ppc t \<in> range GenOut \<union> range WaitOut \<or> cpc t i \<in> range ConsOut \<Longrightarrow> ?thesis" for t
    by blast
  ultimately show ?thesis
  proof cases
    case gen
    then obtain res m lo where body: "gen_iter L 0 (\<lambda>_. 0) v (last_off s) = Some (res, m, lo)"
      using bodies_defined(1) [OF inv] by fastforce
    from possible [OF shm_step.gen_body [OF gen body]] show ?thesis by simp
  next
    case wait
    then obtain b where body: "wait_check L v = Some b" using bodies_defined(2) [OF inv] by blast
    from possible [OF shm_step.wait_body [OF wait body]] show ?thesis by simp
  next
    case cons
    then obtain res m where body: "cons_iter L v = Some (res, m)" using bodies_defined(3) [OF inv] by fastforce
    from possible [OF shm_step.cons_body [OF cons body]] show ?thesis by simp
  qed
qed

lemma section_ends:
  assumes inv: "sys_inv L s"
  shows "\<exists>t. reaches s t \<and> inside t = {}"
proof (cases "inside s = {}")
  case False
  then obtain a where a: "a \<in> inside s" by blast
  let ?out = "\<lambda>t i. ppc t \<in> range GenOut \<union> range WaitOut \<or> cpc t i \<in> range ConsOut"
  obtain i where "?out s i \<or> ppc s \<in> range GenIn \<union> range WaitIn \<or> cpc s i \<in> range ConsIn"
    using a by (cases a) (simp_all, blast+)
  then obtain u where u: "reaches s u" "?out u i"
    using work_possible [OF inv, of i] by blast
  then obtain t where "shm_step L u t" "inside t = {}"
    using unlock_possible [OF sys_inv_reaches [OF u(1) inv]] by (auto simp: released_def)
  with u show ?thesis by (meson rtranclp.rtrancl_into_rtrancl)
qed blast

lemma three_steps: "shm_step L s t \<Longrightarrow> shm_step L t u \<Longrightarrow> shm_step L u v \<Longrightarrow> reaches s v"
  by (meson converse_rtranclp_into_rtranclp r_into_rtranclp)

lemma inv_shm: "sys_inv L s \<Longrightarrow> shm_inv L (seg s) (last_off s) (queue_of (made s) (length (taken s))) (gen_over s)"
  by (simp add: sys_inv_def data_inv_def)

lemma inv_taken_le: "sys_inv L s \<Longrightarrow> length (taken s) \<le> length (made s)"
  by (simp add: sys_inv_def data_inv_def)

lemma made_bound:
  assumes "sys_inv L s"
  shows "16 * length (made s) \<le> SHM_SIZE"
proof -
  let ?q = "queue_of (made s) (length (taken s))"
  have "length ?q = length (made s)" using inv_taken_le [OF assms] by (simp add: queue_of_def)
  moreover have "end_of (header_size L) ?q \<le> SHM_SIZE" using inv_shm [OF assms] by (simp add: shm_inv_def)
  ultimately show ?thesis using end_of_queue [of ?q "header_size L"] by simp
qed

text \<open>A whole section of the producer or of a consumer, from semaphore to semaphore.\<close>

lemma gen_round:
  assumes inv: "sys_inv L s" and free: "inside s = {}" and more: "\<not> gen_over s"
  shows "\<exists>t. reaches s t \<and> inside t = {} \<and> (gen_over t \<or> length (made s) < length (made t))"
proof -
  have pc: "ppc s = GenSleep" using more free_not_inside(1) [OF free] by (auto simp: gen_over_def)
  obtain t where t: "shm_step L s t" "ppc t = GenIn (seg s)" "made t = made s"
    by (rule that [OF shm_step.gen_lock [OF pc]]) (simp_all add: sem_free [OF inv free])
  have inv_t: "sys_inv L t" using t(1) inv by (rule sys_inv_step)
  obtain res m lo where body: "gen_iter L 0 (\<lambda>_. 0) (seg s) (last_off t) = Some (res, m, lo)"
    using bodies_defined(1) [OF inv_t t(2), of 0 "\<lambda>_. 0"] by auto
  obtain u where u: "shm_step L t u" "ppc u = GenOut res" "length (made u) = (if res = Generated then 1 else 0) + length (made s)"
    by (rule that [OF shm_step.gen_body [OF t(2) body]]) (simp_all add: t(3))
  obtain v where v: "shm_step L u v" "released u v"
    using unlock_possible [OF sys_inv_step [OF u(1) inv_t]] u(2) by blast
  then have "gen_over v \<or> length (made s) < length (made v)"
    using u(2,3) by (cases res) (auto simp: released_def gen_over_def)
  with v show ?thesis
    using three_steps [OF t(1) u(1) v(1)] by (auto simp: released_def)
qed

lemma cons_round:
  assumes inv: "sys_inv L s" and free: "inside s = {}" and more: "length (taken s) < length (made s)"
  shows "\<exists>t. reaches s t \<and> inside t = {} \<and> gen_over t = gen_over s \<and> made t = made s
    \<and> length (taken t) = Suc (length (taken s))"
proof -
  have "cpc s 0 \<noteq> ConsLeft" using inv more by (auto simp: sys_inv_def data_inv_def all_taken_def)
  then have pc: "cpc s 0 = ConsStart" using free_not_inside(2) [OF free, of 0] by (cases "cpc s 0") auto
  obtain t where t: "shm_step L s t" "cpc t 0 = ConsIn (seg s)" "made t = made s" "taken t = taken s" "gen_over t = gen_over s"
    by (rule that [OF shm_step.cons_lock [OF pc]]) (simp_all add: sem_free [OF inv free] gen_over_def)
  have inv_t: "sys_inv L t" using t(1) inv by (rule sys_inv_step)
  have "next_open (queue_of (made s) (length (taken s))) \<noteq> None"
    using more by (simp add: next_open_queue)
  then obtain b n mn mx m where body: "cons_iter L (seg s) = Some (Processed b n mn mx, m)"
    using cons_iter_some [OF inv_shm [OF inv]] by blast
  obtain u where u: "shm_step L t u" "cpc u 0 = ConsOut False" "made u = made s" "gen_over u = gen_over s"
    "length (taken u) = Suc (length (taken s))"
    by (rule that [OF shm_step.cons_body [OF t(2) body]]) (simp_all add: t(3-5) image_iff)
  obtain v where v: "shm_step L u v" "released u v"
    using unlock_possible [OF sys_inv_step [OF u(1) inv_t]] u(2) by blast
  with u(3-5) show ?thesis
    by (intro exI [of _ v] conjI three_steps [OF t(1) u(1) v(1)]) (simp_all only: released_def)
qed

lemma wait_round:
  assumes inv: "sys_inv L s" and free: "inside s = {}" and drained: "all_taken s" and pc: "ppc s \<noteq> Cleanup"
  shows "\<exists>t. reaches s t \<and> ppc t = Cleanup"
proof -
  have pc: "ppc s = WaitSleep"
    using drained pc free_not_inside(1) [OF free] by (cases "ppc s") (auto simp: all_taken_def gen_over_def)
  obtain t where t: "shm_step L s t" "ppc t = WaitIn (seg s)"
    by (rule that [OF shm_step.wait_lock [OF pc]]) (simp_all add: sem_free [OF inv free])
  have inv_t: "sys_inv L t" using t(1) inv by (rule sys_inv_step)
  have body: "wait_check L (seg s) = Some True"
    using wait_check_ok [OF inv_shm [OF inv]] drained by (simp add: next_open_queue all_taken_def)
  obtain u where u: "shm_step L t u" "ppc u = WaitOut True"
    by (rule that [OF shm_step.wait_body [OF t(2) body]]) simp
  obtain v where v: "shm_step L u v" "released u v"
    using unlock_possible [OF sys_inv_step [OF u(1) inv_t]] u(2) by blast
  then show ?thesis
    using three_steps [OF t(1) u(1) v(1)] u(2) by (auto simp: released_def)
qed

lemma gen_finishes:
  "sys_inv L s \<Longrightarrow> inside s = {} \<Longrightarrow> \<exists>t. reaches s t \<and> inside t = {} \<and> gen_over t"
proof (induction "SHM_SIZE - length (made s)" arbitrary: s rule: less_induct)
  case less
  show ?case
  proof (cases "gen_over s")
    case False
    obtain t where t: "reaches s t" "inside t = {}" "gen_over t \<or> length (made s) < length (made t)"
      using gen_round [OF less.prems False] by blast
    have inv: "sys_inv L t" using t(1) less.prems(1) by (rule sys_inv_reaches)
    show ?thesis
    proof (cases "gen_over t")
      case False
      then have "SHM_SIZE - length (made t) < SHM_SIZE - length (made s)"
        using t(3) made_bound [OF inv] by simp
      then obtain u where "reaches t u" "inside u = {} \<and> gen_over u" using less.hyps inv t(2) by blast
      with t(1) show ?thesis by (meson rtranclp_trans)
    qed (use t in blast)
  qed (use less.prems in blast)
qed

lemma drain_finishes:
  "sys_inv L s \<Longrightarrow> inside s = {} \<Longrightarrow> gen_over s \<Longrightarrow> \<exists>t. reaches s t \<and> inside t = {} \<and> all_taken t"
proof (induction "length (made s) - length (taken s)" arbitrary: s)
  case 0
  then have "all_taken s" using inv_taken_le [of s] by (simp add: all_taken_def)
  with 0 show ?case by blast
next
  case (Suc n)
  from Suc.hyps(2) have "length (taken s) < length (made s)" by arith
  then obtain t where t: "reaches s t" "inside t = {}" "gen_over t" "made t = made s"
    "length (taken t) = Suc (length (taken s))"
    using cons_round [OF Suc.prems(1,2)] Suc.prems(3) by auto
  then have "n = length (made t) - length (taken t)" using Suc.hyps(2) by simp
  then obtain u where "reaches t u" "inside u = {} \<and> all_taken u"
    using Suc.hyps(1) sys_inv_reaches [OF t(1) Suc.prems(1)] t(2,3) by blast
  with t(1) show ?case by (meson rtranclp_trans)
qed

lemma cleanup_possible:
  assumes inv: "sys_inv L s"
  shows "\<exists>t. reaches s t \<and> ppc t = Cleanup"
proof -
  obtain a where a: "reaches s a" "inside a = {}" using section_ends [OF inv] by blast
  have "sys_inv L a" using a(1) inv by (rule sys_inv_reaches)
  then obtain b where b: "reaches a b" "inside b = {}" "gen_over b" using gen_finishes a(2) by blast
  have "sys_inv L b" using b(1) \<open>sys_inv L a\<close> by (rule sys_inv_reaches)
  then obtain c where c: "reaches b c" "inside c = {}" "all_taken c" using drain_finishes b(2,3) by blast
  have "sys_inv L c" using c(1) \<open>sys_inv L b\<close> by (rule sys_inv_reaches)
  then have "\<exists>t. reaches c t \<and> ppc t = Cleanup" using wait_round [of c] c(2,3) by blast
  with a b c show ?thesis by (meson rtranclp_trans)
qed

end

section \<open>The two programs\<close>

datatype ipc_kind = SysV | Posix

fun layout_of :: "ipc_kind \<Rightarrow> layout" where
  "layout_of SysV = layout4"
| "layout_of Posix = layout5"

fun init_header :: "ipc_kind \<Rightarrow> mem \<Rightarrow> mem option" where
  "init_header SysV m = init_header4 m"
| "init_header Posix m = init_header5 m"

text \<open>The runs of task 4 or 5 from a segment that the producer has just made.\<close>

definition run_state :: "ipc_kind \<Rightarrow> mem \<Rightarrow> shm_sys \<Rightarrow> bool" where
  "run_state k fresh s \<longleftrightarrow>
     length fresh = SHM_SIZE \<and> (\<exists>m. init_header k fresh = Some m \<and> shm_reachable (layout_of k) m s)"

interpretation task: shm_layout "layout_of k" for k
  by (cases k) (simp_all add: task4.shm_layout_axioms task5.shm_layout_axioms)

lemma run_state_inv:
  assumes "run_state k fresh s"
  shows "sys_inv (layout_of k) s"
proof -
  obtain m where "length fresh = SHM_SIZE" "init_header k fresh = Some m" "shm_reachable (layout_of k) m s"
    using assms by (auto simp: run_state_def)
  moreover from this have "shm_inv (layout_of k) m 0 [] False"
    using init_header4_ok [of fresh 0] init_header5_ok [of fresh 0] by (cases k) auto
  ultimately show ?thesis by (blast intro: task.sys_inv_reachable)
qed

lemma run_state_step: "run_state k fresh s \<Longrightarrow> shm_step (layout_of k) s t \<Longrightarrow> run_state k fresh t"
  by (auto simp: run_state_def intro: shm_reachable.step)

lemma run_state_reaches: "(shm_step (layout_of k))\<^sup>*\<^sup>* s t \<Longrightarrow> run_state k fresh s \<Longrightarrow> run_state k fresh t"
  by (induction rule: rtranclp_induct) (auto intro: run_state_step)

lemma run_state_start: "\<exists>s. run_state k (replicate SHM_SIZE NUL) s \<and> sys_inv (layout_of k) s \<and> inside s = {} \<and> ppc s = GenSleep \<and> made s = [] \<and> cpc s = (\<lambda>_. ConsStart)"
proof -
  have len: "length (replicate SHM_SIZE NUL) = SHM_SIZE" by simp
  obtain m where m: "init_header k (replicate SHM_SIZE NUL) = Some m"
    using init_header4_ok [OF len, of 0] init_header5_ok [OF len, of 0] by (cases k) auto
  then have "run_state k (replicate SHM_SIZE NUL) (init_sys m)"
    by (auto simp: run_state_def intro: shm_reachable.start)
  then show ?thesis
    by (intro exI [of _ "init_sys m"]) (auto simp: run_state_inv init_sys_def inside_def split: agent.splits)
qed

text \<open>A short run: the producer makes a block of five zeros and a consumer processes it.\<close>

lemma example_made:
  "\<exists>s. run_state k (replicate SHM_SIZE NUL) s \<and> inside s = {} \<and> made s = [[0, 0, 0, 0, 0]] \<and> taken s = []"
proof -
  obtain s where s: "run_state k (replicate SHM_SIZE NUL) s" "inside s = {}" "ppc s = GenSleep" "made s = []"
    using run_state_start by blast
  have inv: "sys_inv (layout_of k) s" using s(1) by (rule run_state_inv)
  have no: "taken s = []" using task.inv_taken_le [OF inv] s(4) by simp
  obtain t where t: "shm_step (layout_of k) s t" "ppc t = GenIn (seg s)" "made t = []" "taken t = []" "last_off t = last_off s"
    by (rule that [OF shm_step.gen_lock [OF s(3)]]) (simp_all add: task.sem_free [OF inv s(2)] s(4) no)
  have inv_t: "sys_inv (layout_of k) t" using t(1) inv by (rule task.sys_inv_step)
  have shm: "shm_inv (layout_of k) (seg s) (last_off s) [] (gen_over s)"
    using task.inv_shm [OF inv] s(4) by simp
  have "end_of (header_size (layout_of k)) [] + 16 + 4 * (5 + 0 mod 11) \<le> SHM_SIZE"
    using task.header_fits [of k] by (simp add: SHM_SIZE_def)
  from task.gen_iter_generated [OF shm this, of "\<lambda>_. 0"]
  obtain m lo where body: "gen_iter (layout_of k) 0 (\<lambda>_. 0) (seg s) (last_off t) = Some (Generated, m, lo)"
    by (auto simp: t(5))
  have data: "gen_data 0 (\<lambda>_. 0) = [0, 0, 0, 0, 0]" by (simp add: gen_data_def upt_rec)
  obtain u where u: "shm_step (layout_of k) t u" "ppc u = GenOut Generated" "made u = [[0, 0, 0, 0, 0]]" "taken u = []"
    by (rule that [OF shm_step.gen_body [OF t(2) body]]) (simp_all add: t(3,4) data)
  obtain v where v: "shm_step (layout_of k) u v" "released u v"
    using task.unlock_possible [OF task.sys_inv_step [OF u(1) inv_t]] u(2) by blast
  have "run_state k (replicate SHM_SIZE NUL) v"
    using s(1) t(1) u(1) v(1) by (blast intro: run_state_step)
  with u v show ?thesis by (intro exI [of _ v]) (auto simp: released_def)
qed

lemma example_taken:
  "\<exists>s. run_state k (replicate SHM_SIZE NUL) s \<and> made s = [[0, 0, 0, 0, 0]] \<and> length (taken s) = 1"
proof -
  obtain s where s: "run_state k (replicate SHM_SIZE NUL) s" "inside s = {}" "made s = [[0, 0, 0, 0, 0]]" "taken s = []"
    using example_made by blast
  then have "\<exists>t. (shm_step (layout_of k))\<^sup>*\<^sup>* s t \<and> made t = made s \<and> length (taken t) = Suc (length (taken s))"
    using task.cons_round [OF run_state_inv [OF s(1)] s(2)] by auto
  with s show ?thesis by (auto dest: run_state_reaches)
qed

lemma example_cleanup: "\<exists>s. run_state k (replicate SHM_SIZE NUL) s \<and> ppc s = Cleanup"
proof -
  obtain s where s: "run_state k (replicate SHM_SIZE NUL) s" using run_state_start by blast
  then obtain t where "(shm_step (layout_of k))\<^sup>*\<^sup>* s t" "ppc t = Cleanup"
    using task.cleanup_possible [OF run_state_inv [OF s]] by blast
  with s show ?thesis by (blast dest: run_state_reaches)
qed

text \<open>The data of the generated blocks, and the room they take.\<close>

lemma gen_data_range: "length (gen_data r rs) \<in> {5..15} \<and> set (gen_data r rs) \<subseteq> {0..99}"
proof -
  have "int (n mod 100) \<le> 99" for n
    using mod_less_divisor [of 100 n] by simp
  moreover have "5 + r mod 11 \<le> 15"
    using mod_less_divisor [of 11 r] by simp
  ultimately show ?thesis by (auto simp: gen_data_def)
qed

lemma made_step:
  "shm_step L s t \<Longrightarrow> made t = made s \<or> (\<exists>r rs. made t = made s @ [gen_data r rs])"
  by (erule shm_step.cases) auto

lemma made_blocks:
  "shm_reachable L m s \<Longrightarrow> \<forall>xs \<in> set (made s). length xs \<in> {5..15} \<and> set xs \<subseteq> {0..99}"
proof (induction rule: shm_reachable.induct)
  case start
  then show ?case by (simp add: init_sys_def)
next
  case (step s t)
  from made_step [OF step.hyps(2)] show ?case
    using step.IH gen_data_range by (elim disjE exE) (simp_all add: ball_Un)
qed

lemma run_state_blocks:
  "run_state k fresh s \<Longrightarrow> \<forall>xs \<in> set (made s). length xs \<in> {5..15} \<and> set xs \<subseteq> {0..99}"
  by (auto simp: run_state_def dest!: made_blocks)

lemma end_of_min: "\<forall>b \<in> set q. 5 \<le> length (fst b) \<Longrightarrow> 36 * length q + a \<le> end_of a q"
proof (induction q arbitrary: a)
  case (Cons b bs)
  then have "36 * length bs + (a + bsize b) \<le> end_of (a + bsize b) bs" by simp
  moreover have "36 \<le> bsize b" using Cons.prems by (simp add: bsize_def)
  ultimately show ?case by simp
qed simp

lemma run_state_size:
  assumes "run_state k fresh s" "\<forall>xs \<in> set (made s). 5 \<le> length xs"
  shows "36 * length (made s) + 24 \<le> SHM_SIZE"
proof -
  let ?q = "queue_of (made s) (length (taken s))" and ?H = "header_size (layout_of k)"
  have inv: "sys_inv (layout_of k) s" using assms(1) by (rule run_state_inv)
  have "map fst ?q = made s" by simp
  then have len: "length ?q = length (made s)" and mem: "\<forall>b \<in> set ?q. fst b \<in> set (made s)"
    by (metis length_map) (metis \<open>map fst ?q = made s\<close> image_eqI set_map)
  have "36 * length ?q + ?H \<le> end_of ?H ?q" using mem assms(2) by (intro end_of_min) blast
  moreover have "end_of ?H ?q \<le> SHM_SIZE" using task.inv_shm [OF inv] by (simp add: shm_inv_def)
  moreover have "24 \<le> ?H" by (cases k) (simp_all add: layout4_def layout5_def)
  ultimately show ?thesis using len by simp
qed

section \<open>Properties\<close>



text \<open>C3: The consumers together process the blocks in the order they were generated, each once, and
  print for each its number of elements, its least and its greatest value.\<close>
theorem shm_blocks_processed_once_in_order:
  assumes "run_state k fresh s"
  shows "taken s = map summary (take (length (taken s)) (made s))"
  using run_state_inv [OF assms] by (simp add: sys_inv_def data_inv_def)

theorem shm_blocks_processed_once_in_order_witness:
  "\<exists>s. run_state Posix (replicate SHM_SIZE NUL) s \<and> made s = [[0, 0, 0, 0, 0]] \<and> taken s = [(5, 0, 0)]"
proof -
  obtain s where s: "run_state Posix (replicate SHM_SIZE NUL) s" "made s = [[0, 0, 0, 0, 0]]" "length (taken s) = 1"
    using example_taken by blast
  then have "taken s = [(5, 0, 0)]"
    using shm_blocks_processed_once_in_order [OF s(1)] by (simp add: summary_def)
  with s show ?thesis by blast
qed

text \<open>C8: The producer removes the segment, and a consumer leaves, only when every block that was
  generated has been processed.\<close>
theorem shm_nothing_left_behind:
  assumes "run_state k fresh s" "ppc s = Cleanup \<or> (\<exists>i. cpc s i = ConsLeft)"
  shows "taken s = map summary (made s)"
proof -
  have "data_inv (layout_of k) s" using run_state_inv [OF assms(1)] by (simp add: sys_inv_def)
  with assms(2) have "all_taken s" "taken s = map summary (take (length (taken s)) (made s))"
    by (auto simp: data_inv_def)
  then show ?thesis by (simp add: all_taken_def)
qed

theorem shm_nothing_left_behind_witness:
  "\<exists>s. run_state Posix (replicate SHM_SIZE NUL) s \<and> ppc s = Cleanup \<and> taken s = map summary (made s)"
proof -
  obtain s where s: "run_state Posix (replicate SHM_SIZE NUL) s" "ppc s = Cleanup"
    using example_cleanup by blast
  show ?thesis by (rule exI [of _ s], intro conjI s shm_nothing_left_behind [OF s(1)] disjI1)
qed



text \<open>A segment never holds more than 113 blocks, each of 5 to 15 values from 0 to 99.\<close>
theorem shm_blocks_bounded:
  assumes "run_state k fresh s"
  shows "length (made s) \<le> 113 \<and> (\<forall>xs \<in> set (made s). length xs \<in> {5..15} \<and> set xs \<subseteq> {0..99})"
proof -
  have blocks: "\<forall>xs \<in> set (made s). length xs \<in> {5..15} \<and> set xs \<subseteq> {0..99}"
    using run_state_blocks [OF assms] by simp
  moreover have "36 * length (made s) + 24 \<le> SHM_SIZE"
    using blocks by (intro run_state_size [OF assms]) simp
  ultimately show ?thesis by (simp add: SHM_SIZE_def)
qed

theorem shm_blocks_bounded_witness:
  "\<exists>s. run_state Posix (replicate SHM_SIZE NUL) s \<and> made s = [[0, 0, 0, 0, 0]] \<and> length (made s) \<le> 113
     \<and> length [0, 0, 0, 0, 0 :: int] \<in> {5..15}"
proof -
  obtain s where s: "run_state Posix (replicate SHM_SIZE NUL) s" "made s = [[0, 0, 0, 0, 0]]"
    using example_taken by blast
  with shm_blocks_bounded [OF s(1)] show ?thesis by auto
qed

end
