(* ===== verification/ShmIpc.thy ===== *)
theory ShmIpc
  imports ShmSystem
begin

text \<open>
  How the programs of \<^verbatim>\<open>module3/task04\<close> and \<^verbatim>\<open>module3/task05\<close> make, find and remove the segment and
  the semaphore: \<open>init_producer_ipc\<close>, \<open>cleanup_producer_ipc\<close>, \<open>connect_consumer_ipc\<close> and
  \<open>disconnect_consumer_ipc\<close> of each. Which system calls fail is an input. The properties say what
  each function leaves behind on every path.
\<close>

section \<open>State\<close>

text \<open>The objects of the kernel, and what one process holds of them: bytes mapped, descriptors, handles.\<close>

record ipc =
  shm_seg :: "mem option"
  sem_val :: "nat option"

record handles =
  mapped :: nat
  fd_open :: bool
  sem_handle :: bool

definition no_ipc :: ipc where "no_ipc = \<lparr>shm_seg = None, sem_val = None\<rparr>"
definition no_handles :: handles where "no_handles = \<lparr>mapped = 0, fd_open = False, sem_handle = False\<rparr>"

section \<open>System V\<close>

text \<open>
  \<open>init_producer_ipc\<close> of task 4: old objects of the key go first. The booleans are whether
  \<open>shmget\<close>, \<open>shmat\<close>, \<open>semget\<close> and \<open>semctl (SETVAL)\<close> succeed, \<open>fresh\<close> the bytes of a new segment.
\<close>

definition init_producer_ipc4 ::
  "bool \<Rightarrow> bool \<Rightarrow> bool \<Rightarrow> bool \<Rightarrow> mem \<Rightarrow> ipc \<times> handles \<Rightarrow> (ipc \<times> handles) \<times> bool" where
  "init_producer_ipc4 shmget_ok shmat_ok semget_ok setval_ok fresh = (\<lambda>(k, h).
     let k = k\<lparr>shm_seg := None, sem_val := None\<rparr> in
     if \<not> shmget_ok then ((k, h), False) else
     let k = k\<lparr>shm_seg := Some fresh\<rparr> in
     if \<not> shmat_ok then ((k\<lparr>shm_seg := None\<rparr>, h), False) else
     let h = h\<lparr>mapped := SHM_SIZE\<rparr> in
     if \<not> semget_ok then ((k\<lparr>shm_seg := None\<rparr>, h\<lparr>mapped := 0\<rparr>), False) else
     let k = k\<lparr>sem_val := Some 0\<rparr> in
     if \<not> setval_ok then ((k\<lparr>sem_val := None, shm_seg := None\<rparr>, h\<lparr>mapped := 0\<rparr>), False) else
     ((k\<lparr>sem_val := Some 1, shm_seg := init_header4 fresh\<rparr>, h), True))"

definition cleanup_producer_ipc4 :: "ipc \<times> handles \<Rightarrow> ipc \<times> handles" where
  "cleanup_producer_ipc4 = (\<lambda>(k, h). (k\<lparr>sem_val := None, shm_seg := None\<rparr>, h\<lparr>mapped := 0\<rparr>))"

text \<open>\<open>connect_consumer_ipc\<close>: \<open>shmget\<close> and \<open>semget\<close> find what exists, \<open>shmat\<close> may fail.\<close>

definition connect_consumer_ipc4 :: "bool \<Rightarrow> ipc \<Rightarrow> handles \<Rightarrow> handles \<times> bool" where
  "connect_consumer_ipc4 shmat_ok k h =
     (if shm_seg k = None then (h, False) else
      if \<not> shmat_ok then (h, False) else
      let h = h\<lparr>mapped := SHM_SIZE\<rparr> in
      if sem_val k = None then (h\<lparr>mapped := 0\<rparr>, False) else (h, True))"

definition disconnect_consumer_ipc4 :: "handles \<Rightarrow> handles" where
  "disconnect_consumer_ipc4 h = h\<lparr>mapped := 0\<rparr>"

section \<open>POSIX\<close>

text \<open>
  \<open>init_producer_ipc\<close> of task 5: \<open>shm_open\<close>, \<open>ftruncate\<close>, \<open>mmap\<close>, \<open>sem_open\<close>. A failure closes
  the descriptor and unmaps, but the name of the segment stays.
\<close>

definition init_producer_ipc5 ::
  "bool \<Rightarrow> bool \<Rightarrow> bool \<Rightarrow> bool \<Rightarrow> mem \<Rightarrow> ipc \<times> handles \<Rightarrow> (ipc \<times> handles) \<times> bool" where
  "init_producer_ipc5 shm_open_ok ftruncate_ok mmap_ok sem_open_ok fresh = (\<lambda>(k, h).
     let k = k\<lparr>shm_seg := None, sem_val := None\<rparr> in
     if \<not> shm_open_ok then ((k, h), False) else
     let k = k\<lparr>shm_seg := Some []\<rparr>; h = h\<lparr>fd_open := True\<rparr> in
     if \<not> ftruncate_ok then ((k, h\<lparr>fd_open := False\<rparr>), False) else
     let k = k\<lparr>shm_seg := Some fresh\<rparr> in
     if \<not> mmap_ok then ((k, h\<lparr>fd_open := False\<rparr>), False) else
     let h = h\<lparr>mapped := SHM_SIZE\<rparr> in
     if \<not> sem_open_ok then ((k, h\<lparr>mapped := 0, fd_open := False\<rparr>), False) else
     ((k\<lparr>sem_val := Some 1, shm_seg := init_header5 fresh\<rparr>, h\<lparr>sem_handle := True\<rparr>), True))"

text \<open>Unmapping takes the size from the header; \<open>None\<close> is a read outside the segment.\<close>

definition unmap_by_header :: "ipc \<Rightarrow> handles \<Rightarrow> handles option" where
  "unmap_by_header k h = do {
     m \<leftarrow> shm_seg k;
     n \<leftarrow> load_size m 0;
     Some (h\<lparr>sem_handle := False, mapped := mapped h - n, fd_open := False\<rparr>) }"

definition cleanup_producer_ipc5 :: "ipc \<times> handles \<Rightarrow> (ipc \<times> handles) option" where
  "cleanup_producer_ipc5 = (\<lambda>(k, h). do {
     h \<leftarrow> unmap_by_header k h;
     Some (k\<lparr>sem_val := None, shm_seg := None\<rparr>, h) })"

text \<open>\<open>connect_consumer_ipc\<close> maps as many bytes as \<open>fstat\<close> reports; mapping none fails.\<close>

definition connect_consumer_ipc5 :: "bool \<Rightarrow> bool \<Rightarrow> ipc \<Rightarrow> handles \<Rightarrow> handles \<times> bool" where
  "connect_consumer_ipc5 fstat_ok mmap_ok k h =
     (case shm_seg k of
        None \<Rightarrow> (h, False)
      | Some m \<Rightarrow>
          let h = h\<lparr>fd_open := True\<rparr> in
          if \<not> fstat_ok then (h\<lparr>fd_open := False\<rparr>, False) else
          if \<not> mmap_ok \<or> m = [] then (h\<lparr>fd_open := False\<rparr>, False) else
          let h = h\<lparr>mapped := length m\<rparr> in
          if sem_val k = None then (h\<lparr>mapped := 0, fd_open := False\<rparr>, False)
          else (h\<lparr>sem_handle := True\<rparr>, True))"

definition disconnect_consumer_ipc5 :: "ipc \<Rightarrow> handles \<Rightarrow> handles option" where
  "disconnect_consumer_ipc5 k h = unmap_by_header k h"

section \<open>The consumers' programs\<close>

text \<open>\<open>main\<close> of each consumer: what the process holds at its end, and the status. \<open>k'\<close> is the state of the kernel
  when \<open>run_consumer_loop\<close> returns.\<close>

definition consumer_main4 :: "bool \<Rightarrow> bool \<Rightarrow> ipc \<Rightarrow> handles \<times> int" where
  "consumer_main4 ftok_ok shmat_ok k =
     (if \<not> ftok_ok then (no_handles, 1)
      else let (h, ok) = connect_consumer_ipc4 shmat_ok k no_handles in
        if \<not> ok then (h, 1) else (disconnect_consumer_ipc4 h, 0))"

definition consumer_main5 :: "bool \<Rightarrow> bool \<Rightarrow> ipc \<Rightarrow> ipc \<Rightarrow> (handles \<times> int) option" where
  "consumer_main5 fstat_ok mmap_ok k k' =
     (let (h, ok) = connect_consumer_ipc5 fstat_ok mmap_ok k no_handles in
      if \<not> ok then Some (h, 1) else do { h \<leftarrow> disconnect_consumer_ipc5 k' h; Some (h, 0) })"

section \<open>What is left behind\<close>

lemma shm_inv_limit5: "shm_inv layout5 m lo bs d \<Longrightarrow> load_size m 0 = Some SHM_SIZE \<and> length m = SHM_SIZE"
  by (simp add: shm_inv_def layout5_def)

text \<open>When \<open>init_producer_ipc\<close> of task 4 fails, at whatever call, no object stays in the kernel
  and the process keeps no mapping.\<close>
theorem sysv_init_failure_leaves_nothing:
  assumes "init_producer_ipc4 a b c d fresh (k, no_handles) = (r, False)"
  shows "r = (no_ipc, no_handles)"
  using assms
  by (cases a; cases b; cases c; cases d) (auto simp: init_producer_ipc4_def no_ipc_def no_handles_def)

theorem sysv_init_failure_leaves_nothing_witness:
  "init_producer_ipc4 True True False True [] (\<lparr>shm_seg = Some [], sem_val = Some 7\<rparr>, no_handles)
     = ((no_ipc, no_handles), False)"
proof -
  obtain r where r: "init_producer_ipc4 True True False True [] (\<lparr>shm_seg = Some [], sem_val = Some 7\<rparr>, no_handles) = (r, False)"
    by (simp add: init_producer_ipc4_def)
  with sysv_init_failure_leaves_nothing [OF r] show ?thesis by simp
qed

text \<open>When \<open>init_producer_ipc\<close> of task 5 fails after \<open>shm_open\<close> made the segment, the process keeps
  nothing open, but the named segment stays in the kernel, and nobody removes it until the next start.\<close>
theorem posix_init_failure_leaks_segment:
  assumes "init_producer_ipc5 True b c d fresh (k, no_handles) = ((k', h'), False)"
  shows "h' = no_handles \<and> shm_seg k' \<noteq> None \<and> sem_val k' = None"
  using assms by (cases b; cases c; cases d) (auto simp: init_producer_ipc5_def no_handles_def)

theorem posix_init_failure_leaks_segment_witness:
  "\<exists>k' h'. init_producer_ipc5 True True False True [] (no_ipc, no_handles) = ((k', h'), False)
     \<and> h' = no_handles \<and> shm_seg k' \<noteq> None"
proof -
  obtain k' h' where r: "init_producer_ipc5 True True False True [] (no_ipc, no_handles) = ((k', h'), False)"
    by (simp add: init_producer_ipc5_def)
  with posix_init_failure_leaks_segment [OF r] show ?thesis by blast
qed

text \<open>A consumer of task 5 that connects to a segment whose header states its size, and later
  disconnects, keeps no mapping, no descriptor and no semaphore; one that fails to connect does not either.\<close>
theorem posix_consumer_releases_all:
  assumes "run_state Posix fresh s" "shm_seg k = Some (seg s)"
  shows "case connect_consumer_ipc5 a b k no_handles of
     (h, ok) \<Rightarrow> if ok then disconnect_consumer_ipc5 k h = Some no_handles else h = no_handles"
proof -
  have "load_size (seg s) 0 = Some SHM_SIZE \<and> length (seg s) = SHM_SIZE"
    using task.inv_shm [OF run_state_inv [OF assms(1)]] shm_inv_limit5 by simp
  then show ?thesis
    using assms(2)
    by (auto simp: connect_consumer_ipc5_def disconnect_consumer_ipc5_def unmap_by_header_def no_handles_def Let_def
        split: if_splits)
qed

theorem posix_consumer_releases_all_witness:
  "\<exists>s. run_state Posix (replicate SHM_SIZE NUL) s \<and>
     (case connect_consumer_ipc5 True True \<lparr>shm_seg = Some (seg s), sem_val = Some 1\<rparr> no_handles of
       (h, ok) \<Rightarrow> if ok then disconnect_consumer_ipc5 \<lparr>shm_seg = Some (seg s), sem_val = Some 1\<rparr> h = Some no_handles
         else h = no_handles)"
proof -
  obtain s where s: "run_state Posix (replicate SHM_SIZE NUL) s" using run_state_start by blast
  show ?thesis
    by (rule exI [of _ s], intro conjI s posix_consumer_releases_all [OF s]) simp
qed

text \<open>A consumer of task 4 holds nothing at its end, and its status says whether it found segment and semaphore.\<close>
theorem sysv_consumer_main_clean:
  "fst (consumer_main4 ftok_ok shmat_ok k) = no_handles
   \<and> (snd (consumer_main4 ftok_ok shmat_ok k) = 0 \<longleftrightarrow> ftok_ok \<and> shmat_ok \<and> shm_seg k \<noteq> None \<and> sem_val k \<noteq> None)"
  by (auto simp: consumer_main4_def connect_consumer_ipc4_def disconnect_consumer_ipc4_def no_handles_def Let_def)

end
