(* ===== verification/MemWp.thy ===== *)
theory MemWp
  imports Mem
begin

text \<open>
  A weakest-precondition calculus for straight-line code on a memory segment. \<open>cells\<close> lists what is known of
  the segment as cells at offsets; a store puts its cell in front and drops those it overlaps, a load looks
  its cell up. \<open>wp\<close> also says that no access leaves the segment.
\<close>

datatype cell = SizeC nat | IntC int

fun width :: "cell \<Rightarrow> nat" where
  "width (SizeC v) = 8"
| "width (IntC v) = 4"

fun cell_at :: "mem \<Rightarrow> nat \<times> cell \<Rightarrow> bool" where
  "cell_at m (a, SizeC v) \<longleftrightarrow> load_size m a = Some v"
| "cell_at m (a, IntC v) \<longleftrightarrow> load_int m a = Some v"

definition cells :: "mem \<Rightarrow> (nat \<times> cell) list \<Rightarrow> bool" where
  "cells m cs \<longleftrightarrow> list_all (cell_at m) cs"

definition keep :: "nat \<Rightarrow> nat \<Rightarrow> (nat \<times> cell) list \<Rightarrow> (nat \<times> cell) list" where
  "keep a n cs = filter (\<lambda>(b, c). disjoint a n b (width c)) cs"

definition wp :: "'a option \<Rightarrow> ('a \<Rightarrow> bool) \<Rightarrow> bool" where
  "wp c Q \<longleftrightarrow> (\<exists>r. c = Some r \<and> Q r)"

lemma cells_Nil: "cells m []"
  by (simp add: cells_def)

lemma keep_simps [simp]:
  "keep a n [] = []"
  "keep a n ((b, c) # cs) = (if disjoint a n b (width c) then (b, c) # keep a n cs else keep a n cs)"
  by (simp_all add: keep_def)

lemma cells_keep_size:
  assumes "store_size m a v = Some m'" "cells m cs"
  shows "cells m' (keep a 8 cs)"
proof -
  have "cell_at m' (b, c)" if "(b, c) \<in> set cs" "disjoint a 8 b (width c)" for b c
    using assms that
    by (cases c) (auto simp: cells_def list_all_iff load_size_store_size_disjoint load_int_store_size_disjoint)
  then show ?thesis by (auto simp: cells_def keep_def list_all_iff)
qed

lemma cells_keep_int:
  assumes "store_int m a v = Some m'" "cells m cs"
  shows "cells m' (keep a 4 cs)"
proof -
  have "cell_at m' (b, c)" if "(b, c) \<in> set cs" "disjoint a 4 b (width c)" for b c
    using assms that
    by (cases c) (auto simp: cells_def list_all_iff load_size_store_int_disjoint load_int_store_int_disjoint)
  then show ?thesis by (auto simp: cells_def keep_def list_all_iff)
qed

lemma wp_Some: "Q x \<Longrightarrow> wp (Some x) Q"
  by (simp add: wp_def)

lemma wp_bind: "wp c (\<lambda>x. wp (f x) Q) \<Longrightarrow> wp (Option.bind c f) Q"
  by (auto simp: wp_def)

lemma wp_conseq: "wp c P \<Longrightarrow> (\<And>x. P x \<Longrightarrow> Q x) \<Longrightarrow> wp c Q"
  by (auto simp: wp_def)

lemma wp_store_size:
  assumes "cells m cs" "a + 8 \<le> length m" "v < 2 ^ 64"
    and "\<And>m'. length m' = length m \<Longrightarrow> cells m' ((a, SizeC v) # keep a 8 cs) \<Longrightarrow> Q m'"
  shows "wp (store_size m a v) Q"
proof -
  obtain m' where m': "store_size m a v = Some m'" using store_size_Some [OF assms(2)] by blast
  moreover have "cells m' ((a, SizeC v) # keep a 8 cs)"
    using cells_keep_size [OF m' assms(1)] load_size_store_size [OF m' assms(3)] by (simp add: cells_def)
  ultimately show ?thesis using assms(4) [OF store_size_length [OF m']] by (simp add: wp_def)
qed

lemma wp_store_int:
  assumes "cells m cs" "a + 4 \<le> length m" "to_int32 v = v"
    and "\<And>m'. length m' = length m \<Longrightarrow> cells m' ((a, IntC v) # keep a 4 cs) \<Longrightarrow> Q m'"
  shows "wp (store_int m a v) Q"
proof -
  obtain m' where m': "store_int m a v = Some m'" using store_int_Some [OF assms(2)] by blast
  moreover have "cells m' ((a, IntC v) # keep a 4 cs)"
    using cells_keep_int [OF m' assms(1)] load_int_store_int [OF m'] assms(3) by (simp add: cells_def)
  ultimately show ?thesis using assms(4) [OF store_int_length [OF m']] by (simp add: wp_def)
qed

lemma wp_load_size: "cells m cs \<Longrightarrow> map_of cs a = Some (SizeC v) \<Longrightarrow> Q v \<Longrightarrow> wp (load_size m a) Q"
  by (auto simp: wp_def cells_def list_all_iff dest!: map_of_SomeD)

lemma wp_load_int: "cells m cs \<Longrightarrow> map_of cs a = Some (IntC v) \<Longrightarrow> Q v \<Longrightarrow> wp (load_int m a) Q"
  by (auto simp: wp_def cells_def list_all_iff dest!: map_of_SomeD)

lemma cells_load_size: "cells m cs \<Longrightarrow> map_of cs a = Some (SizeC v) \<Longrightarrow> load_size m a = Some v"
  by (auto simp: cells_def list_all_iff dest!: map_of_SomeD)

lemma cells_load_int: "cells m cs \<Longrightarrow> map_of cs a = Some (IntC v) \<Longrightarrow> load_int m a = Some v"
  by (auto simp: cells_def list_all_iff dest!: map_of_SomeD)

lemma load_ints_Some: "a + 4 * n \<le> length m \<Longrightarrow> \<exists>xs. load_ints m a n = Some xs \<and> length xs = n"
proof (induction n arbitrary: a)
  case (Suc n)
  from Suc.prems obtain x where "load_int m a = Some x" by (cases "load_int m a") (auto simp: load_int_def load_def)
  with Suc.IH [of "a + 4"] Suc.prems show ?case by auto
qed simp

end
