(* ===== verification/ShmTests.thy ===== *)
theory ShmTests
  imports ShmIpc MemWp
begin

text \<open>
  The test programs \<^verbatim>\<open>module3/task04/tester.c\<close> and \<^verbatim>\<open>module3/task05/tester.c\<close>. They write headers and blocks
  by hand and repeat steps of the producer and of the consumer. \<open>SysV\<close> is the program of task 4, \<open>Posix\<close> that
  of task 5. A test gives the outcomes of its assertions; those behind the first that fails are not reached.
\<close>

section \<open>Counting\<close>

text \<open>\<open>ASSERT_TRUE\<close> counts, and leaves the test when the condition fails; so does the function below.\<close>

fun count_asserts :: "bool list \<Rightarrow> nat \<times> nat \<Rightarrow> nat \<times> nat" where
  "count_asserts [] c = c"
| "count_asserts (b # bs) (run, failed) = (if b then count_asserts bs (run + 1, failed) else (run + 1, failed + 1))"

section \<open>Objects of the kernel\<close>

definition force_cleanup_ipc4 :: "bool \<Rightarrow> ipc \<Rightarrow> ipc" where
  "force_cleanup_ipc4 ftok_ok k = (if ftok_ok then no_ipc else k)"

definition force_cleanup_ipc5 :: "ipc \<Rightarrow> ipc" where
  "force_cleanup_ipc5 k = no_ipc"

definition test_key_generation :: "bool \<Rightarrow> bool list" where
  "test_key_generation ftok_ok = [ftok_ok]"

text \<open>The booleans are whether the three calls succeed; a test that ends early leaves its objects.\<close>

definition test_ipc_initialization4 :: "bool \<Rightarrow> bool \<Rightarrow> bool \<Rightarrow> mem \<Rightarrow> ipc \<Rightarrow> ipc \<times> bool list" where
  "test_ipc_initialization4 shmget_ok shmat_ok semget_ok fresh k =
     (let k = force_cleanup_ipc4 True k in
      if \<not> shmget_ok then (k, [False]) else
      let k = k\<lparr>shm_seg := Some fresh\<rparr> in
      if \<not> shmat_ok then (k, [True, False]) else
      if \<not> semget_ok then (k, [True, True, False]) else
      (k\<lparr>shm_seg := None, sem_val := None\<rparr>, [True, True, True]))"

definition test_ipc_initialization5 :: "bool \<Rightarrow> bool \<Rightarrow> bool \<Rightarrow> mem \<Rightarrow> ipc \<Rightarrow> ipc \<times> bool list" where
  "test_ipc_initialization5 shm_open_ok mmap_ok sem_open_ok fresh k =
     (let k = force_cleanup_ipc5 k in
      if \<not> shm_open_ok then (k, [False]) else
      let k = k\<lparr>shm_seg := Some fresh\<rparr> in
      if \<not> mmap_ok then (k, [True, False]) else
      if \<not> sem_open_ok then (k, [True, True, False]) else
      (force_cleanup_ipc5 (k\<lparr>sem_val := Some 1\<rparr>), [True, True, True]))"

section \<open>Semaphores\<close>

text \<open>\<open>semop\<close> with -1, \<open>sem_wait\<close> and \<open>sem_trywait\<close>: done, refused with \<open>EAGAIN\<close>, or waiting.\<close>

datatype sem_result = Sem_done nat | Sem_again | Sem_waits

definition sem_down :: "bool \<Rightarrow> nat \<Rightarrow> sem_result" where
  "sem_down nowait v = (if 0 < v then Sem_done (v - 1) else if nowait then Sem_again else Sem_waits)"

definition sem_up :: "nat \<Rightarrow> nat" where
  "sem_up v = v + 1"

definition test_semaphore4 :: "nat \<Rightarrow> bool list option" where
  "test_semaphore4 v =
     (case sem_down False v of
        Sem_done v \<Rightarrow>
          (case sem_down True v of
             Sem_again \<Rightarrow> Some [True, True, True, sem_up v = 1]
           | _ \<Rightarrow> Some [True, False])
      | Sem_again \<Rightarrow> Some [False]
      | Sem_waits \<Rightarrow> None)"

definition test_semaphore5 :: "nat \<Rightarrow> bool list option" where
  "test_semaphore5 v =
     (case sem_down False v of
        Sem_done v \<Rightarrow>
          (case sem_down True v of
             Sem_again \<Rightarrow> Some [True, True, True, True]
           | _ \<Rightarrow> Some [True, True, False])
      | Sem_again \<Rightarrow> Some [True, False]
      | Sem_waits \<Rightarrow> None)"

section \<open>Linking blocks\<close>

text \<open>The first assignment of the tests of task 5.\<close>

definition set_shm_size :: "ipc_kind \<Rightarrow> mem \<Rightarrow> mem option" where
  "set_shm_size K m = (case K of SysV \<Rightarrow> Some m | Posix \<Rightarrow> store_size m 0 SHM_SIZE)"

text \<open>Two blocks, of 3 and of 4 elements; their offsets and the segment.\<close>

definition link_blocks :: "ipc_kind \<Rightarrow> mem \<Rightarrow> (nat \<times> nat \<times> mem) option" where
  "link_blocks K m =
     (let L = layout_of K in do {
        m \<leftarrow> set_shm_size K m;
        m \<leftarrow> store_size m (o_first L) 0;
        m \<leftarrow> store_size m (o_free L) (header_size L);
        offset1 \<leftarrow> load_size m (o_free L);
        m \<leftarrow> store_size m offset1 3;
        m \<leftarrow> store_size m (offset1 + 8) 0;
        m \<leftarrow> store_size m (o_first L) offset1;
        free \<leftarrow> load_size m (o_free L);
        m \<leftarrow> store_size m (o_free L) (size_add free (block_header + 3 * 4));
        offset2 \<leftarrow> load_size m (o_free L);
        m \<leftarrow> store_size m offset2 4;
        m \<leftarrow> store_size m (offset2 + 8) 0;
        m \<leftarrow> store_size m (offset1 + 8) offset2;
        free \<leftarrow> load_size m (o_free L);
        m \<leftarrow> store_size m (o_free L) (size_add free (block_header + 4 * 4));
        Some (offset1, offset2, m) })"

definition test_block_linking :: "ipc_kind \<Rightarrow> mem \<Rightarrow> bool list option" where
  "test_block_linking K m = do {
     (offset1, offset2, m) \<leftarrow> link_blocks K m;
     head \<leftarrow> load_size m (o_first (layout_of K));
     next1 \<leftarrow> load_size m (head + 8);
     next2 \<leftarrow> load_size m (next1 + 8);
     Some [head = offset1, next1 = offset2, next2 = 0] }"

section \<open>Running out of memory\<close>

definition exhaustion_segment :: "ipc_kind \<Rightarrow> mem \<Rightarrow> mem option" where
  "exhaustion_segment K m =
     (let L = layout_of K in do {
        m \<leftarrow> (case K of SysV \<Rightarrow> store_size m (o_first L) 0 | Posix \<Rightarrow> set_shm_size K m);
        m \<leftarrow> store_size m (o_free L) (SHM_SIZE - 20);
        store_int m (o_done L) 0 })"

definition try_block :: "ipc_kind \<Rightarrow> mem \<Rightarrow> (bool \<times> mem) option" where
  "try_block K m =
     (let L = layout_of K; block_size = block_header + 5 * 4 in do {
        free \<leftarrow> load_size m (o_free L);
        limit \<leftarrow> seg_limit L m;
        if limit < size_add free block_size then do { m \<leftarrow> store_int m (o_done L) 1; Some (True, m) }
        else Some (False, m) })"

definition test_memory_exhaustion :: "ipc_kind \<Rightarrow> mem \<Rightarrow> bool list option" where
  "test_memory_exhaustion K m = do {
     m \<leftarrow> exhaustion_segment K m;
     (space_exhausted, m) \<leftarrow> try_block K m;
     d \<leftarrow> load_int m (o_done (layout_of K));
     Some [space_exhausted, d = 1] }"

section \<open>Processing a block\<close>

definition consumer_segment :: "ipc_kind \<Rightarrow> mem \<Rightarrow> mem option" where
  "consumer_segment K m =
     (let L = layout_of K; b = header_size L in do {
        m \<leftarrow> set_shm_size K m;
        m \<leftarrow> store_size m (o_free L) (header_size L);
        m \<leftarrow> store_size m (o_first L) (header_size L);
        m \<leftarrow> store_size m b 5;
        m \<leftarrow> store_size m (b + 8) 0;
        m \<leftarrow> store_int m (b + 16) 10;
        m \<leftarrow> store_int m (b + 20) (- 42);
        m \<leftarrow> store_int m (b + 24) 100;
        m \<leftarrow> store_int m (b + 28) 0;
        store_int m (b + 32) 42 })"

text \<open>The loop of the test is the one of the consumer.\<close>

definition process_block :: "ipc_kind \<Rightarrow> mem \<Rightarrow> (int \<times> int \<times> mem) option" where
  "process_block K m = do {
     b \<leftarrow> load_size m (o_first (layout_of K));
     n \<leftarrow> load_size m b;
     x0 \<leftarrow> load_int m (b + 16);
     (mn, mx) \<leftarrow> min_max m (b + 16) 0 n x0 x0;
     m \<leftarrow> store_size m b 0;
     Some (mn, mx, m) }"

definition test_consumer_processing_logic :: "ipc_kind \<Rightarrow> mem \<Rightarrow> bool list option" where
  "test_consumer_processing_logic K m = do {
     m \<leftarrow> consumer_segment K m;
     (mn, mx, m) \<leftarrow> process_block K m;
     b \<leftarrow> load_size m (o_first (layout_of K));
     n \<leftarrow> load_size m b;
     Some [mn = - 42, mx = 100, n = 0] }"

section \<open>The programs\<close>

text \<open>\<open>main\<close> when the system calls succeed: the assertions and the failures counted. \<open>fresh i\<close> is the segment of test \<open>i\<close>.\<close>

definition tester_main4 :: "(nat \<Rightarrow> mem) \<Rightarrow> (nat \<times> nat) option" where
  "tester_main4 fresh = do {
     let k = test_key_generation True;
     let i = snd (test_ipc_initialization4 True True True (fresh 0) no_ipc);
     s \<leftarrow> test_semaphore4 1;
     l \<leftarrow> test_block_linking SysV (fresh 1);
     e \<leftarrow> test_memory_exhaustion SysV (fresh 2);
     p \<leftarrow> test_consumer_processing_logic SysV (fresh 3);
     Some (fold count_asserts [k, i, s, l, e, p] (0, 0)) }"

definition tester_main5 :: "(nat \<Rightarrow> mem) \<Rightarrow> (nat \<times> nat) option" where
  "tester_main5 fresh = do {
     let i = snd (test_ipc_initialization5 True True True (fresh 0) no_ipc);
     s \<leftarrow> test_semaphore5 1;
     l \<leftarrow> test_block_linking Posix (fresh 1);
     e \<leftarrow> test_memory_exhaustion Posix (fresh 2);
     p \<leftarrow> test_consumer_processing_logic Posix (fresh 3);
     Some (fold count_asserts [i, s, l, e, p] (0, 0)) }"

section \<open>What the tests find\<close>

lemmas layouts = layout4_def layout5_def SHM_SIZE_def block_header_def size_add_def disjoint_def

lemmas wp_rules = wp_bind wp_store_size wp_store_int wp_load_size wp_load_int

lemma link_blocks_wp:
  assumes "length m = SHM_SIZE" and L: "L = layout_of K"
  shows "wp (link_blocks K m) (\<lambda>(a, b, m'). a = header_size L \<and> b = a + 28 \<and> length m' = SHM_SIZE
      \<and> cells m' [(o_first L, SizeC a), (o_free L, SizeC (a + 60)), (a, SizeC 3), (a + 8, SizeC b), (b, SizeC 4), (b + 8, SizeC 0)])"
  unfolding link_blocks_def Let_def set_shm_size_def L
  apply (cases K; simp add: layouts assms(1))
   apply (assumption | rule wp_rules wp_Some | rule cells_Nil | simp add: layouts assms(1))+
   apply (simp add: cells_def)
  apply (assumption | rule wp_rules wp_Some | rule cells_Nil | simp add: layouts assms(1))+
  apply (simp add: cells_def)
  done

lemma exhaustion_segment_wp:
  assumes "length m = SHM_SIZE" and L: "L = layout_of K"
  shows "wp (exhaustion_segment K m) (\<lambda>m'. length m' = SHM_SIZE \<and> seg_limit L m' = Some SHM_SIZE
      \<and> cells m' [(o_free L, SizeC (SHM_SIZE - 20)), (o_done L, IntC 0)])"
  unfolding exhaustion_segment_def Let_def set_shm_size_def L
  apply (cases K; simp add: layouts assms(1))
   apply (assumption | rule wp_rules wp_Some | rule cells_Nil | simp add: layouts assms(1))+
   apply (simp add: cells_def)
  apply (assumption | rule wp_rules wp_Some | rule cells_Nil | simp add: layouts assms(1))+
  apply (simp add: cells_def)
  done

lemma consumer_segment_wp:
  assumes "length m = SHM_SIZE" and L: "L = layout_of K"
  shows "wp (consumer_segment K m) (\<lambda>m'. length m' = SHM_SIZE
      \<and> cells m' [(o_first L, SizeC (header_size L)), (header_size L, SizeC 5), (header_size L + 8, SizeC 0),
          (header_size L + 16, IntC 10), (header_size L + 20, IntC (- 42)), (header_size L + 24, IntC 100),
          (header_size L + 28, IntC 0), (header_size L + 32, IntC 42)])"
  unfolding consumer_segment_def Let_def set_shm_size_def L
  apply (cases K; simp add: layouts assms(1))
   apply (assumption | rule wp_rules wp_Some | rule cells_Nil | simp add: layouts assms(1))+
   apply (simp add: cells_def)
  apply (assumption | rule wp_rules wp_Some | rule cells_Nil | simp add: layouts assms(1))+
  apply (simp add: cells_def)
  done

text \<open>The segments with what is known of them, and the loop of the consumer on the block.\<close>

lemma link_blocks_ok:
  assumes "length fresh = SHM_SIZE"
  obtains m where "link_blocks K fresh = Some (header_size (layout_of K), header_size (layout_of K) + 28, m)" "length m = SHM_SIZE"
    "cells m [(o_first (layout_of K), SizeC (header_size (layout_of K))), (o_free (layout_of K), SizeC (header_size (layout_of K) + 60)),
       (header_size (layout_of K), SizeC 3), (header_size (layout_of K) + 8, SizeC (header_size (layout_of K) + 28)),
       (header_size (layout_of K) + 28, SizeC 4), (36 + header_size (layout_of K), SizeC 0)]"
  using link_blocks_wp [OF assms refl, of K] by (auto simp: wp_def)

lemma exhaustion_segment_ok:
  assumes "length fresh = SHM_SIZE"
  obtains m m' where "exhaustion_segment K fresh = Some m" "load_size m (o_free (layout_of K)) = Some (SHM_SIZE - 20)"
    "seg_limit (layout_of K) m = Some SHM_SIZE" "store_int m (o_done (layout_of K)) 1 = Some m'"
proof -
  obtain m where m: "exhaustion_segment K fresh = Some m" "length m = SHM_SIZE" "seg_limit (layout_of K) m = Some SHM_SIZE"
      "load_size m (o_free (layout_of K)) = Some (SHM_SIZE - 20)"
    using exhaustion_segment_wp [OF assms refl, of K] by (auto simp: wp_def cells_def)
  moreover obtain m' where "store_int m (o_done (layout_of K)) 1 = Some m'"
    using store_int_Some [of "o_done (layout_of K)" m 1] m(2) by (cases K) (auto simp: layouts)
  ultimately show ?thesis using that by blast
qed

lemma consumer_segment_ok:
  assumes "length fresh = SHM_SIZE"
  obtains m m' where "consumer_segment K fresh = Some m" "load_size m (o_first (layout_of K)) = Some (header_size (layout_of K))"
    "load_size m (header_size (layout_of K)) = Some 5" "load_int m (header_size (layout_of K) + 16) = Some 10"
    "min_max m (header_size (layout_of K) + 16) 0 5 10 10 = Some (- 42, 100)" "store_size m (header_size (layout_of K)) 0 = Some m'"
    "load_size m' (o_first (layout_of K)) = Some (header_size (layout_of K))"
proof -
  obtain m where m: "consumer_segment K fresh = Some m" "length m = SHM_SIZE"
      "cells m [(o_first (layout_of K), SizeC (header_size (layout_of K))), (header_size (layout_of K), SizeC 5),
          (header_size (layout_of K) + 8, SizeC 0), (header_size (layout_of K) + 16, IntC 10),
          (header_size (layout_of K) + 20, IntC (- 42)), (header_size (layout_of K) + 24, IntC 100),
          (header_size (layout_of K) + 28, IntC 0), (header_size (layout_of K) + 32, IntC 42)]"
    using consumer_segment_wp [OF assms refl, of K] by (auto simp: wp_def)
  then have "min_max m (header_size (layout_of K) + 16) 0 5 10 10 = Some (- 42, 100)"
    by (cases K) (simp_all add: cells_def layouts numeral_eq_Suc)
  moreover obtain m' where m': "store_size m (header_size (layout_of K)) 0 = Some m'"
    using store_size_Some [of "header_size (layout_of K)" m 0] m(2) by (cases K) (auto simp: layouts)
  moreover have "load_size m' (o_first (layout_of K)) = load_size m (o_first (layout_of K))"
    using load_size_store_size_disjoint [OF m', of "o_first (layout_of K)"] by (cases K) (simp_all add: layouts)
  ultimately show ?thesis using m by (intro that [of m m']) (simp_all add: cells_def)
qed

lemma exhausted: "SHM_SIZE < size_add (SHM_SIZE - 20) (block_header + (5 + r mod 11) * 4)"
proof -
  have "r mod 11 < 11" by simp
  then show ?thesis by (simp add: SHM_SIZE_def size_add_def block_header_def)
qed






lemma linking_test: "length fresh = SHM_SIZE \<Longrightarrow> test_block_linking K fresh = Some [True, True, True]"
  by (rule link_blocks_ok [of fresh K]) (simp_all add: test_block_linking_def cells_def)

lemma exhaustion_test:
  assumes "length fresh = SHM_SIZE"
  shows "test_memory_exhaustion K fresh = Some [True, True]"
proof -
  obtain m m' where m: "exhaustion_segment K fresh = Some m" "load_size m (o_free (layout_of K)) = Some (SHM_SIZE - 20)"
    "seg_limit (layout_of K) m = Some SHM_SIZE" "store_int m (o_done (layout_of K)) 1 = Some m'"
    by (rule exhaustion_segment_ok [OF assms])
  with exhausted [of 0] load_int_store_int [OF m(4)] show ?thesis
    by (simp add: test_memory_exhaustion_def try_block_def Let_def)
qed

lemma consumer_test:
  assumes "length fresh = SHM_SIZE"
  shows "test_consumer_processing_logic K fresh = Some [True, True, True]"
proof -
  obtain m m' where "consumer_segment K fresh = Some m" "load_size m (o_first (layout_of K)) = Some (header_size (layout_of K))"
    "load_size m (header_size (layout_of K)) = Some 5" "load_int m (header_size (layout_of K) + 16) = Some 10"
    "min_max m (header_size (layout_of K) + 16) 0 5 10 10 = Some (- 42, 100)" "store_size m (header_size (layout_of K)) 0 = Some m'"
    "load_size m' (o_first (layout_of K)) = Some (header_size (layout_of K))"
    by (rule consumer_segment_ok [OF assms])
  then show ?thesis
    using load_size_store_size [of m "header_size (layout_of K)" 0 m']
    by (simp add: test_consumer_processing_logic_def process_block_def)
qed

text \<open>Whatever bytes the new segments have, when the system calls succeed the two programs count 16 and 15 assertions,
  and none fails; the semaphore that is held refuses a second process that does not wait.\<close>
theorem shm_tests_pass:
  assumes "\<And>i. length (fresh i) = SHM_SIZE"
  shows "tester_main4 fresh = Some (16, 0) \<and> tester_main5 fresh = Some (15, 0)"
  by (simp add: tester_main4_def tester_main5_def linking_test exhaustion_test consumer_test assms Let_def
      test_key_generation_def test_ipc_initialization4_def test_ipc_initialization5_def test_semaphore4_def test_semaphore5_def
      sem_down_def sem_up_def)

theorem shm_tests_pass_witness:
  "tester_main4 (\<lambda>_. replicate SHM_SIZE NUL) = Some (16, 0) \<and> tester_main5 (\<lambda>_. replicate SHM_SIZE NUL) = Some (15, 0)"
  by (rule shm_tests_pass) simp

end
