(* ===== verification/ShmQueue.thy ===== *)
theory ShmQueue
  imports ShmSystem StepSystem
begin

















end
