(* ===== verification/ShmMain.thy ===== *)
theory ShmMain
  imports ShmIpc
begin

text \<open>
  The producers' programs as wholes: \<open>main\<close> of \<^verbatim>\<open>module3/task04/producer.c\<close> and \<^verbatim>\<open>module3/task05/producer.c\<close> with their
  loops. Between two of its turns at the semaphore the consumers make any number of iterations, given with the numbers
  that \<open>rand\<close> draws.
\<close>

section \<open>The loops\<close>

text \<open>What appears on the terminals: a generated block, a consumer's report of its size, least and greatest number.\<close>

datatype shm_event = Block "int list" | Report "nat \<times> int \<times> int"

fun blocks_of :: "shm_event list \<Rightarrow> int list list" where
  "blocks_of [] = []"
| "blocks_of (Block xs # es) = xs # blocks_of es"
| "blocks_of (Report r # es) = blocks_of es"

fun reports_of :: "shm_event list \<Rightarrow> (nat \<times> int \<times> int) list" where
  "reports_of [] = []"
| "reports_of (Block xs # es) = reports_of es"
| "reports_of (Report r # es) = r # reports_of es"

text \<open>\<open>k\<close> iterations of \<open>run_consumer_loop\<close>, of one consumer or of several.\<close>

fun consumers_work :: "layout \<Rightarrow> nat \<Rightarrow> mem \<Rightarrow> (shm_event list \<times> mem) option" where
  "consumers_work L 0 m = Some ([], m)"
| "consumers_work L (Suc k) m = do {
     (res, m) \<leftarrow> cons_iter L m;
     (out, m) \<leftarrow> consumers_work L k m;
     Some ((case res of Processed b n mn mx \<Rightarrow> [Report (n, mn, mx)] | _ \<Rightarrow> []) @ out, m) }"

text \<open>The list that ends is a producer that has not come to its next turn.\<close>

fun run_generation_loop ::
  "layout \<Rightarrow> (nat \<times> nat \<times> (nat \<Rightarrow> nat)) list \<Rightarrow> mem \<Rightarrow> nat \<Rightarrow> (shm_event list \<times> mem) option" where
  "run_generation_loop L [] m lo = None"
| "run_generation_loop L ((k, r, rs) # is) m lo = do {
     (out, m) \<leftarrow> consumers_work L k m;
     (res, m, lo) \<leftarrow> gen_iter L r rs m lo;
     if res = Exhausted then Some (out, m)
     else do {
       (out', m) \<leftarrow> run_generation_loop L is m lo;
       Some (out @ Block (gen_data r rs) # out', m) } }"

fun wait_for_processing :: "layout \<Rightarrow> nat list \<Rightarrow> mem \<Rightarrow> (shm_event list \<times> mem) option" where
  "wait_for_processing L [] m = None"
| "wait_for_processing L (k # ks) m = do {
     (out, m) \<leftarrow> consumers_work L k m;
     all_done \<leftarrow> wait_check L m;
     if all_done then Some (out, m)
     else do {
       (out', m) \<leftarrow> wait_for_processing L ks m;
       Some (out @ out', m) } }"

section \<open>The programs\<close>

text \<open>The status, the kernel's objects, what the process holds, and the events. The booleans are the system calls'.\<close>

definition producer_main4 ::
  "bool \<Rightarrow> bool \<Rightarrow> bool \<Rightarrow> bool \<Rightarrow> bool \<Rightarrow> mem \<Rightarrow> (nat \<times> nat \<times> (nat \<Rightarrow> nat)) list \<Rightarrow> nat list \<Rightarrow> ipc
     \<Rightarrow> (int \<times> ipc \<times> handles \<times> shm_event list) option" where
  "producer_main4 ftok_ok shmget_ok shmat_ok semget_ok setval_ok fresh is ks k =
     (if \<not> ftok_ok then Some (1, k, no_handles, [])
      else let ((k, h), ok) = init_producer_ipc4 shmget_ok shmat_ok semget_ok setval_ok fresh (k, no_handles) in
        if \<not> ok then Some (1, k, h, [])
        else do {
          m \<leftarrow> shm_seg k;
          (out, m) \<leftarrow> run_generation_loop layout4 is m 0;
          (out', m) \<leftarrow> wait_for_processing layout4 ks m;
          (let (k, h) = cleanup_producer_ipc4 (k\<lparr>shm_seg := Some m\<rparr>, h) in Some (0, k, h, out @ out')) })"

definition producer_main5 ::
  "bool \<Rightarrow> bool \<Rightarrow> bool \<Rightarrow> bool \<Rightarrow> mem \<Rightarrow> (nat \<times> nat \<times> (nat \<Rightarrow> nat)) list \<Rightarrow> nat list \<Rightarrow> ipc
     \<Rightarrow> (int \<times> ipc \<times> handles \<times> shm_event list) option" where
  "producer_main5 shm_open_ok ftruncate_ok mmap_ok sem_open_ok fresh is ks k =
     (let ((k, h), ok) = init_producer_ipc5 shm_open_ok ftruncate_ok mmap_ok sem_open_ok fresh (k, no_handles) in
      if \<not> ok then Some (1, k, h, [])
      else do {
        m \<leftarrow> shm_seg k;
        (out, m) \<leftarrow> run_generation_loop layout5 is m 0;
        (out', m) \<leftarrow> wait_for_processing layout5 ks m;
        (k, h) \<leftarrow> cleanup_producer_ipc5 (k\<lparr>shm_seg := Some m\<rparr>, h);
        Some (0, k, h, out @ out') })"

section \<open>The loops end\<close>

lemma blocks_of_append [simp]: "blocks_of (xs @ ys) = blocks_of xs @ blocks_of ys"
  by (induction xs rule: blocks_of.induct) auto

lemma reports_of_append [simp]: "reports_of (xs @ ys) = reports_of xs @ reports_of ys"
  by (induction xs rule: reports_of.induct) auto

context shm_layout
begin

lemma consumers_work_ok:
  "shm_inv L m lo (queue_of xss t) d \<Longrightarrow> t \<le> length xss \<Longrightarrow>
   \<exists>out m'. consumers_work L k m = Some (out, m') \<and> shm_inv L m' lo (queue_of xss (min (t + k) (length xss))) d
     \<and> blocks_of out = [] \<and> reports_of out = map summary (take k (drop t xss))"
proof (induction k arbitrary: t m)
  case 0
  then show ?case by simp
next
  case (Suc k)
  show ?case
  proof (cases "t < length xss")
    case True
    then have "next_open (queue_of xss t) = Some (xss ! t)" by (simp add: next_open_queue)
    then obtain b m1 where m1: "cons_iter L m = Some (Processed b (length (xss ! t)) (Min (set (xss ! t))) (Max (set (xss ! t))), m1)"
        "shm_inv L m1 lo (queue_of xss (Suc t)) d"
      using cons_iter_some [OF Suc.prems(1)] mark_first_queue [OF True] by auto
    moreover obtain out m' where "consumers_work L k m1 = Some (out, m')"
        "shm_inv L m' lo (queue_of xss (min (Suc t + k) (length xss))) d" "blocks_of out = []"
        "reports_of out = map summary (take k (drop (Suc t) xss))"
      using Suc.IH [OF m1(2)] True by auto
    ultimately show ?thesis
      using True by (simp add: summary_def Cons_nth_drop_Suc [OF True, symmetric])
  next
    case False
    then have "t = length xss" using Suc.prems(2) by simp
    moreover from this have "next_open (queue_of xss t) = None" by (simp add: next_open_queue)
    then have "cons_iter L m = Some (if d then LeaveLoop else WaitMore, m)" using cons_iter_none Suc.prems(1) by blast
    ultimately show ?thesis using Suc.IH [OF Suc.prems] by auto
  qed
qed

lemma blocks_fit:
  assumes "shm_inv L m lo (queue_of xss t) d" "\<forall>xs \<in> set xss. 5 \<le> length xs"
  shows "length xss \<le> 113"
proof -
  have q: "map fst (queue_of xss t) = xss" by simp
  then have len: "length (queue_of xss t) = length xss" by (metis length_map)
  have "\<forall>b \<in> set (queue_of xss t). 5 \<le> length (fst b)" using assms(2) by (metis q image_eqI set_map)
  from end_of_min [OF this, of "header_size L"] have "36 * length xss + header_size L \<le> SHM_SIZE"
    using assms(1) unfolding shm_inv_def len by linarith
  then show ?thesis by (simp add: SHM_SIZE_def)
qed

lemma generation_ends:
  "shm_inv L m lo (queue_of xss t) False \<Longrightarrow> t \<le> length xss \<Longrightarrow> \<forall>xs \<in> set xss. 5 \<le> length xs \<Longrightarrow>
   114 \<le> length xss + length is \<Longrightarrow>
   \<exists>out m' lo' t'. run_generation_loop L is m lo = Some (out, m') \<and> t \<le> t' \<and> t' \<le> length (xss @ blocks_of out)
     \<and> shm_inv L m' lo' (queue_of (xss @ blocks_of out) t') True
     \<and> map summary (take t xss) @ reports_of out = map summary (take t' (xss @ blocks_of out))
     \<and> (\<forall>xs \<in> set (xss @ blocks_of out). 5 \<le> length xs)"
proof (induction "is" arbitrary: m lo xss t)
  case Nil
  then show ?case using blocks_fit [OF Nil(1,3)] by simp
next
  case (Cons i "is")
  obtain k r rs where i: "i = (k, r, rs)" by (cases i) auto
  let ?t = "min (t + k) (length xss)"
  obtain out m1 where m1: "consumers_work L k m = Some (out, m1)" "shm_inv L m1 lo (queue_of xss ?t) False"
      "blocks_of out = []" "reports_of out = map summary (take k (drop t xss))"
    using consumers_work_ok [OF Cons.prems(1,2)] by blast
  have seen: "map summary (take t xss) @ reports_of out = map summary (take ?t xss)"
    using m1(4) Cons.prems(2) by (simp add: take_add [symmetric] flip: map_append) (simp add: min_def)
  show ?case
  proof (cases "SHM_SIZE < end_of (header_size L) (queue_of xss ?t) + 16 + 4 * (5 + r mod 11)")
    case True
    then obtain m2 where "gen_iter L r rs m1 lo = Some (Exhausted, m2, lo)" "shm_inv L m2 lo (queue_of xss ?t) True"
      using gen_iter_exhausted [OF m1(2)] by blast
    then show ?thesis using m1 seen Cons.prems(2,3) by (intro exI [of _ out] exI [of _ m2] exI [of _ lo] exI [of _ ?t]) (simp add: i)
  next
    case False
    let ?e = "end_of (header_size L) (queue_of xss ?t)" and ?xs = "gen_data r rs"
    obtain m2 where m2: "gen_iter L r rs m1 lo = Some (Generated, m2, ?e)" "shm_inv L m2 ?e (queue_of (xss @ [?xs]) ?t) False"
      using gen_iter_generated [OF m1(2), of r rs] False by (auto simp: gen_data_def)
    have "5 \<le> length ?xs" using gen_data_range [of r rs] by simp
    then have p: "?t \<le> length (xss @ [?xs])" "\<forall>xs \<in> set (xss @ [?xs]). 5 \<le> length xs"
        "114 \<le> length (xss @ [?xs]) + length is"
      using Cons.prems(3,4) by auto
    obtain out' m' lo' t' where r: "run_generation_loop L is m2 ?e = Some (out', m')" "?t \<le> t'"
        "t' \<le> length ((xss @ [?xs]) @ blocks_of out')" "shm_inv L m' lo' (queue_of ((xss @ [?xs]) @ blocks_of out') t') True"
        "map summary (take ?t (xss @ [?xs])) @ reports_of out' = map summary (take t' ((xss @ [?xs]) @ blocks_of out'))"
        "\<forall>xs \<in> set ((xss @ [?xs]) @ blocks_of out'). 5 \<le> length xs"
      using Cons.IH [OF m2(2) p] by blast
    have "map summary (take t xss) @ reports_of (out @ Block ?xs # out') = (map summary (take t xss) @ reports_of out) @ reports_of out'"
      by simp
    also have "\<dots> = map summary (take t' (xss @ ?xs # blocks_of out'))" using r(5) unfolding seen by simp
    finally have "map summary (take t xss) @ reports_of (out @ Block ?xs # out') = map summary (take t' (xss @ ?xs # blocks_of out'))" .
    moreover have "run_generation_loop L (i # is) m lo = Some (out @ Block ?xs # out', m')" using m1(1) m2(1) r(1) by (simp add: i)
    ultimately show ?thesis
      using m1(3) r(2-4,6) Cons.prems(2)
      by (intro exI [of _ "out @ Block ?xs # out'"] exI [of _ m'] exI [of _ lo'] exI [of _ t']) simp
  qed
qed

lemma waiting_ends:
  "shm_inv L m lo (queue_of xss t) True \<Longrightarrow> t \<le> length xss \<Longrightarrow> ks \<noteq> [] \<Longrightarrow> length xss \<le> t + sum_list ks \<Longrightarrow>
   \<exists>out m'. wait_for_processing L ks m = Some (out, m') \<and> shm_inv L m' lo (queue_of xss (length xss)) True
     \<and> blocks_of out = [] \<and> reports_of out = map summary (drop t xss)"
proof (induction ks arbitrary: m t)
  case (Cons k ks)
  let ?t = "min (t + k) (length xss)"
  obtain out m1 where m1: "consumers_work L k m = Some (out, m1)" "shm_inv L m1 lo (queue_of xss ?t) True"
      "blocks_of out = []" "reports_of out = map summary (take k (drop t xss))"
    using consumers_work_ok [OF Cons.prems(1,2)] by blast
  have check: "wait_check L m1 = Some (next_open (queue_of xss ?t) = None)" using m1(2) by (rule wait_check_ok)
  show ?case
  proof (cases "?t = length xss")
    case True
    then have "take k (drop t xss) = drop t xss" by simp
    with True m1 check show ?thesis by (simp add: next_open_queue)
  next
    case False
    then have t: "?t = t + k" "t + k < length xss" by simp_all
    then have "ks \<noteq> []" using Cons.prems(4) by auto
    then obtain out' m' where "wait_for_processing L ks m1 = Some (out', m')" "shm_inv L m' lo (queue_of xss (length xss)) True"
        "blocks_of out' = []" "reports_of out' = map summary (drop (t + k) xss)"
      using Cons.IH [of m1 "t + k"] m1(2) t Cons.prems(4) by auto
    moreover have "take k (drop t xss) @ drop (t + k) xss = drop t xss"
      by (metis add.commute append_take_drop_id drop_drop)
    ultimately show ?thesis using m1 check t by (simp add: next_open_queue flip: map_append)
  qed
qed simp

text \<open>Both loops, one after the other, from a new header.\<close>

lemma producer_loops:
  assumes "shm_inv L m 0 [] False" "114 \<le> length is" "113 \<le> sum_list ks"
  shows "\<exists>out m1 out' m'. run_generation_loop L is m 0 = Some (out, m1) \<and> wait_for_processing L ks m1 = Some (out', m')
    \<and> (\<exists>lo bs. shm_inv L m' lo bs True) \<and> reports_of (out @ out') = map summary (blocks_of (out @ out'))
    \<and> length (blocks_of (out @ out')) \<le> 113"
proof -
  obtain out m1 lo t where r: "run_generation_loop L is m 0 = Some (out, m1)" "t \<le> length (blocks_of out)"
      "shm_inv L m1 lo (queue_of (blocks_of out) t) True" "reports_of out = map summary (take t (blocks_of out))"
      "\<forall>xs \<in> set (blocks_of out). 5 \<le> length xs"
    using generation_ends [of m 0 "[]" 0 "is"] assms(1,2) by auto
  have n: "length (blocks_of out) \<le> 113" using blocks_fit [OF r(3,5)] .
  have ks: "ks \<noteq> []" "length (blocks_of out) \<le> t + sum_list ks" using assms(3) n by auto
  obtain out' m' where "wait_for_processing L ks m1 = Some (out', m')"
      "shm_inv L m' lo (queue_of (blocks_of out) (length (blocks_of out))) True"
      "blocks_of out' = []" "reports_of out' = map summary (drop t (blocks_of out))"
    using waiting_ends [OF r(3,2) ks] by blast
  with r(1,4) n show ?thesis by (auto simp flip: map_append)
qed

end

section \<open>The programs end\<close>

definition all_reported :: "shm_event list \<Rightarrow> bool" where
  "all_reported out \<longleftrightarrow> reports_of out = map summary (blocks_of out) \<and> length (blocks_of out) \<le> 113"

lemma main4_completes:
  assumes "length fresh = SHM_SIZE" "114 \<le> length is" "113 \<le> sum_list ks"
  shows "\<exists>out. producer_main4 True True True True True fresh is ks k = Some (0, no_ipc, no_handles, out) \<and> all_reported out"
proof -
  obtain m where m: "init_header4 fresh = Some m" "shm_inv layout4 m 0 [] False"
    using init_header4_ok [OF assms(1)] by blast
  obtain out m1 out' m' where "run_generation_loop layout4 is m 0 = Some (out, m1)"
      "wait_for_processing layout4 ks m1 = Some (out', m')" "all_reported (out @ out')"
    using task4.producer_loops [OF m(2) assms(2,3)] unfolding all_reported_def by blast
  with m(1) show ?thesis
    by (cases k) (simp add: producer_main4_def init_producer_ipc4_def cleanup_producer_ipc4_def no_handles_def no_ipc_def)
qed

lemma main5_completes:
  assumes "length fresh = SHM_SIZE" "114 \<le> length is" "113 \<le> sum_list ks"
  shows "\<exists>out. producer_main5 True True True True fresh is ks k = Some (0, no_ipc, no_handles, out) \<and> all_reported out"
proof -
  obtain m where m: "init_header5 fresh = Some m" "shm_inv layout5 m 0 [] False"
    using init_header5_ok [OF assms(1)] by blast
  obtain out m1 out' m' lo bs where r: "run_generation_loop layout5 is m 0 = Some (out, m1)"
      "wait_for_processing layout5 ks m1 = Some (out', m')" "shm_inv layout5 m' lo bs True" "all_reported (out @ out')"
    using task5.producer_loops [OF m(2) assms(2,3)] unfolding all_reported_def by blast
  have "load_size m' 0 = Some SHM_SIZE" using shm_inv_limit5 [OF r(3)] by simp
  with m(1) r show ?thesis
    by (cases k) (simp add: producer_main5_def init_producer_ipc5_def cleanup_producer_ipc5_def unmap_by_header_def
        no_handles_def no_ipc_def)
qed

text \<open>C25: When no call fails, both producers run to their end, whatever \<open>rand\<close> draws, whatever the segment held and however
  the consumers' iterations fall between their turns, given 114 turns and 113 iterations of consumers in the waiting loop:
  every block has then been reported once and in order, and no kernel object and no handle is left.\<close>
theorem producers_run_to_their_end:
  assumes "length fresh = SHM_SIZE" "114 \<le> length is" "113 \<le> sum_list ks"
  shows "(\<exists>out. producer_main4 True True True True True fresh is ks k = Some (0, no_ipc, no_handles, out) \<and> all_reported out)
    \<and> (\<exists>out. producer_main5 True True True True fresh is ks k = Some (0, no_ipc, no_handles, out) \<and> all_reported out)"
  using main4_completes [OF assms] main5_completes [OF assms] by blast

theorem producers_run_to_their_end_witness:
  "(\<exists>out. producer_main4 True True True True True (replicate SHM_SIZE NUL) (replicate 114 (1, 3, \<lambda>j. j)) [60, 60] no_ipc
       = Some (0, no_ipc, no_handles, out) \<and> all_reported out)
   \<and> (\<exists>out. producer_main5 True True True True (replicate SHM_SIZE NUL) (replicate 114 (1, 3, \<lambda>j. j)) [60, 60] no_ipc
       = Some (0, no_ipc, no_handles, out) \<and> all_reported out)"
  by (rule producers_run_to_their_end) simp_all

text \<open>When a call of the set-up fails, \<open>main\<close> ends with status 1; in task 4 nothing is left then.\<close>

lemma main4_fails_clean:
  "\<not> (a \<and> b \<and> c \<and> d) \<Longrightarrow> producer_main4 True a b c d fresh is ks k = Some (1, no_ipc, no_handles, [])"
  by (cases a; cases b; cases c; cases d)
    (simp_all add: producer_main4_def init_producer_ipc4_def no_ipc_def no_handles_def Let_def)

end
