(* ===== verification/RawUdp.thy ===== *)
theory RawUdp
  imports Mem
begin

text \<open>
  Building and reading raw UDP packets (\<^verbatim>\<open>module3/task09/utils.c\<close>): the Internet checksum and the
  datagram with its pseudo header. A \<open>uint32_t\<close> address is the number its four bytes in network
  order make on a little-endian machine; ports are numbers, converted by \<open>htons\<close> and \<open>ntohs\<close>.
\<close>

section \<open>Checksum\<close>

text \<open>The sum of the 16-bit words in memory order; an odd last byte counts as a word padded with 0.\<close>

fun sum16 :: "byte list \<Rightarrow> nat" where
  "sum16 [] = 0"
| "sum16 [b] = of_char b"
| "sum16 (b # c # bs) = dec_le [b, c] + sum16 bs"

definition fold16 :: "nat \<Rightarrow> nat" where
  "fold16 s = (let s = s div 2 ^ 16 + s mod 2 ^ 16 in (s + s div 2 ^ 16) mod 2 ^ 16)"

text \<open>\<open>(unsigned short) ~sum\<close> after the two folds; \<open>sum\<close> is a 64-bit \<open>long\<close> and never near its limit.\<close>

definition calculate_checksum :: "byte list \<Rightarrow> nat" where
  "calculate_checksum bs = 65535 - fold16 (sum16 bs)"

section \<open>Datagram\<close>

definition BUFFER_SIZE :: nat where "BUFFER_SIZE = 65536"
definition UDP_HDR :: nat where "UDP_HDR = 8"
definition IPPROTO_UDP :: nat where "IPPROTO_UDP = 17"

definition htons :: "nat \<Rightarrow> byte list" where "htons v = enc_be 2 v"
definition ntohs :: "byte list \<Rightarrow> nat" where "ntohs bs = dec_be bs"

definition pseudo_header :: "nat \<Rightarrow> nat \<Rightarrow> nat \<Rightarrow> byte list" where
  "pseudo_header src_ip dest_ip udp_length =
     enc_le 4 src_ip @ enc_le 4 dest_ip @ [NUL, char_of IPPROTO_UDP] @ htons udp_length"

definition udp_header :: "nat \<Rightarrow> nat \<Rightarrow> nat \<Rightarrow> nat \<Rightarrow> byte list" where
  "udp_header src_port dest_port len chk = htons src_port @ htons dest_port @ htons len @ enc_le 2 chk"

text \<open>
  \<open>build_udp_packet\<close>: the bytes of the datagram, or that \<open>malloc\<close> failed (the result -1), or that
  the payload does not fit into the buffer of \<open>BUFFER_SIZE\<close> bytes that every caller passes.
\<close>

datatype built = Packet "byte list" | NoMemory | Overflow

definition build_udp_packet :: "bool \<Rightarrow> nat \<Rightarrow> nat \<Rightarrow> nat \<Rightarrow> nat \<Rightarrow> byte list \<Rightarrow> built" where
  "build_udp_packet malloc_ok src_ip dest_ip src_port dest_port payload =
     (let len = UDP_HDR + length payload in
      if BUFFER_SIZE < len then Overflow else
      let udp = udp_header src_port dest_port len 0 @ payload;
          pseudogram = pseudo_header src_ip dest_ip len @ udp in
      if \<not> malloc_ok then NoMemory else
      Packet (udp_header src_port dest_port len (calculate_checksum pseudogram) @ payload))"

text \<open>The checks of a receiver (RFC 768): the whole of pseudo header and datagram sums to all ones.\<close>

definition checksum_accepted :: "nat \<Rightarrow> nat \<Rightarrow> byte list \<Rightarrow> bool" where
  "checksum_accepted src_ip dest_ip d \<longleftrightarrow> fold16 (sum16 (pseudo_header src_ip dest_ip (length d) @ d)) = 65535"

section \<open>The checksum is accepted\<close>

lemma sum16_append: "even (length xs) \<Longrightarrow> sum16 (xs @ ys) = sum16 xs + sum16 ys"
  by (induction xs rule: sum16.induct) auto

lemma sum16_bound: "sum16 bs \<le> 65535 * ((length bs + 1) div 2)"
proof (induction bs rule: sum16.induct)
  case (2 b)
  have "(of_char b :: nat) < 256" by simp
  then show ?case by (simp add: less_imp_le_nat del: of_char_less)
next
  case (3 b c bs)
  have "dec_le [b, c] < 65536" using dec_le_bound [of "[b, c]"] by simp
  with 3 show ?case by simp
qed simp

lemma fold16_closed:
  assumes "s < 2 ^ 32"
  shows "fold16 s = (if s = 0 then 0 else Suc ((s - 1) mod 65535))"
proof -
  define q r where "q = s div 2 ^ 16" and "r = s mod 2 ^ 16"
  have s: "s = 65536 * q + r" by (simp add: q_def r_def)
  have q: "q \<le> 65535" and r: "r \<le> 65535" using assms by (simp_all add: q_def r_def)
  have fold: "fold16 s = (q + r + (q + r) div 65536) mod 65536"
    by (simp add: fold16_def q_def r_def Let_def)
  show ?thesis
  proof (cases "s = 0")
    case False
    then have pos: "1 \<le> q + r" using s by (cases q) auto
    have "s - 1 = 65535 * q + (q + r - 1)" using s pos by simp
    then have m: "(s - 1) mod 65535 = (q + r - 1) mod 65535" by simp
    show ?thesis
    proof (cases "q + r \<le> 65535")
      case True
      then have "fold16 s = q + r" "Suc ((q + r - 1) mod 65535) = q + r" using pos by (simp_all add: fold)
      then show ?thesis using False by (simp only: m if_False)
    next
      case ge: False
      then obtain t where t: "q + r = 65536 + t" using le_Suc_ex [of 65536 "q + r"] by auto
      then have "t < 65535" using q r by simp
      then have "(q + r) div 65536 = 1" "(65536 + Suc t) mod 65536 = Suc t"
        by (simp_all only: t mod_add_self1) simp_all
      then have "fold16 s = Suc t" by (simp add: fold t)
      moreover have "(q + r - 1) mod 65535 = t"
      proof -
        have "q + r - 1 = 65535 + t" by (simp add: t)
        then show ?thesis using \<open>t < 65535\<close> by simp
      qed
      ultimately show ?thesis using False by (simp only: m if_False)
    qed
  qed (simp add: fold16_def)
qed

lemma fold16_full: "0 < s \<Longrightarrow> s < 2 ^ 32 \<Longrightarrow> s mod 65535 = 0 \<Longrightarrow> fold16 s = 65535"
proof -
  assume a: "0 < s" "s < 2 ^ 32" "s mod 65535 = 0"
  then obtain k where k: "s = 65535 * k" by auto
  then obtain j where "k = Suc j" using a(1) by (cases k) auto
  then have "s - 1 = 65535 * j + 65534" using k by simp
  then have "(s - 1) mod 65535 = 65534" by simp
  with a show ?thesis by (simp add: fold16_closed)
qed

lemma fold16_mod: "s < 2 ^ 32 \<Longrightarrow> fold16 s mod 65535 = s mod 65535"
proof (cases "s = 0")
  case False
  assume "s < 2 ^ 32"
  then have "fold16 s = Suc ((s - 1) mod 65535)" using False by (simp add: fold16_closed)
  then have "fold16 s mod 65535 = Suc (s - 1) mod 65535" by (simp add: mod_Suc_eq)
  with False show ?thesis by simp
qed (simp add: fold16_def)

lemma fold16_less: "fold16 s \<le> 65535"
proof -
  have "n mod 65536 \<le> 65535" for n :: nat using mod_less_divisor [of 65536 n] by simp
  then show ?thesis by (simp add: fold16_def Let_def)
qed

lemma fold16_complement:
  assumes "s + 65536 < 2 ^ 32" "0 < s"
  shows "fold16 (s + (65535 - fold16 s)) = 65535"
proof (rule fold16_full)
  show "0 < s + (65535 - fold16 s)" "s + (65535 - fold16 s) < 2 ^ 32" using assms by simp_all
  have "fold16 s mod 65535 = s mod 65535" using assms(1) by (intro fold16_mod) simp
  then have "(s + (65535 - fold16 s)) mod 65535 = (fold16 s + (65535 - fold16 s)) mod 65535"
    by (metis mod_add_left_eq)
  then show "(s + (65535 - fold16 s)) mod 65535 = 0" using fold16_less [of s] by simp
qed

lemma length_udp_header [simp]: "length (udp_header s d l c) = UDP_HDR"
  by (simp add: udp_header_def htons_def UDP_HDR_def)

lemma length_pseudo_header [simp]: "length (pseudo_header s d l) = 12"
  by (simp add: pseudo_header_def htons_def)

lemma calculate_checksum_less: "calculate_checksum bs < 2 ^ 16"
  by (simp add: calculate_checksum_def)

lemma sum16_enc_le: "v < 2 ^ 16 \<Longrightarrow> sum16 (enc_le 2 v) = v"
proof -
  assume "v < 2 ^ 16"
  moreover have "enc_le 2 v = [char_of (v mod 256), char_of (v div 256 mod 256)]"
    by (simp add: numeral_2_eq_2)
  ultimately show ?thesis by simp
qed

lemma checksum_fills:
  fixes src_ip dest_ip src_port dest_port :: nat and payload :: "byte list"
  defines "len \<equiv> UDP_HDR + length payload"
  defines "p \<equiv> pseudo_header src_ip dest_ip len"
  defines "c \<equiv> calculate_checksum (p @ udp_header src_port dest_port len 0 @ payload)"
  assumes "length payload \<le> 65528"
  shows "fold16 (sum16 (p @ udp_header src_port dest_port len c @ payload)) = 65535"
proof -
  let ?h = "htons src_port @ htons dest_port @ htons len"
  have split: "sum16 (p @ udp_header src_port dest_port len v @ payload) = sum16 p + (sum16 ?h + (v + sum16 payload))"
    if "v < 2 ^ 16" for v
    using that by (simp add: udp_header_def p_def sum16_append sum16_enc_le htons_def)
  let ?s = "sum16 p + (sum16 ?h + sum16 payload)"
  have c: "c = 65535 - fold16 ?s" using split [of 0] by (simp add: c_def calculate_checksum_def)
  have "?s = sum16 (p @ ?h @ payload)" by (simp add: p_def sum16_append htons_def)
  then have "?s \<le> 65535 * ((length (p @ ?h @ payload) + 1) div 2)" using sum16_bound by metis
  also have "\<dots> \<le> 65535 * 32774"
    using assms(4) by (intro mult_le_mono2) (simp add: p_def htons_def)
  finally have less: "?s + 65536 < 2 ^ 32" by simp
  have "0 < sum16 p"
    by (simp add: p_def pseudo_header_def sum16_append IPPROTO_UDP_def)
  then have "fold16 (?s + c) = 65535" using fold16_complement [OF less] c by simp
  moreover have "c < 2 ^ 16" by (simp add: c calculate_checksum_def)
  ultimately show ?thesis by (simp add: split ac_simps)
qed

end
