(* ===== verification/RawEcho.thy ===== *)
theory RawEcho
  imports RawUdp CScan Registry
begin

text \<open>
  The echo server and client over raw sockets (\<^verbatim>\<open>server_logic.c\<close>, \<^verbatim>\<open>server_main.c\<close>,
  \<^verbatim>\<open>client_logic.c\<close> and \<^verbatim>\<open>client_main.c\<close> of \<^verbatim>\<open>module3/task09\<close>). A received packet lies at the
  start of a buffer of \<open>BUFFER_SIZE\<close> bytes that keeps what earlier packets left behind it; the
  programs read the buffer without looking at the number of bytes received. \<open>None\<close> is an access
  outside a buffer.
\<close>

section \<open>Reading a packet\<close>

text \<open>\<open>recvfrom\<close>: at most \<open>BUFFER_SIZE\<close> bytes go to the start of the buffer.\<close>

definition recv_into :: "mem \<Rightarrow> byte list \<Rightarrow> mem" where
  "recv_into buf pkt = (let p = take BUFFER_SIZE pkt in p @ drop (length p) buf)"

definition byte_at :: "mem \<Rightarrow> nat \<Rightarrow> nat option" where
  "byte_at m a = map_option (\<lambda>bs. of_char (hd bs)) (load m a 1)"

definition ip_hdr_len :: "mem \<Rightarrow> nat option" where
  "ip_hdr_len buf = map_option (\<lambda>b. b mod 16 * 4) (byte_at buf 0)"

definition u16_at :: "mem \<Rightarrow> nat \<Rightarrow> nat option" where
  "u16_at m a = map_option ntohs (load m a 2)"

definition u32_at :: "mem \<Rightarrow> nat \<Rightarrow> nat option" where
  "u32_at m a = map_option dec_le (load m a 4)"

text \<open>
  \<open>memcpy (dst, payload, udp_len - 8)\<close>: a length below 8 makes the count negative as an \<open>int\<close>,
  which \<open>memcpy\<close> takes for a number near \<open>2 ^ 64\<close>.
\<close>

definition copy_payload :: "mem \<Rightarrow> nat \<Rightarrow> int \<Rightarrow> byte list option" where
  "copy_payload buf a n = (if n < 0 then None else load buf a (nat n))"

section \<open>Server\<close>

definition MAX_CLIENTS :: nat where "MAX_CLIENTS = 128"
definition SHUTDOWN_MSG :: string where "SHUTDOWN_MSG = ''CLIENT_SHUTDOWN_SIGNAL''"

record client_record =
  cl_ip :: nat
  cl_port :: nat
  message_count :: int

text \<open>\<open>client_db\<close> and \<open>client_count\<close>: the list of the entries in use.\<close>

type_synonym client_db = "client_record list"

definition init_client_db :: client_db where "init_client_db = []"

fun find_client :: "client_db \<Rightarrow> nat \<Rightarrow> nat \<Rightarrow> nat \<Rightarrow> nat option" where
  "find_client [] ip port i = None"
| "find_client (c # cs) ip port i =
     (if cl_ip c = ip \<and> cl_port c = port then Some i else find_client cs ip port (Suc i))"

definition find_or_create_client :: "nat \<Rightarrow> nat \<Rightarrow> client_db \<Rightarrow> client_db \<times> nat option" where
  "find_or_create_client ip port db =
     (case find_client db ip port 0 of
        Some i \<Rightarrow> (db, Some i)
      | None \<Rightarrow>
          if length db < MAX_CLIENTS
          then (db @ [\<lparr>cl_ip = ip, cl_port = port, message_count = 0\<rparr>], Some (length db))
          else (db, None))"

definition reset_client :: "nat \<Rightarrow> nat \<Rightarrow> client_db \<Rightarrow> client_db" where
  "reset_client ip port db =
     (case find_client db ip port 0 of
        Some i \<Rightarrow> db[i := (db ! i)\<lparr>message_count := 0\<rparr>]
      | None \<Rightarrow> db)"

text \<open>The entry of the sender is found or made and its counter (an \<open>int\<close>) goes up; without one the count is 0.\<close>

definition count_message :: "nat \<Rightarrow> nat \<Rightarrow> client_db \<Rightarrow> client_db \<times> int" where
  "count_message ip port db =
     (case find_or_create_client ip port db of
        (db, Some i) \<Rightarrow>
          let n = to_int32 (message_count (db ! i) + 1) in (db[i := (db ! i)\<lparr>message_count := n\<rparr>], n)
      | (db, None) \<Rightarrow> (db, 0))"

text \<open>
  The datagram \<open>send_raw_reply\<close> sends: the text and the counter. \<open>snprintf\<close> returns the length of
  the whole text, which is the length then copied.
\<close>

definition send_raw_reply :: "bool \<Rightarrow> nat \<Rightarrow> nat \<Rightarrow> nat \<Rightarrow> nat \<Rightarrow> string \<Rightarrow> int \<Rightarrow> built" where
  "send_raw_reply malloc_ok src_ip dest_ip src_port dest_port payload_str current_count =
     build_udp_packet malloc_ok src_ip dest_ip src_port dest_port (payload_str @ '' '' @ fmt_d current_count)"

text \<open>The new table, and the address and the bytes of the reply if one is sent.\<close>

definition process_incoming_packet ::
  "nat \<Rightarrow> bool \<Rightarrow> mem \<Rightarrow> client_db \<Rightarrow> (client_db \<times> (nat \<times> byte list) option) option" where
  "process_incoming_packet server_port malloc_ok buf db = do {
     h \<leftarrow> ip_hdr_len buf;
     protocol \<leftarrow> byte_at buf 9;
     if protocol \<noteq> IPPROTO_UDP then Some (db, None) else do {
       dest_port \<leftarrow> u16_at buf (h + 2);
       src_port \<leftarrow> u16_at buf h;
       if dest_port \<noteq> server_port then Some (db, None) else do {
         udp_len \<leftarrow> u16_at buf (h + 4);
         payload \<leftarrow> copy_payload buf (h + UDP_HDR) (int udp_len - int UDP_HDR);
         let payload_str = cstr payload;
         saddr \<leftarrow> u32_at buf 12;
         daddr \<leftarrow> u32_at buf 16;
         if payload_str = SHUTDOWN_MSG then Some (reset_client saddr src_port db, None)
         else (let (db, current_count) = count_message saddr src_port db in
           case send_raw_reply malloc_ok daddr saddr server_port src_port payload_str current_count of
             Packet p \<Rightarrow> Some (db, Some (saddr, p))
           | NoMemory \<Rightarrow> Some (db, None)
           | Overflow \<Rightarrow> None) } } }"

text \<open>The loop of \<open>main\<close> over what \<open>recvfrom\<close> returns (\<open>None\<close>: an error), each with the outcome of \<open>malloc\<close>.\<close>

fun serve :: "nat \<Rightarrow> mem \<Rightarrow> client_db \<Rightarrow> (byte list option \<times> bool) list \<Rightarrow> (client_db \<times> (nat \<times> byte list) list) option" where
  "serve port buf db [] = Some (db, [])"
| "serve port buf db ((None, _) # is) = serve port buf db is"
| "serve port buf db ((Some pkt, malloc_ok) # is) = do {
     let buf = recv_into buf pkt;
     (db, reply) \<leftarrow> process_incoming_packet port malloc_ok buf db;
     (db, replies) \<leftarrow> serve port buf db is;
     Some (db, (case reply of Some r \<Rightarrow> r # replies | None \<Rightarrow> replies)) }"

text \<open>A port from the command line is cut to 16 bits.\<close>

definition udp_port :: "string \<Rightarrow> nat" where
  "udp_port s = nat (atoi s mod 65536)"

text \<open>\<open>main\<close> of the server: \<open>Inl\<close> is the exit with that status.\<close>

definition raw_server_main ::
  "string list \<Rightarrow> int \<Rightarrow> mem \<Rightarrow> (byte list option \<times> bool) list \<Rightarrow> int + (client_db \<times> (nat \<times> byte list) list) option" where
  "raw_server_main argv sockfd buf is =
     (if length argv < 2 then Inl 1
      else if sockfd < 0 then Inl 1
      else Inr (serve (udp_port (argv ! 1)) buf init_client_db is))"

section \<open>Client\<close>

definition send_raw_message :: "bool \<Rightarrow> nat \<Rightarrow> nat \<Rightarrow> nat \<Rightarrow> nat \<Rightarrow> string \<Rightarrow> built" where
  "send_raw_message malloc_ok local_ip dest_ip src_port dest_port message =
     build_udp_packet malloc_ok local_ip dest_ip src_port dest_port message"

text \<open>The text of the packet in the buffer, if it is the server's reply to this client.\<close>

definition reply_text :: "nat \<Rightarrow> nat \<Rightarrow> mem \<Rightarrow> string option option" where
  "reply_text client_port server_port buf = do {
     h \<leftarrow> ip_hdr_len buf;
     protocol \<leftarrow> byte_at buf 9;
     if protocol \<noteq> IPPROTO_UDP then Some None else do {
       d_port \<leftarrow> u16_at buf (h + 2);
       s_port \<leftarrow> u16_at buf h;
       if d_port = client_port \<and> s_port = server_port then do {
         u_len \<leftarrow> u16_at buf (h + 4);
         response \<leftarrow> copy_payload buf (h + UDP_HDR) (int u_len - int UDP_HDR);
         Some (Some (cstr response)) }
       else Some None } }"

text \<open>
  At most \<open>retries\<close> receptions, each of a packet or of a timeout (\<open>None\<close>, and when the list ends).
\<close>

fun wait_for_server_reply :: "nat \<Rightarrow> nat \<Rightarrow> nat \<Rightarrow> mem \<Rightarrow> byte list option list \<Rightarrow> string option option" where
  "wait_for_server_reply cp sp 0 buf is = Some None"
| "wait_for_server_reply cp sp (Suc retries) buf [] = Some None"
| "wait_for_server_reply cp sp (Suc retries) buf (None # is) = wait_for_server_reply cp sp retries buf is"
| "wait_for_server_reply cp sp (Suc retries) buf (Some pkt # is) = do {
     let buf = recv_into buf pkt;
     r \<leftarrow> reply_text cp sp buf;
     case r of Some t \<Rightarrow> Some (Some t) | None \<Rightarrow> wait_for_server_reply cp sp retries buf is }"

text \<open>
  The loop of \<open>main\<close>. The inputs are what \<open>select\<close> and \<open>fgets\<close> bring, a line with what arrives
  while the client waits for the reply; the list ends when the loop test finds that SIGINT came.
\<close>

datatype stdin_event = SelectError | SelectIdle | StdinEof | StdinLine string "byte list option list"

datatype client_event = Prompt | Sent built | Shown string | NoReply

definition strip_eol :: "string \<Rightarrow> string" where
  "strip_eol l = takeWhile (\<lambda>c. c \<noteq> CHR 0x0D \<and> c \<noteq> CHR 0x0A) l"

fun client_loop :: "(string \<Rightarrow> built) \<Rightarrow> nat \<Rightarrow> nat \<Rightarrow> mem \<Rightarrow> bool \<Rightarrow> stdin_event list \<Rightarrow> client_event list option" where
  "client_loop send cp sp buf print_prompt [] = Some [Sent (send SHUTDOWN_MSG)]"
| "client_loop send cp sp buf print_prompt (e # es) = do {
     let prompt = (if print_prompt then [Prompt] else []);
     out \<leftarrow> (case e of
         SelectError \<Rightarrow> Some [Sent (send SHUTDOWN_MSG)]
       | SelectIdle \<Rightarrow> client_loop send cp sp buf False es
       | StdinEof \<Rightarrow> Some [Sent (send SHUTDOWN_MSG)]
       | StdinLine l rx \<Rightarrow>
           let msg = strip_eol l in
           if msg = [] then client_loop send cp sp buf True es
           else do {
             r \<leftarrow> wait_for_server_reply cp sp 5 buf rx;
             out \<leftarrow> client_loop send cp sp buf True es;
             Some (Sent (send msg) # (case r of Some t \<Rightarrow> Shown t | None \<Rightarrow> NoReply) # out) });
     Some (prompt @ out) }"

definition raw_client :: "bool \<Rightarrow> nat \<Rightarrow> nat \<Rightarrow> nat \<Rightarrow> nat \<Rightarrow> mem \<Rightarrow> stdin_event list \<Rightarrow> client_event list option" where
  "raw_client malloc_ok local_ip server_ip cp sp buf es =
     client_loop (send_raw_message malloc_ok local_ip server_ip cp sp) cp sp buf True es"

text \<open>
  The socket that keeps the local port from the kernel stays open even when it could not be bound;
  \<open>fds\<close> is the set of the open descriptors.
\<close>

definition reserve_local_port :: "int \<Rightarrow> int set \<Rightarrow> int \<times> int set" where
  "reserve_local_port dummy_fd fds = (dummy_fd, if 0 \<le> dummy_fd then insert dummy_fd fds else fds)"

text \<open>\<open>main\<close> of the client: the status, the descriptors left open and the events. \<open>inet_addr\<close> reads an address.\<close>

definition raw_client_main ::
  "(string \<Rightarrow> nat) \<Rightarrow> string list \<Rightarrow> int \<Rightarrow> int \<Rightarrow> bool \<Rightarrow> mem \<Rightarrow> stdin_event list
     \<Rightarrow> (int \<times> int set \<times> client_event list) option" where
  "raw_client_main inet_addr argv sock dummy malloc_ok buf es =
     (if length argv < 5 then Some (1, {}, [])
      else if sock < 0 then Some (1, {}, [])
      else let (dummy_fd, fds) = reserve_local_port dummy {sock} in do {
        out \<leftarrow> raw_client malloc_ok (inet_addr (argv ! 1)) (inet_addr (argv ! 3)) (udp_port (argv ! 2)) (udp_port (argv ! 4)) buf es;
        Some (0, (if 0 \<le> dummy_fd then fds - {dummy_fd} else fds) - {sock}, out) })"

end
