(* ===== verification/RawEchoProofs.thy ===== *)
theory RawEchoProofs
  imports RawEcho
begin

text \<open>
  The echo server's table counts the messages of the first 128 clients, its replies carry these
  counts, checksums are accepted by a receiver, a message goes to the server and back unchanged,
  and what packets do harm.
\<close>

section \<open>The client table\<close>

definition client_keys :: "client_db \<Rightarrow> (nat \<times> nat) list" where
  "client_keys db = map (\<lambda>c. (cl_ip c, cl_port c)) db"

lemma find_client_None: "find_client db ip port i = None \<longleftrightarrow> (ip, port) \<notin> set (client_keys db)"
  by (induction db ip port i rule: find_client.induct) (auto simp: client_keys_def)

lemma find_client_Some:
  "find_client db ip port i = Some j \<Longrightarrow>
   i \<le> j \<and> j - i < length db \<and> cl_ip (db ! (j - i)) = ip \<and> cl_port (db ! (j - i)) = port"
proof (induction db ip port i rule: find_client.induct)
  case (2 c cs ip port i)
  then show ?case by (auto split: if_splits simp: nth_Cons' Suc_diff_Suc)
qed simp

lemma find_client_cell:
  assumes "find_client db ip port 0 = Some j"
  shows "j < length db \<and> client_keys db ! j = (ip, port)"
  using find_client_Some [OF assms] by (simp add: client_keys_def)

lemma client_keys_find_or_create:
  "client_keys (fst (find_or_create_client ip port db)) =
   (if (ip, port) \<notin> set (client_keys db) \<and> length (client_keys db) < MAX_CLIENTS
    then client_keys db @ [(ip, port)] else client_keys db)"
  using find_client_None [of db ip port 0]
  by (auto simp: find_or_create_client_def client_keys_def split: option.splits)

interpretation clients: bounded_registry
  "\<lambda>(ip, port) db. fst (find_or_create_client ip port db)" client_keys MAX_CLIENTS "\<lambda>_. True"
  by unfold_locales (auto simp: client_keys_find_or_create)

lemma client_keys_update [simp]:
  "client_keys (db[i := (db ! i)\<lparr>message_count := n\<rparr>]) = client_keys db"
  by (cases "i < length db") (auto simp: client_keys_def map_update list_update_id intro!: nth_equalityI simp: nth_list_update)

lemma client_keys_reset [simp]: "client_keys (reset_client ip port db) = client_keys db"
  by (simp add: reset_client_def split: option.split)

lemma client_keys_count: "client_keys (fst (count_message ip port db)) = client_keys (fst (find_or_create_client ip port db))"
  by (simp add: count_message_def Let_def split: prod.split option.split)

text \<open>The counters by client.\<close>

fun count_of :: "client_db \<Rightarrow> nat \<times> nat \<Rightarrow> int option" where
  "count_of [] k = None"
| "count_of (c # cs) k = (if (cl_ip c, cl_port c) = k then Some (message_count c) else count_of cs k)"

lemma count_of_None: "count_of db k = None \<longleftrightarrow> k \<notin> set (client_keys db)"
  by (induction db) (auto simp: client_keys_def)

lemma count_of_nth:
  "distinct (client_keys db) \<Longrightarrow> i < length db \<Longrightarrow> count_of db (client_keys db ! i) = Some (message_count (db ! i))"
proof (induction db arbitrary: i)
  case (Cons c db)
  then show ?case by (cases i) (auto simp: client_keys_def)
qed simp

lemma count_of_update:
  "distinct (client_keys db) \<Longrightarrow> i < length db \<Longrightarrow>
   count_of (db[i := (db ! i)\<lparr>message_count := n\<rparr>]) = (count_of db)(client_keys db ! i \<mapsto> n)"
proof (induction db arbitrary: i)
  case (Cons c db)
  then show ?case by (cases i) (auto simp: client_keys_def fun_eq_iff)
qed simp

lemma count_of_reset:
  assumes "distinct (client_keys db)"
  shows "count_of (reset_client ip port db) =
    (if count_of db (ip, port) = None then count_of db else (count_of db)((ip, port) \<mapsto> 0))"
proof (cases "find_client db ip port 0")
  case None
  then have "count_of db (ip, port) = None" by (simp add: count_of_None find_client_None)
  with None show ?thesis by (simp add: reset_client_def)
next
  case (Some i)
  with find_client_cell [OF Some] find_client_None [of db ip port 0] show ?thesis
    using count_of_update [OF assms, of i 0] by (simp add: reset_client_def count_of_None)
qed

lemma count_of_snoc:
  "k \<notin> set (client_keys db) \<Longrightarrow>
   count_of (db @ [\<lparr>cl_ip = fst k, cl_port = snd k, message_count = n\<rparr>]) = (count_of db)(k \<mapsto> n)"
  by (induction db) (auto simp: client_keys_def fun_eq_iff)

text \<open>One message: the new counters and the count that goes into the reply.\<close>

lemma count_message_known:
  assumes "distinct (client_keys db)" "count_of db (ip, port) = Some n"
  shows "count_of (fst (count_message ip port db)) = (count_of db)((ip, port) \<mapsto> to_int32 (n + 1))
    \<and> snd (count_message ip port db) = to_int32 (n + 1)"
proof -
  obtain i where i: "find_client db ip port 0 = Some i"
    using assms(2) find_client_None [of db ip port 0] count_of_None [of db "(ip, port)"] by fastforce
  have cell: "i < length db" "client_keys db ! i = (ip, port)" using find_client_cell [OF i] by simp_all
  then have "message_count (db ! i) = n" using count_of_nth [OF assms(1), of i] assms(2) by simp
  then have eq: "count_message ip port db = (db[i := (db ! i)\<lparr>message_count := to_int32 (n + 1)\<rparr>], to_int32 (n + 1))"
    using i by (simp add: count_message_def find_or_create_client_def Let_def)
  show ?thesis
    using count_of_update [OF assms(1) cell(1), of "to_int32 (n + 1)"] cell(2) by (simp add: eq)
qed

lemma count_message_new:
  assumes "distinct (client_keys db)" "count_of db (ip, port) = None" "length db < MAX_CLIENTS"
  shows "count_of (fst (count_message ip port db)) = (count_of db)((ip, port) \<mapsto> 1)
    \<and> snd (count_message ip port db) = 1"
proof -
  let ?db = "db @ [\<lparr>cl_ip = ip, cl_port = port, message_count = 0\<rparr>]"
  have no: "(ip, port) \<notin> set (client_keys db)" using assms(2) by (simp add: count_of_None)
  then have d: "distinct (client_keys ?db)" using assms(1) by (simp add: client_keys_def)
  have "find_client db ip port 0 = None" using no by (simp add: find_client_None)
  then have eq: "count_message ip port db = (?db[length db := (?db ! length db)\<lparr>message_count := 1\<rparr>], 1)"
    using assms(3) by (simp add: count_message_def find_or_create_client_def Let_def)
  have "client_keys ?db ! length db = (ip, port)" by (simp add: client_keys_def nth_append)
  moreover have "count_of ?db = (count_of db)((ip, port) \<mapsto> 0)" using count_of_snoc [OF no, of 0] by simp
  ultimately show ?thesis
    using count_of_update [OF d, of "length db" 1] by (simp only: eq fst_conv snd_conv) simp
qed

lemma count_message_full:
  assumes "count_of db (ip, port) = None" "MAX_CLIENTS \<le> length db"
  shows "count_message ip port db = (db, 0)"
proof -
  have "find_client db ip port 0 = None" using assms(1) by (simp add: count_of_None find_client_None)
  with assms(2) show ?thesis by (simp add: count_message_def find_or_create_client_def)
qed

section \<open>Histories\<close>

text \<open>What the packets do to the table: a message of a client, or its shutdown.\<close>

datatype echo_event = Message nat nat | Shutdown nat nat

fun table_step :: "echo_event \<Rightarrow> client_db \<Rightarrow> client_db" where
  "table_step (Message ip port) db = fst (count_message ip port db)"
| "table_step (Shutdown ip port) db = reset_client ip port db"

fun senders :: "echo_event list \<Rightarrow> (nat \<times> nat) list" where
  "senders [] = []"
| "senders (Message ip port # es) = (ip, port) # senders es"
| "senders (Shutdown ip port # es) = senders es"

text \<open>The messages of a client since its last shutdown.\<close>

definition since_shutdown :: "nat \<times> nat \<Rightarrow> echo_event list \<Rightarrow> nat" where
  "since_shutdown k es =
     length (filter (\<lambda>e. e = Message (fst k) (snd k)) (takeWhile (\<lambda>e. e \<noteq> Shutdown (fst k) (snd k)) (rev es)))"

lemma senders_append [simp]: "senders (xs @ ys) = senders xs @ senders ys"
  by (induction xs rule: senders.induct) auto

lemma since_shutdown_snoc [simp]:
  "since_shutdown k (es @ [Message ip port]) = (if k = (ip, port) then 1 else 0) + since_shutdown k es"
  "since_shutdown k (es @ [Shutdown ip port]) = (if k = (ip, port) then 0 else since_shutdown k es)"
  by (auto simp: since_shutdown_def)

lemma since_shutdown_none: "k \<notin> set (senders es) \<Longrightarrow> since_shutdown k es = 0"
proof (induction es rule: rev_induct)
  case Nil
  then show ?case by (simp add: since_shutdown_def)
next
  case (snoc e es)
  then show ?case by (cases e) auto
qed

lemma to_int32_Suc: "to_int32 (to_int32 n + 1) = to_int32 (n + 1)"
proof -
  have "((n + 2 ^ 31) mod 2 ^ 32 + 1) mod 2 ^ 32 = (n + 2 ^ 31 + 1) mod 2 ^ 32"
    by (rule mod_add_left_eq)
  then show ?thesis by (simp add: to_int32_def add.assoc add.commute add.left_commute)
qed

lemma count_message_counts:
  assumes d: "distinct (client_keys db)"
    and counts: "\<forall>k \<in> set (client_keys db). count_of db k = Some (to_int32 (int (f k)))"
    and new: "(ip, port) \<notin> set (client_keys db) \<Longrightarrow> length db < MAX_CLIENTS \<Longrightarrow> f (ip, port) = 0"
    and k: "k \<in> set (client_keys (fst (count_message ip port db)))"
  shows "count_of (fst (count_message ip port db)) k = Some (to_int32 (int ((if k = (ip, port) then 1 else 0) + f k)))"
proof (cases "count_of db (ip, port)")
  case (Some n)
  then have "n = to_int32 (int (f (ip, port)))"
    using counts count_of_None [of db "(ip, port)"] by fastforce
  moreover have "k \<in> set (client_keys db)"
    using k Some count_of_None [of db "(ip, port)"] by (auto simp: client_keys_count client_keys_find_or_create)
  ultimately show ?thesis
    using count_message_known [OF d Some] counts to_int32_Suc [of "int (f (ip, port))"] by (simp add: add.commute)
next
  case None
  then have no: "(ip, port) \<notin> set (client_keys db)" by (simp add: count_of_None)
  show ?thesis
  proof (cases "length db < MAX_CLIENTS")
    case True
    have "k = (ip, port) \<or> k \<in> set (client_keys db)"
      using k by (auto simp: client_keys_count client_keys_find_or_create split: if_splits)
    then show ?thesis
      using count_message_new [OF d None True] counts new [OF no True] no by auto
  next
    case False
    then have "count_message ip port db = (db, 0)" using None by (intro count_message_full) simp_all
    then show ?thesis using k counts no by auto
  qed
qed

lemma table_keys: "client_keys (fold table_step es init_client_db) = take MAX_CLIENTS (nub (senders es))"
proof (induction es rule: rev_induct)
  case Nil
  then show ?case by (simp add: init_client_db_def client_keys_def)
next
  case (snoc e es)
  show ?case
  proof (cases e)
    case (Message ip port)
    then show ?thesis
      using clients.history_step [where k = "(ip, port)", OF _ snoc.IH] by (simp add: client_keys_count)
  next
    case (Shutdown ip port)
    with snoc.IH show ?thesis by simp
  qed
qed

lemma table_distinct: "distinct (client_keys (fold table_step es init_client_db))"
  by (simp add: table_keys)

lemma table_room: "k \<notin> set (client_keys (fold table_step es init_client_db)) \<Longrightarrow>
  length (fold table_step es init_client_db) < MAX_CLIENTS \<Longrightarrow> since_shutdown k es = 0"
proof (rule since_shutdown_none)
  let ?db = "fold table_step es init_client_db"
  assume no: "k \<notin> set (client_keys ?db)" and room: "length ?db < MAX_CLIENTS"
  have "length (take MAX_CLIENTS (nub (senders es))) < MAX_CLIENTS"
    using room table_keys [of es] by (metis client_keys_def length_map)
  then have "take MAX_CLIENTS (nub (senders es)) = nub (senders es)" by simp
  then show "k \<notin> set (senders es)" using no table_keys [of es] by (metis set_nub)
qed

lemma table_counts:
  "\<forall>k \<in> set (client_keys (fold table_step es init_client_db)).
   count_of (fold table_step es init_client_db) k = Some (to_int32 (int (since_shutdown k es)))"
proof (induction es rule: rev_induct)
  case Nil
  then show ?case by (simp add: init_client_db_def client_keys_def)
next
  case (snoc e es)
  note d = table_distinct [of es]
  show ?case
  proof (cases e)
    case (Message ip port)
    then show ?thesis
      using count_message_counts [OF d snoc.IH, of ip port] table_room [of "(ip, port)" es] by simp
  next
    case (Shutdown ip port)
    with snoc.IH show ?thesis
      using count_of_reset [OF d, of ip port] by (auto simp: count_of_None)
  qed
qed

section \<open>Packets\<close>

text \<open>An IP header of UDP (its options included), as the kernel puts it before the datagram.\<close>

definition ip_header :: "byte list \<Rightarrow> nat \<Rightarrow> nat \<Rightarrow> bool" where
  "ip_header hdr src dst \<longleftrightarrow>
     20 \<le> length hdr \<and> length hdr = of_char (hd hdr) mod 16 * 4 \<and> hdr ! 9 = char_of IPPROTO_UDP
     \<and> take 4 (drop 12 hdr) = enc_le 4 src \<and> take 4 (drop 16 hdr) = enc_le 4 dst
     \<and> src < 2 ^ 32 \<and> dst < 2 ^ 32"

lemma load_prefix [simp]: "a + n \<le> length xs \<Longrightarrow> load (xs @ ys) a n = Some (take n (drop a xs))"
  by (simp add: load_def)

lemma load_skip [simp]: "load (xs @ ys) (length xs + a) n = load ys a n"
  by (simp add: load_def)

lemma load_skip0 [simp]: "load (xs @ ys) (length xs) n = load ys 0 n"
  using load_skip [of xs ys 0 n] by simp

lemma recv_into_append: "length pkt \<le> BUFFER_SIZE \<Longrightarrow> recv_into buf pkt = pkt @ drop (length pkt) buf"
  by (simp add: recv_into_def Let_def)

lemma ihl_bound: "ip_header hdr s d \<Longrightarrow> length hdr \<le> 60"
proof -
  assume "ip_header hdr s d"
  moreover have "(n::nat) mod 16 \<le> 15" for n using mod_less_divisor [of 16 n] by simp
  ultimately show ?thesis using mult_le_mono1 [of "of_char (hd hdr) mod 16" 15 4] by (simp add: ip_header_def)
qed

lemma header_fields:
  assumes "ip_header hdr src dst"
  shows "ip_hdr_len (hdr @ r) = Some (length hdr)"
    and "byte_at (hdr @ r) 9 = Some IPPROTO_UDP"
    and "u32_at (hdr @ r) 12 = Some src"
    and "u32_at (hdr @ r) 16 = Some dst"
proof -
  have "hdr \<noteq> []" using assms by (auto simp: ip_header_def)
  then have "hd (take 1 hdr) = hd hdr" by (cases hdr) auto
  then show "ip_hdr_len (hdr @ r) = Some (length hdr)"
    using assms by (simp add: ip_hdr_len_def byte_at_def ip_header_def)
  have "hd (take 1 (drop 9 hdr)) = hdr ! 9"
    using assms by (simp add: hd_drop_conv_nth ip_header_def)
  then show "byte_at (hdr @ r) 9 = Some IPPROTO_UDP"
    using assms by (simp add: byte_at_def ip_header_def IPPROTO_UDP_def)
  show "u32_at (hdr @ r) 12 = Some src" "u32_at (hdr @ r) 16 = Some dst"
    using assms by (simp_all add: u32_at_def ip_header_def dec_enc_le)
qed

lemma udp_fields:
  assumes "sp < 65536" "dp < 65536" "len < 65536"
  shows "u16_at (hdr @ udp_header sp dp len c @ r) (length hdr) = Some sp"
    and "u16_at (hdr @ udp_header sp dp len c @ r) (length hdr + 2) = Some dp"
    and "u16_at (hdr @ udp_header sp dp len c @ r) (length hdr + 4) = Some len"
  using assms by (simp_all add: u16_at_def udp_header_def htons_def ntohs_def dec_enc_be load_def)

lemma payload_field:
  "copy_payload (hdr @ udp_header sp dp len c @ p @ r) (length hdr + UDP_HDR) (int (UDP_HDR + length p) - int UDP_HDR) = Some p"
proof -
  have "load (udp_header sp dp len c @ p @ r) UDP_HDR (length p) = load (p @ r) 0 (length p)"
    using load_skip0 [of "udp_header sp dp len c" "p @ r" "length p"] by simp
  then show ?thesis by (simp add: copy_payload_def)
qed

text \<open>The server on a well-formed packet.\<close>

lemma server_on_packet:
  assumes h: "ip_header hdr src dst" and ports: "sp < 65536" "port < 65536"
    and fits: "length hdr + UDP_HDR + length p \<le> 65535"
  shows "process_incoming_packet port ok (recv_into buf (hdr @ udp_header sp port (UDP_HDR + length p) c @ p)) db =
    (if cstr p = SHUTDOWN_MSG then Some (reset_client src sp db, None)
     else case send_raw_reply ok dst src port sp (cstr p) (snd (count_message src sp db)) of
       Packet q \<Rightarrow> Some (fst (count_message src sp db), Some (src, q))
     | NoMemory \<Rightarrow> Some (fst (count_message src sp db), None) | Overflow \<Rightarrow> None)"
proof -
  let ?pkt = "hdr @ udp_header sp port (UDP_HDR + length p) c @ p"
  have buf: "recv_into buf ?pkt = hdr @ udp_header sp port (UDP_HDR + length p) c @ p @ drop (length ?pkt) buf"
    using fits by (subst recv_into_append) (simp_all add: BUFFER_SIZE_def)
  have len: "UDP_HDR + length p < 65536" using fits by simp
  show ?thesis
    unfolding process_incoming_packet_def buf
    by (simp add: header_fields [OF h] udp_fields [OF ports len] payload_field case_prod_unfold Let_def
        del: of_nat_add add_2_eq_Suc')
qed

lemma client_on_packet:
  assumes h: "ip_header hdr src dst" and ports: "sp < 65536" "port < 65536"
    and fits: "length hdr + UDP_HDR + length p \<le> 65536"
  shows "reply_text port sp (recv_into buf (hdr @ udp_header sp port (UDP_HDR + length p) c @ p)) = Some (Some (cstr p))"
proof -
  let ?pkt = "hdr @ udp_header sp port (UDP_HDR + length p) c @ p"
  have buf: "recv_into buf ?pkt = hdr @ udp_header sp port (UDP_HDR + length p) c @ p @ drop (length ?pkt) buf"
    using fits by (subst recv_into_append) (simp_all add: BUFFER_SIZE_def)
  have len: "UDP_HDR + length p < 65536" using fits h by (simp add: ip_header_def)
  show ?thesis
    unfolding reply_text_def buf
    by (simp add: header_fields [OF h] udp_fields [OF ports len] payload_field del: of_nat_add add_2_eq_Suc')
qed

lemma count_int32: "is_int32 (snd (count_message ip port db))"
proof -
  have "snd (count_message ip port db) = 0 \<or> (\<exists>n. snd (count_message ip port db) = to_int32 n)"
    by (auto simp: count_message_def Let_def split: prod.split option.split)
  then show ?thesis
    by (elim disjE exE) (simp_all, simp add: is_int32_def)
qed

lemma count_range: "length (fmt_d (snd (count_message ip port db))) \<le> 11"
  by (rule length_fmt_d [OF count_int32])

lemma length_cstr: "length (cstr p) \<le> length p"
  by (simp add: cstr_def length_takeWhile_le)

lemma reply_packet:
  assumes "length txt + 12 \<le> 65528" "n = snd (count_message ip port db)"
  shows "\<exists>c. send_raw_reply True s d sp dp txt n =
    Packet (udp_header sp dp (UDP_HDR + length (txt @ '' '' @ fmt_d n)) c @ txt @ '' '' @ fmt_d n)"
proof -
  have "UDP_HDR + length (txt @ '' '' @ fmt_d n) \<le> BUFFER_SIZE"
    using assms count_range [of ip port db] by (simp add: UDP_HDR_def BUFFER_SIZE_def)
  then show ?thesis unfolding send_raw_reply_def build_udp_packet_def Let_def
    by (simp del: length_append) blast
qed

section \<open>Properties\<close>

lemma echo_exchange:
  assumes "ip_header h1 cip sip" "ip_header h2 sip cip" "cport < 65536" "sport < 65536"
    and "no_nul msg" "msg \<noteq> SHUTDOWN_MSG" "length msg \<le> 1022"
  shows "\<exists>d db' r n. send_raw_message True cip sip cport sport msg = Packet d
     \<and> count_message cip cport db = (db', n)
     \<and> process_incoming_packet sport True (recv_into b1 (h1 @ d)) db = Some (db', Some (cip, r))
     \<and> wait_for_server_reply cport sport 5 b2 [Some (h2 @ r)] = Some (Some (msg @ '' '' @ fmt_d n))"
proof -
  obtain db' n where n: "count_message cip cport db = (db', n)" by (cases "count_message cip cport db")
  obtain c where d: "send_raw_message True cip sip cport sport msg = Packet (udp_header cport sport (UDP_HDR + length msg) c @ msg)"
    using assms(7) by (simp add: send_raw_message_def build_udp_packet_def Let_def UDP_HDR_def BUFFER_SIZE_def)
  let ?t = "msg @ '' '' @ fmt_d n"
  obtain c' where r: "send_raw_reply True sip cip sport cport msg n = Packet (udp_header sport cport (UDP_HDR + length ?t) c' @ ?t)"
    using reply_packet [of msg n cip cport db sip cip sport cport] assms(7) n by auto
  have msg: "cstr msg = msg" and t: "cstr ?t = ?t" using assms(5) by (simp_all add: cstr_no_nul)
  have "length (fmt_d n) \<le> 11" using count_range [of cip cport db] n by simp
  then have fits: "length h1 + UDP_HDR + length msg \<le> 65535" "length h2 + UDP_HDR + length ?t \<le> 65536"
    using ihl_bound [OF assms(1)] ihl_bound [OF assms(2)] assms(7) by (simp_all add: UDP_HDR_def)
  have "process_incoming_packet sport True (recv_into b1 (h1 @ udp_header cport sport (UDP_HDR + length msg) c @ msg)) db
      = Some (db', Some (cip, udp_header sport cport (UDP_HDR + length ?t) c' @ ?t))"
    using server_on_packet [OF assms(1,3,4) fits(1), of True b1 c db] assms(6) msg n r by simp
  moreover have "wait_for_server_reply cport sport 5 b2 [Some (h2 @ udp_header sport cport (UDP_HDR + length ?t) c' @ ?t)] = Some (Some ?t)"
    using client_on_packet [OF assms(2,4,3) fits(2), of b2 c'] t by (simp add: eval_nat_numeral)
  ultimately show ?thesis using d n by blast
qed

text \<open>C17: A message typed into the client, sent to a server of any table, comes back to the client and is
  shown as the message followed by the count the server gives this client, whatever IP options the
  two packets carry and whatever the buffers held before.\<close>
theorem echo_round_trip:
  assumes "ip_header h1 cip sip" "ip_header h2 sip cip" "cport < 65536" "sport < 65536"
    and "no_nul msg" "msg \<noteq> SHUTDOWN_MSG" "length msg \<le> 1022"
  shows "\<exists>d db' r n. send_raw_message True cip sip cport sport msg = Packet d
     \<and> count_message cip cport db = (db', n)
     \<and> process_incoming_packet sport True (recv_into b1 (h1 @ d)) db = Some (db', Some (cip, r))
     \<and> wait_for_server_reply cport sport 5 b2 [Some (h2 @ r)] = Some (Some (msg @ '' '' @ fmt_d n))"
  using assms by (rule echo_exchange)

definition example_header :: "nat \<Rightarrow> nat \<Rightarrow> byte list" where
  "example_header src dst = char_of (69::nat) # replicate 8 NUL @ [char_of IPPROTO_UDP] @ replicate 2 NUL @ enc_le 4 src @ enc_le 4 dst"

lemma example_header_ok: "src < 2 ^ 32 \<Longrightarrow> dst < 2 ^ 32 \<Longrightarrow> ip_header (example_header src dst) src dst"
  by (simp add: ip_header_def example_header_def nth_Cons' nth_append)

lemma length_example_header: "length (example_header src dst) = 20"
  by (simp add: example_header_def)

theorem echo_round_trip_witness:
  "\<exists>d db' r n. send_raw_message True 1 2 5000 7 ''hi'' = Packet d
     \<and> count_message 1 5000 init_client_db = (db', n)
     \<and> process_incoming_packet 7 True (recv_into [] (example_header 1 2 @ d)) init_client_db = Some (db', Some (1, r))
     \<and> wait_for_server_reply 5000 7 5 [] [Some (example_header 2 1 @ r)] = Some (Some (''hi'' @ '' '' @ fmt_d n))"
  by (rule echo_round_trip) (simp_all add: example_header_ok SHUTDOWN_MSG_def)

text \<open>C35: After any history of messages and shutdowns, the reply to a client that is one of the first 128
  senders carries the number of its messages since its last shutdown (as an \<open>int\<close>), this one included;
  every other client gets the count 0, for ever: entries are never freed.\<close>
theorem reply_counts_messages:
  "snd (count_message ip port (fold table_step es init_client_db)) =
    (if (ip, port) \<in> set (take MAX_CLIENTS (nub (senders es @ [(ip, port)])))
     then to_int32 (int (since_shutdown (ip, port) es) + 1) else 0)"
proof -
  let ?db = "fold table_step es init_client_db" and ?es = "es @ [Message ip port]"
  have keys: "client_keys (fst (count_message ip port ?db)) = take MAX_CLIENTS (nub (senders es @ [(ip, port)]))"
    using table_keys [of ?es] by simp
  have d: "distinct (client_keys ?db)" by (rule table_distinct)
  show ?thesis
  proof (cases "count_of ?db (ip, port)")
    case (Some n)
    then have k: "(ip, port) \<in> set (client_keys ?db)" using count_of_None [of ?db "(ip, port)"] by auto
    then have "n = to_int32 (int (since_shutdown (ip, port) es))" using table_counts [of es] Some by simp
    moreover have "(ip, port) \<in> set (take MAX_CLIENTS (nub (senders es @ [(ip, port)])))"
      using k by (simp add: keys [symmetric] client_keys_count client_keys_find_or_create)
    ultimately show ?thesis using count_message_known [OF d Some] by (simp add: to_int32_Suc)
  next
    case None
    then have no: "(ip, port) \<notin> set (client_keys ?db)" by (simp add: count_of_None)
    show ?thesis
    proof (cases "length ?db < MAX_CLIENTS")
      case True
      then have "(ip, port) \<in> set (take MAX_CLIENTS (nub (senders es @ [(ip, port)])))"
        using no by (simp add: keys [symmetric] client_keys_count client_keys_find_or_create) (simp add: client_keys_def)
      then show ?thesis
        using count_message_new [OF d None True] table_room [OF no True] by simp
    next
      case False
      then have full: "count_message ip port ?db = (?db, 0)" using None by (intro count_message_full) simp_all
      then have "(ip, port) \<notin> set (take MAX_CLIENTS (nub (senders es @ [(ip, port)])))"
        using no keys by simp
      with full show ?thesis by simp
    qed
  qed
qed

text \<open>Every datagram the programs build passes the receiver's checksum test, whatever its addresses, ports
  and payload.\<close>
theorem built_packets_accepted:
  assumes "build_udp_packet ok src_ip dest_ip src_port dest_port payload = Packet d"
  shows "checksum_accepted src_ip dest_ip d"
proof -
  have "length payload \<le> 65528"
    using assms by (auto simp: build_udp_packet_def Let_def UDP_HDR_def BUFFER_SIZE_def split: if_splits)
  from checksum_fills [OF this, of src_ip dest_ip src_port dest_port] assms show ?thesis
    by (auto simp: build_udp_packet_def checksum_accepted_def Let_def split: if_splits)
qed

theorem built_packets_accepted_witness:
  "\<exists>d. build_udp_packet True 16777343 16777343 4000 9 ''abc'' = Packet d \<and> checksum_accepted 16777343 16777343 d"
proof -
  obtain d where d: "build_udp_packet True 16777343 16777343 4000 9 ''abc'' = Packet d"
    by (simp add: build_udp_packet_def Let_def UDP_HDR_def BUFFER_SIZE_def)
  with built_packets_accepted [OF d] show ?thesis by blast
qed

text \<open>A packet whose UDP length is that of its payload never makes the server read or write outside its
  buffers, whatever the payload and the port it is for.\<close>
theorem honest_packets_safe:
  assumes "ip_header hdr src dst" "sp < 65536" "dp < 65536" "length hdr + UDP_HDR + length p \<le> 65535"
  shows "process_incoming_packet port True (recv_into buf (hdr @ udp_header sp dp (UDP_HDR + length p) c @ p)) db \<noteq> None"
proof (cases "dp = port")
  case True
  have "20 \<le> length hdr" using assms(1) by (simp add: ip_header_def)
  then have "length (cstr p) + 12 \<le> 65528" using assms(4) length_cstr [of p] by (simp add: UDP_HDR_def)
  then show ?thesis
    using server_on_packet [OF assms(1,2) _ assms(4), of port True buf c db] assms(3) True
      reply_packet [of "cstr p" _ src sp db dst src port sp] by auto
next
  case False
  let ?pkt = "hdr @ udp_header sp dp (UDP_HDR + length p) c @ p"
  have "recv_into buf ?pkt = hdr @ udp_header sp dp (UDP_HDR + length p) c @ p @ drop (length ?pkt) buf"
    using assms(4) by (subst recv_into_append) (simp_all add: BUFFER_SIZE_def)
  moreover have "UDP_HDR + length p < 65536" using assms(4) by simp
  ultimately show ?thesis
    using False udp_fields [OF assms(2,3)] by (simp add: process_incoming_packet_def header_fields [OF assms(1)] del: add_2_eq_Suc')
qed

theorem honest_packets_safe_witness:
  "process_incoming_packet 7 True (recv_into [] (example_header 1 2 @ udp_header 5000 7 (UDP_HDR + length ''hi'') 0 @ ''hi'')) init_client_db \<noteq> None"
  by (rule honest_packets_safe [OF example_header_ok]) (simp_all add: length_example_header UDP_HDR_def)

text \<open>A packet for the server's port whose UDP length field is less than the header's 8 bytes makes the
  server copy a negative number of bytes.\<close>
theorem short_udp_length_faults:
  assumes "ip_header hdr src dst" "sp < 65536" "port < 65536" "len < UDP_HDR"
    and "length hdr + UDP_HDR + length p \<le> BUFFER_SIZE"
  shows "process_incoming_packet port ok (recv_into buf (hdr @ udp_header sp port len c @ p)) db = None"
proof -
  let ?pkt = "hdr @ udp_header sp port len c @ p"
  have "recv_into buf ?pkt = hdr @ udp_header sp port len c @ p @ drop (length ?pkt) buf"
    using assms(5) by (subst recv_into_append) simp_all
  moreover have "len < 65536" using assms(4) by (simp add: UDP_HDR_def)
  ultimately show ?thesis
    using udp_fields [OF assms(2,3), of len] assms(4)
    by (simp add: process_incoming_packet_def header_fields [OF assms(1)] copy_payload_def del: add_2_eq_Suc')
qed

theorem short_udp_length_faults_witness:
  "process_incoming_packet 7 True (recv_into [] (example_header 1 2 @ udp_header 5000 7 0 0 @ [])) init_client_db = None"
  by (rule short_udp_length_faults [OF example_header_ok])
    (simp_all add: length_example_header UDP_HDR_def BUFFER_SIZE_def)

section \<open>The end of the client\<close>

lemma client_loop_end:
  "client_loop send cp sp buf pp es = Some out \<Longrightarrow> out \<noteq> [] \<and> last out = Sent (send SHUTDOWN_MSG)"
proof (induction es arbitrary: pp out)
  case (Cons e es)
  show ?case
  proof (cases e)
    case (StdinLine l rx)
    with Cons show ?thesis by (auto simp: Let_def split: if_splits Option.bind_splits)
  qed (use Cons in \<open>auto split: if_splits Option.bind_splits\<close>)
qed auto

text \<open>However the client ends, the last thing it does is to tell the server, and it closes its sockets, also the one
  that could not be bound.\<close>
theorem raw_client_says_goodbye:
  assumes "raw_client_main inet_addr argv sock dummy malloc_ok buf es = Some (0, fds, out)"
  shows "fds = {} \<and> out \<noteq> [] \<and> last out = Sent (send_raw_message malloc_ok (inet_addr (argv ! 1)) (inet_addr (argv ! 3))
    (udp_port (argv ! 2)) (udp_port (argv ! 4)) SHUTDOWN_MSG)"
  using assms
  by (auto simp: raw_client_main_def reserve_local_port_def raw_client_def dest!: client_loop_end split: if_splits Option.bind_splits)

theorem raw_client_says_goodbye_witness:
  "\<exists>fds out. raw_client_main (\<lambda>_. 1) [''c'', ''10.0.0.2'', ''5000'', ''10.0.0.1'', ''6000''] 3 4 True [] [SelectIdle, StdinEof] = Some (0, fds, out)
    \<and> fds = {} \<and> out \<noteq> []"
proof -
  obtain fds out where r: "raw_client_main (\<lambda>_. 1) [''c'', ''10.0.0.2'', ''5000'', ''10.0.0.1'', ''6000''] 3 4 True [] [SelectIdle, StdinEof]
      = Some (0, fds, out)"
    by (simp add: raw_client_main_def reserve_local_port_def raw_client_def)
  with raw_client_says_goodbye [OF r] show ?thesis by blast
qed

section \<open>A late reply\<close>

text \<open>Replies carry nothing that ties them to a message: when the reply to a line comes after the five receptions in which
  the client waits for it, it is shown as the reply to the next line.\<close>
theorem late_reply_answers_next_line:
  assumes "ip_header h sip cip" "sport < 65536" "cport < 65536" "is_int32 n"
    and "strip_eol l1 \<noteq> []" "no_nul l1" "length l1 \<le> 1023" "strip_eol l2 \<noteq> []"
    and "send_raw_reply True sip cip sport cport (strip_eol l1) n = Packet r"
  shows "client_loop send cport sport buf True [StdinLine l1 (replicate 5 None), StdinLine l2 (Some (h @ r) # rx)] =
    Some [Prompt, Sent (send (strip_eol l1)), NoReply,
      Prompt, Sent (send (strip_eol l2)), Shown (strip_eol l1 @ '' '' @ fmt_d n), Sent (send SHUTDOWN_MSG)]"
proof -
  let ?t = "strip_eol l1 @ '' '' @ fmt_d n"
  have len: "length (strip_eol l1) \<le> 1023" using assms(7) length_takeWhile_le [of _ l1] by (simp add: strip_eol_def) (rule order_trans)
  have fmt: "length (fmt_d n) \<le> 11" by (rule length_fmt_d [OF assms(4)])
  obtain c where r: "r = udp_header sport cport (UDP_HDR + length ?t) c @ ?t"
    using assms(9) len fmt
    by (auto simp: send_raw_reply_def build_udp_packet_def Let_def UDP_HDR_def BUFFER_SIZE_def split: if_splits)
  have "no_nul (strip_eol l1)" using assms(6) by (auto simp: strip_eol_def no_nul_def dest: set_takeWhileD)
  then have t: "cstr ?t = ?t" by (simp add: cstr_no_nul)
  have fits: "length h + UDP_HDR + length ?t \<le> 65536" using ihl_bound [OF assms(1)] len fmt by (simp add: UDP_HDR_def)
  have "reply_text cport sport (recv_into buf (h @ r)) = Some (Some ?t)"
    using client_on_packet [OF assms(1-3) fits, of buf c] t by (simp add: r)
  then have "wait_for_server_reply cport sport 5 buf (Some (h @ r) # rx) = Some (Some ?t)"
    by (simp add: eval_nat_numeral)
  moreover have "wait_for_server_reply cport sport 5 buf (replicate 5 None) = Some None"
    by (simp add: eval_nat_numeral)
  ultimately show ?thesis using assms(5,8) by (simp add: Let_def)
qed

theorem late_reply_answers_next_line_witness:
  "\<exists>r. send_raw_reply True 2 1 7 5000 (strip_eol ''hi'') 1 = Packet r
    \<and> client_loop (send_raw_message True 1 2 5000 7) 5000 7 [] True
        [StdinLine ''hi'' (replicate 5 None), StdinLine ''ho'' [Some (example_header 2 1 @ r)]] =
      Some [Prompt, Sent (send_raw_message True 1 2 5000 7 (strip_eol ''hi'')), NoReply,
        Prompt, Sent (send_raw_message True 1 2 5000 7 (strip_eol ''ho'')), Shown (strip_eol ''hi'' @ '' '' @ fmt_d 1),
        Sent (send_raw_message True 1 2 5000 7 SHUTDOWN_MSG)]"
proof -
  obtain r where r: "send_raw_reply True 2 1 7 5000 (strip_eol ''hi'') 1 = Packet r"
    using length_fmt_d [of 1]
    by (auto simp: strip_eol_def send_raw_reply_def build_udp_packet_def Let_def UDP_HDR_def BUFFER_SIZE_def is_int32_def)
  have "client_loop (send_raw_message True 1 2 5000 7) 5000 7 [] True
        [StdinLine ''hi'' (replicate 5 None), StdinLine ''ho'' [Some (example_header 2 1 @ r)]] =
      Some [Prompt, Sent (send_raw_message True 1 2 5000 7 (strip_eol ''hi'')), NoReply,
        Prompt, Sent (send_raw_message True 1 2 5000 7 (strip_eol ''ho'')), Shown (strip_eol ''hi'' @ '' '' @ fmt_d 1),
        Sent (send_raw_message True 1 2 5000 7 SHUTDOWN_MSG)]"
    by (rule late_reply_answers_next_line [OF example_header_ok _ _ _ _ _ _ _ r]) (simp_all add: is_int32_def strip_eol_def)
  with r show ?thesis by blast
qed

end
