(* ===== verification/RawNet.thy ===== *)
theory RawNet
  imports RawEchoProofs StepSystem
begin

text \<open>
  The echo server and any number of its clients on one network that may lose, repeat and reorder packets: a packet
  received is any that was sent to that address. Clients have ports of their own on their hosts, other than the
  server's; what becomes of a client with the server's port is the last theorem.
\<close>

section \<open>The network\<close>

record raw_peer =
  rc_ip :: nat
  rc_port :: nat
  rc_typed :: "string list"
  rc_shown :: "string list"

text \<open>The server's table, the packets with their IP headers that were ever sent, the clients.\<close>

record raw_net =
  table :: client_db
  wire :: "byte list list"
  clients :: "raw_peer list"

definition empty_net :: raw_net where
  "empty_net = \<lparr>table = init_client_db, wire = [], clients = []\<rparr>"

definition addressed_to :: "nat \<Rightarrow> byte list \<Rightarrow> bool" where
  "addressed_to ip p \<longleftrightarrow> u32_at p 16 = Some ip"

text \<open>
  A client comes, sends a line, tells the server that it goes, or gets a reply in one of the five receptions; the
  server handles a packet. \<open>buf\<close> is what a receive buffer holds before.
\<close>

inductive raw_step :: "nat \<Rightarrow> nat \<Rightarrow> raw_net \<Rightarrow> raw_net \<Rightarrow> bool" for sip sport where
  come: "ip < 2 ^ 32 \<Longrightarrow> port < 65536 \<Longrightarrow> port \<noteq> sport \<Longrightarrow> \<forall>c \<in> set (clients s). \<not> (rc_ip c = ip \<and> rc_port c = port) \<Longrightarrow>
    raw_step sip sport s (s\<lparr>clients := clients s @ [\<lparr>rc_ip = ip, rc_port = port, rc_typed = [], rc_shown = []\<rparr>]\<rparr>)"
| line: "i < length (clients s) \<Longrightarrow> c = clients s ! i \<Longrightarrow> no_nul l \<Longrightarrow> length l < 1024 \<Longrightarrow> strip_eol l \<noteq> [] \<Longrightarrow>
    send_raw_message True (rc_ip c) sip (rc_port c) sport (strip_eol l) = Packet d \<Longrightarrow> ip_header h (rc_ip c) sip \<Longrightarrow>
    raw_step sip sport s (s\<lparr>wire := wire s @ [h @ d], clients := (clients s)[i := c\<lparr>rc_typed := rc_typed c @ [strip_eol l]\<rparr>]\<rparr>)"
| goodbye: "i < length (clients s) \<Longrightarrow> c = clients s ! i \<Longrightarrow>
    send_raw_message True (rc_ip c) sip (rc_port c) sport SHUTDOWN_MSG = Packet d \<Longrightarrow> ip_header h (rc_ip c) sip \<Longrightarrow>
    raw_step sip sport s (s\<lparr>wire := wire s @ [h @ d]\<rparr>)"
| serve: "p \<in> set (wire s) \<Longrightarrow> process_incoming_packet sport ok (recv_into buf p) (table s) = Some (db, r) \<Longrightarrow>
    (case r of None \<Rightarrow> ps = [] | Some (dst, d) \<Rightarrow> \<exists>h. ip_header h sip dst \<and> ps = [h @ d]) \<Longrightarrow>
    raw_step sip sport s (s\<lparr>table := db, wire := wire s @ ps\<rparr>)"
| reply: "i < length (clients s) \<Longrightarrow> c = clients s ! i \<Longrightarrow> \<forall>p. Some p \<in> set rx \<longrightarrow> p \<in> set (wire s) \<and> addressed_to (rc_ip c) p \<Longrightarrow>
    wait_for_server_reply (rc_port c) sport 5 buf rx = Some (Some t) \<Longrightarrow>
    raw_step sip sport s (s\<lparr>clients := (clients s)[i := c\<lparr>rc_shown := rc_shown c @ [t]\<rparr>]\<rparr>)"

section \<open>The packets on the network\<close>

text \<open>A request of \<open>c\<close>, and a reply to it: to a line it typed, with some count behind it.\<close>

definition request_of :: "nat \<Rightarrow> nat \<Rightarrow> raw_peer \<Rightarrow> byte list \<Rightarrow> bool" where
  "request_of sip sport c p \<longleftrightarrow> (\<exists>h k msg. ip_header h (rc_ip c) sip
     \<and> p = h @ udp_header (rc_port c) sport (UDP_HDR + length msg) k @ msg \<and> no_nul msg \<and> length msg < 1024
     \<and> (msg = SHUTDOWN_MSG \<or> msg \<in> set (rc_typed c)))"

definition echo_of :: "raw_peer \<Rightarrow> string \<Rightarrow> bool" where
  "echo_of c t \<longleftrightarrow> (\<exists>msg n. msg \<in> set (rc_typed c) \<and> is_int32 n \<and> no_nul msg \<and> length msg < 1024 \<and> t = msg @ '' '' @ fmt_d n)"

definition reply_to :: "nat \<Rightarrow> nat \<Rightarrow> raw_peer \<Rightarrow> byte list \<Rightarrow> bool" where
  "reply_to sip sport c p \<longleftrightarrow> (\<exists>h k t. ip_header h sip (rc_ip c)
     \<and> p = h @ udp_header sport (rc_port c) (UDP_HDR + length t) k @ t \<and> echo_of c t)"

definition raw_inv :: "nat \<Rightarrow> nat \<Rightarrow> raw_net \<Rightarrow> bool" where
  "raw_inv sip sport s \<longleftrightarrow>
     distinct (map (\<lambda>c. (rc_ip c, rc_port c)) (clients s))
     \<and> (\<forall>c \<in> set (clients s). rc_ip c < 2 ^ 32 \<and> rc_port c < 65536 \<and> rc_port c \<noteq> sport \<and> (\<forall>t \<in> set (rc_shown c). echo_of c t))
     \<and> (\<forall>p \<in> set (wire s). \<exists>c \<in> set (clients s). request_of sip sport c p \<or> reply_to sip sport c p)"

lemma echo_of_shown:
  assumes "echo_of c t"
  shows "cstr t = t" "length t \<le> 1035"
  using assms length_fmt_d by (auto simp: echo_of_def cstr_no_nul) fastforce

lemma server_on_request:
  assumes "request_of sip sport c p" "rc_port c < 65536" "sport < 65536"
  shows "\<exists>db' r. process_incoming_packet sport ok (recv_into buf p) db = Some (db', r)
    \<and> (case r of None \<Rightarrow> True | Some (dst, d) \<Rightarrow> dst = rc_ip c \<and> (\<exists>t k. echo_of c t
        \<and> d = udp_header sport (rc_port c) (UDP_HDR + length t) k @ t))"
proof -
  obtain h k msg where p: "ip_header h (rc_ip c) sip" "p = h @ udp_header (rc_port c) sport (UDP_HDR + length msg) k @ msg"
      "no_nul msg" "length msg < 1024" "msg = SHUTDOWN_MSG \<or> msg \<in> set (rc_typed c)"
    using assms(1) by (auto simp: request_of_def)
  let ?n = "snd (count_message (rc_ip c) (rc_port c) db)"
  have fits: "length h + UDP_HDR + length msg \<le> 65535" using ihl_bound [OF p(1)] p(4) by (simp add: UDP_HDR_def)
  note step = server_on_packet [OF p(1) assms(2,3) fits, of ok buf k db]
  have msg: "cstr msg = msg" using p(3) by (rule cstr_no_nul)
  show ?thesis
  proof (cases "msg = SHUTDOWN_MSG")
    case True
    then show ?thesis using step msg p(2) by simp
  next
    case False
    have n: "is_int32 ?n" by (rule count_int32)
    have "echo_of c (msg @ '' '' @ fmt_d ?n)" using False p(3-5) n by (auto simp: echo_of_def)
    moreover have "send_raw_reply ok sip (rc_ip c) sport (rc_port c) msg ?n = NoMemory
        \<or> (\<exists>k. send_raw_reply ok sip (rc_ip c) sport (rc_port c) msg ?n =
            Packet (udp_header sport (rc_port c) (UDP_HDR + length (msg @ '' '' @ fmt_d ?n)) k @ msg @ '' '' @ fmt_d ?n))"
      using length_fmt_d [OF n] p(4)
      by (auto simp: send_raw_reply_def build_udp_packet_def Let_def UDP_HDR_def BUFFER_SIZE_def)
    ultimately show ?thesis using step msg p(2) False by auto
  qed
qed

lemma reply_text_packet:
  assumes h: "ip_header hdr src dst" and ports: "s < 65536" "d < 65536" and fits: "length hdr + UDP_HDR + length p \<le> 65536"
  shows "reply_text cp sp (recv_into buf (hdr @ udp_header s d (UDP_HDR + length p) c @ p)) =
    Some (if d = cp \<and> s = sp then Some (cstr p) else None)"
proof (cases "d = cp \<and> s = sp")
  case True
  then show ?thesis using client_on_packet [OF h ports fits, of buf c] by simp
next
  case False
  let ?pkt = "hdr @ udp_header s d (UDP_HDR + length p) c @ p"
  have buf: "recv_into buf ?pkt = hdr @ udp_header s d (UDP_HDR + length p) c @ p @ drop (length ?pkt) buf"
    using fits by (subst recv_into_append) (simp_all add: BUFFER_SIZE_def)
  have len: "UDP_HDR + length p < 65536" using fits h by (simp add: ip_header_def)
  from False consider "d \<noteq> cp" | "s \<noteq> sp" by blast
  then show ?thesis
    unfolding reply_text_def buf
    by cases (simp_all add: header_fields [OF h] udp_fields [OF ports len] del: add_2_eq_Suc')
qed

lemma reply_comes_from:
  "wait_for_server_reply cp sp n buf rx = Some (Some t) \<Longrightarrow>
   \<exists>p buf'. Some p \<in> set rx \<and> reply_text cp sp (recv_into buf' p) = Some (Some t)"
proof (induction n arbitrary: buf rx)
  case (Suc n)
  show ?case
  proof (cases rx)
    case (Cons r rs)
    show ?thesis
    proof (cases r)
      case None
      with Suc Cons show ?thesis by auto
    next
      case (Some p)
      obtain q where q: "reply_text cp sp (recv_into buf p) = Some q"
        using Suc.prems Cons Some by (cases "reply_text cp sp (recv_into buf p)") (simp_all add: Let_def)
      show ?thesis
      proof (cases q)
        case None
        with Suc Cons Some q have "\<exists>p buf'. Some p \<in> set rs \<and> reply_text cp sp (recv_into buf' p) = Some (Some t)"
          by (auto simp: Let_def)
        with Cons show ?thesis by auto
      next
        case (Some u)
        with Suc.prems Cons \<open>r = Some p\<close> q show ?thesis by (auto simp: Let_def)
      qed
    qed
  qed (use Suc in simp)
qed simp

lemma client_takes_echo:
  assumes "raw_inv sip sport s" "sport < 65536" "c \<in> set (clients s)" "p \<in> set (wire s)" "addressed_to (rc_ip c) p"
    and "reply_text (rc_port c) sport (recv_into buf p) = Some (Some t)"
  shows "echo_of c t"
proof -
  obtain a where a: "a \<in> set (clients s)" "request_of sip sport a p \<or> reply_to sip sport a p"
    using assms(1,4) by (auto simp: raw_inv_def)
  have ports: "rc_port a < 65536" "rc_port a \<noteq> sport" using assms(1) a(1) by (auto simp: raw_inv_def)
  from a(2) show ?thesis
  proof
    assume "request_of sip sport a p"
    then obtain h k msg where p: "ip_header h (rc_ip a) sip" "p = h @ udp_header (rc_port a) sport (UDP_HDR + length msg) k @ msg"
        "length msg < 1024"
      by (auto simp: request_of_def)
    have "length h + UDP_HDR + length msg \<le> 65536" using ihl_bound [OF p(1)] p(3) by (simp add: UDP_HDR_def)
    from reply_text_packet [OF p(1) ports(1) assms(2) this] assms(6) p(2) ports(2) show ?thesis by (auto split: if_splits)
  next
    assume "reply_to sip sport a p"
    then obtain h k t' where p: "ip_header h sip (rc_ip a)" "p = h @ udp_header sport (rc_port a) (UDP_HDR + length t') k @ t'"
        "echo_of a t'"
      by (auto simp: reply_to_def)
    have "length h + UDP_HDR + length t' \<le> 65536" using ihl_bound [OF p(1)] echo_of_shown(2) [OF p(3)] by (simp add: UDP_HDR_def)
    from reply_text_packet [OF p(1) assms(2) ports(1) this] assms(6) p(2) echo_of_shown(1) [OF p(3)]
    have "rc_port a = rc_port c" "t = t'" by (auto split: if_splits)
    moreover have "rc_ip a = rc_ip c" using assms(5) header_fields(4) [OF p(1)] by (simp add: addressed_to_def p(2))
    moreover have "inj_on (\<lambda>c. (rc_ip c, rc_port c)) (set (clients s))" using assms(1) by (simp add: raw_inv_def distinct_map)
    ultimately have "a = c" using a(1) assms(3) by (auto dest: inj_onD)
    with p(3) \<open>t = t'\<close> show ?thesis by simp
  qed
qed

section \<open>The invariant\<close>

text \<open>A client that has typed or shown more.\<close>

definition later :: "raw_peer \<Rightarrow> raw_peer \<Rightarrow> bool" where
  "later a b \<longleftrightarrow> rc_ip b = rc_ip a \<and> rc_port b = rc_port a \<and> set (rc_typed a) \<subseteq> set (rc_typed b)"

lemma later_echo: "later a b \<Longrightarrow> echo_of a t \<Longrightarrow> echo_of b t"
  by (auto simp: later_def echo_of_def)

lemma later_packet:
  "later a b \<Longrightarrow> request_of sip sport a p \<or> reply_to sip sport a p \<Longrightarrow> request_of sip sport b p \<or> reply_to sip sport b p"
proof (elim disjE)
  assume l: "later a b" and "request_of sip sport a p"
  then obtain h k msg where "ip_header h (rc_ip a) sip" "p = h @ udp_header (rc_port a) sport (UDP_HDR + length msg) k @ msg"
      "no_nul msg" "length msg < 1024" "msg = SHUTDOWN_MSG \<or> msg \<in> set (rc_typed a)"
    unfolding request_of_def by blast
  moreover from this l have "msg = SHUTDOWN_MSG \<or> msg \<in> set (rc_typed b)" by (auto simp: later_def)
  ultimately have "request_of sip sport b p" using l unfolding request_of_def later_def by auto
  then show ?thesis ..
next
  assume l: "later a b" and "reply_to sip sport a p"
  then obtain h k t where "ip_header h sip (rc_ip a)" "p = h @ udp_header sport (rc_port a) (UDP_HDR + length t) k @ t" "echo_of a t"
    unfolding reply_to_def by blast
  moreover from this l have "echo_of b t" by (blast intro: later_echo)
  ultimately have "reply_to sip sport b p" using l unfolding reply_to_def later_def by auto
  then show ?thesis ..
qed

text \<open>One client changes to a later state of itself and perhaps sends a packet.\<close>

lemma raw_inv_client:
  assumes "raw_inv sip sport s" "i < length (clients s)" "later (clients s ! i) c"
    and "\<forall>t \<in> set (rc_shown c). echo_of c t" "\<forall>p \<in> set ps. request_of sip sport c p"
  shows "raw_inv sip sport (s\<lparr>wire := wire s @ ps, clients := (clients s)[i := c]\<rparr>)"
proof -
  let ?cs = "(clients s)[i := c]"
  have keys: "map (\<lambda>c. (rc_ip c, rc_port c)) ?cs = map (\<lambda>c. (rc_ip c, rc_port c)) (clients s)"
    using assms(2,3) by (auto simp: map_update later_def list_update_same_conv)
  have c: "c \<in> set ?cs" using assms(2) by (rule set_update_memI)
  have old: "clients s ! i \<in> set (clients s)" using assms(2) by simp
  have shown: "rc_ip a < 2 ^ 32 \<and> rc_port a < 65536 \<and> rc_port a \<noteq> sport \<and> (\<forall>t \<in> set (rc_shown a). echo_of a t)" if "a \<in> set ?cs" for a
  proof -
    have "a = c \<or> a \<in> set (clients s)" using that set_update_subset_insert [of "clients s" i c] by auto
    then show ?thesis using assms(1,3,4) old by (elim disjE) (simp_all add: raw_inv_def later_def)
  qed
  have "\<exists>b \<in> set ?cs. later a b" if "a \<in> set (clients s)" for a
  proof (cases "a = clients s ! i")
    case True
    with assms(3) c show ?thesis by blast
  next
    case False
    then have "a \<in> set ?cs" using that by (metis in_set_conv_nth length_list_update nth_list_update_neq)
    then show ?thesis by (auto simp: later_def intro!: bexI [of _ a])
  qed
  note grown = this
  have wire: "\<exists>b \<in> set ?cs. request_of sip sport b p \<or> reply_to sip sport b p" if p: "p \<in> set (wire s)" for p
  proof -
    obtain a where a: "a \<in> set (clients s)" "request_of sip sport a p \<or> reply_to sip sport a p"
      using p assms(1) by (auto simp: raw_inv_def)
    obtain b where "b \<in> set ?cs" "later a b" using grown [OF a(1)] by blast
    with later_packet [OF _ a(2)] show ?thesis by blast
  qed
  have "\<exists>b \<in> set ?cs. request_of sip sport b p \<or> reply_to sip sport b p" if "p \<in> set (wire s @ ps)" for p
  proof (cases "p \<in> set (wire s)")
    case False
    with that assms(5) have "request_of sip sport c p" by simp
    with c show ?thesis by blast
  qed (rule wire)
  moreover have "distinct (map (\<lambda>c. (rc_ip c, rc_port c)) ?cs)" using assms(1) by (simp add: keys raw_inv_def)
  ultimately show ?thesis using shown by (simp add: raw_inv_def)
qed

lemma server_ignores_reply:
  assumes "reply_to sip sport c p" "rc_port c < 65536" "rc_port c \<noteq> sport" "sport < 65536"
  shows "process_incoming_packet sport ok (recv_into buf p) db = Some (db, None)"
proof -
  obtain h k t where p: "ip_header h sip (rc_ip c)" "p = h @ udp_header sport (rc_port c) (UDP_HDR + length t) k @ t" "echo_of c t"
    using assms(1) by (auto simp: reply_to_def)
  have len: "length h + UDP_HDR + length t \<le> 65535" using ihl_bound [OF p(1)] echo_of_shown(2) [OF p(3)] by (simp add: UDP_HDR_def)
  then have "recv_into buf p = h @ udp_header sport (rc_port c) (UDP_HDR + length t) k @ t @ drop (length p) buf"
    by (subst recv_into_append) (simp_all add: p(2) BUFFER_SIZE_def)
  moreover have "UDP_HDR + length t < 65536" using len by simp
  ultimately show ?thesis
    using assms(3) udp_fields [OF assms(4,2)] by (simp add: process_incoming_packet_def header_fields [OF p(1)] del: add_2_eq_Suc')
qed

lemma server_defined:
  assumes "raw_inv sip sport s" "sport < 65536" "p \<in> set (wire s)"
  obtains c db' r where "c \<in> set (clients s)" "process_incoming_packet sport ok (recv_into buf p) db = Some (db', r)"
    "case r of None \<Rightarrow> True | Some (dst, d) \<Rightarrow> dst = rc_ip c \<and> (\<exists>t k. echo_of c t
        \<and> d = udp_header sport (rc_port c) (UDP_HDR + length t) k @ t)"
proof -
  obtain c where c: "c \<in> set (clients s)" "request_of sip sport c p \<or> reply_to sip sport c p"
    using assms(1,3) by (auto simp: raw_inv_def)
  have ports: "rc_port c < 65536" "rc_port c \<noteq> sport" using assms(1) c(1) by (auto simp: raw_inv_def)
  from c(2) show ?thesis
  proof
    assume "request_of sip sport c p"
    from server_on_request [OF this ports(1) assms(2), of ok buf db] c(1) show ?thesis using that by blast
  next
    assume "reply_to sip sport c p"
    from server_ignores_reply [OF this ports assms(2), of ok buf db] c(1) show ?thesis by (intro that [of c db None]) simp_all
  qed
qed

lemma client_defined:
  assumes "raw_inv sip sport s" "sport < 65536" "p \<in> set (wire s)"
  shows "reply_text cp sport (recv_into buf p) \<noteq> None"
proof -
  obtain c where c: "c \<in> set (clients s)" "request_of sip sport c p \<or> reply_to sip sport c p"
    using assms(1,3) by (auto simp: raw_inv_def)
  have port: "rc_port c < 65536" using assms(1) c(1) by (auto simp: raw_inv_def)
  from c(2) show ?thesis
  proof
    assume "request_of sip sport c p"
    then obtain h k msg where p: "ip_header h (rc_ip c) sip" "p = h @ udp_header (rc_port c) sport (UDP_HDR + length msg) k @ msg"
        "length msg < 1024"
      unfolding request_of_def by blast
    have "length h + UDP_HDR + length msg \<le> 65536" using ihl_bound [OF p(1)] p(3) by (simp add: UDP_HDR_def)
    from reply_text_packet [OF p(1) port assms(2) this, of cp sport buf k] p(2) show ?thesis by simp
  next
    assume "reply_to sip sport c p"
    then obtain h k t where p: "ip_header h sip (rc_ip c)" "p = h @ udp_header sport (rc_port c) (UDP_HDR + length t) k @ t" "echo_of c t"
      unfolding reply_to_def by blast
    have "length h + UDP_HDR + length t \<le> 65536" using ihl_bound [OF p(1)] echo_of_shown(2) [OF p(3)] by (simp add: UDP_HDR_def)
    from reply_text_packet [OF p(1) assms(2) port this, of cp sport buf k] p(2) show ?thesis by simp
  qed
qed

lemma raw_inv_serve:
  assumes "raw_inv sip sport s" "sport < 65536" "p \<in> set (wire s)"
    and "process_incoming_packet sport ok (recv_into buf p) (table s) = Some (db, r)"
    and "case r of None \<Rightarrow> ps = [] | Some (dst, d) \<Rightarrow> \<exists>h. ip_header h sip dst \<and> ps = [h @ d]"
  shows "raw_inv sip sport (s\<lparr>table := db, wire := wire s @ ps\<rparr>)"
proof -
  obtain c db' r' where c: "c \<in> set (clients s)" "process_incoming_packet sport ok (recv_into buf p) (table s) = Some (db', r')"
      "case r' of None \<Rightarrow> True | Some (dst, d) \<Rightarrow> dst = rc_ip c \<and> (\<exists>t k. echo_of c t
        \<and> d = udp_header sport (rc_port c) (UDP_HDR + length t) k @ t)"
    by (rule server_defined [OF assms(1-3)])
  have r: "r' = r" using c(2) assms(4) by simp
  have "reply_to sip sport c q" if q: "q \<in> set ps" for q
  proof (cases r)
    case None
    with q assms(5) show ?thesis by simp
  next
    case (Some a)
    then obtain h t k where "ip_header h sip (rc_ip c)" "echo_of c t"
        "q = h @ udp_header sport (rc_port c) (UDP_HDR + length t) k @ t"
      using c(3) r assms(5) q by (cases a) auto
    then show ?thesis unfolding reply_to_def by blast
  qed
  with c(1) assms(1) show ?thesis by (auto simp: raw_inv_def)
qed

lemma raw_inv_come:
  assumes "raw_inv sip sport s" "ip < 2 ^ 32" "port < 65536" "port \<noteq> sport" "\<forall>c \<in> set (clients s). \<not> (rc_ip c = ip \<and> rc_port c = port)"
  shows "raw_inv sip sport (s\<lparr>clients := clients s @ [\<lparr>rc_ip = ip, rc_port = port, rc_typed = [], rc_shown = []\<rparr>]\<rparr>)"
  using assms by (auto simp: raw_inv_def)

lemma built_packet:
  "send_raw_message True a b sp dp msg = Packet d \<Longrightarrow> \<exists>k. d = udp_header sp dp (UDP_HDR + length msg) k @ msg"
  by (auto simp: send_raw_message_def build_udp_packet_def Let_def split: if_splits)

lemma raw_step_inv: "raw_step sip sport s s' \<Longrightarrow> sport < 65536 \<Longrightarrow> raw_inv sip sport s \<Longrightarrow> raw_inv sip sport s'"
proof (induction rule: raw_step.induct)
  case (come ip port s)
  then show ?case by (intro raw_inv_come)
next
  case (line i s c l d h)
  let ?c = "c\<lparr>rc_typed := rc_typed c @ [strip_eol l]\<rparr>"
  obtain k where "d = udp_header (rc_port c) sport (UDP_HDR + length (strip_eol l)) k @ strip_eol l"
    using built_packet [OF line.hyps(6)] by blast
  moreover have "no_nul (strip_eol l)" using line.hyps(3) by (auto simp: strip_eol_def no_nul_def dest: set_takeWhileD)
  moreover have "length (strip_eol l) < 1024"
    using line.hyps(4) length_takeWhile_le [of _ l] unfolding strip_eol_def by (rule le_less_trans [rotated])
  ultimately have "request_of sip sport ?c (h @ d)" using line.hyps(7) unfolding request_of_def by auto
  moreover have l: "later (clients s ! i) ?c" using line.hyps(2) by (auto simp: later_def)
  moreover have "c \<in> set (clients s)" using line.hyps(1,2) by simp
  then have "\<forall>t \<in> set (rc_shown ?c). echo_of ?c t"
    using line.prems(2) later_echo [OF l] line.hyps(2) by (auto simp: raw_inv_def)
  ultimately show ?case using line.prems(2) line.hyps(1) by (intro raw_inv_client) auto
next
  case (goodbye i s c d h)
  obtain k where "d = udp_header (rc_port c) sport (UDP_HDR + length SHUTDOWN_MSG) k @ SHUTDOWN_MSG"
    using built_packet [OF goodbye.hyps(3)] by blast
  moreover have "no_nul SHUTDOWN_MSG" "length SHUTDOWN_MSG < 1024" by (simp_all add: SHUTDOWN_MSG_def)
  ultimately have "request_of sip sport c (h @ d)" using goodbye.hyps(4) unfolding request_of_def by blast
  moreover have "c \<in> set (clients s)" using goodbye.hyps(1,2) by simp
  ultimately show ?case using goodbye.prems by (auto simp: raw_inv_def)
next
  case (serve p s ok buf db r ps)
  then show ?case by (intro raw_inv_serve)
next
  case (reply i s c rx buf t)
  obtain p buf' where p: "Some p \<in> set rx" "reply_text (rc_port c) sport (recv_into buf' p) = Some (Some t)"
    using reply_comes_from [OF reply.hyps(4)] by blast
  have c: "c \<in> set (clients s)" using reply.hyps(1,2) by simp
  have "echo_of c t" using client_takes_echo [OF reply.prems(2,1) c _ _ p(2)] reply.hyps(3) p(1) by blast
  moreover have "echo_of c u" if "u \<in> set (rc_shown c)" for u using reply.prems(2) c that by (auto simp: raw_inv_def)
  moreover have "later c (c\<lparr>rc_shown := rc_shown c @ [t]\<rparr>)" by (simp add: later_def)
  ultimately show ?case
    using raw_inv_client [OF reply.prems(2) reply.hyps(1), of "c\<lparr>rc_shown := rc_shown c @ [t]\<rparr>" "[]"] reply.hyps(2) later_echo
    by auto
qed

interpretation raw: step_system "raw_step sip sport" "\<lambda>s. s = empty_net \<and> sport < 65536" "\<lambda>s. raw_inv sip sport s \<and> sport < 65536"
  for sip sport
proof unfold_locales
  show "raw_inv sip sport s \<and> sport < 65536" if "s = empty_net \<and> sport < 65536" for s
    using that by (simp add: raw_inv_def empty_net_def)
qed (blast intro: raw_step_inv)

section \<open>What reaches a client\<close>

abbreviation raw_reachable :: "nat \<Rightarrow> nat \<Rightarrow> raw_net \<Rightarrow> bool" where
  "raw_reachable sip sport s \<equiv> (raw_step sip sport)\<^sup>*\<^sup>* empty_net s"

lemma raw_reachable_inv: "raw_reachable sip sport s \<Longrightarrow> sport < 65536 \<Longrightarrow> raw_inv sip sport s"
  using raw.inv_reachable [where s = empty_net and s' = s and sip = sip and sport = sport] by blast

text \<open>Without a packet a client shows nothing and types nothing.\<close>

lemma wire_needed: "raw_reachable sip sport s \<Longrightarrow> wire s = [] \<Longrightarrow> \<forall>c \<in> set (clients s). rc_typed c = []"
proof (induction rule: rtranclp_induct)
  case (step s t)
  from step.hyps(2) step.prems step.IH show ?case
    by cases (auto simp: set_update_subset_insert dest!: set_update_subset_insert [THEN subsetD])
qed (simp add: empty_net_def)

lemma line_answered:
  assumes inv: "raw_inv sip sport s" and port: "sport < 65536" and sip: "sip < 2 ^ 32" and i: "i < length (clients s)"
    and l: "no_nul l" "length l < 1023" "strip_eol l \<noteq> []" "strip_eol l \<noteq> SHUTDOWN_MSG"
  defines "c \<equiv> clients s ! i"
  defines "n \<equiv> snd (count_message (rc_ip c) (rc_port c) (table s))"
  shows "\<exists>s'. (raw_step sip sport)\<^sup>*\<^sup>* s s' \<and> clients s' = (clients s)[i := c\<lparr>rc_typed := rc_typed c @ [strip_eol l],
    rc_shown := rc_shown c @ [strip_eol l @ '' '' @ fmt_d n]\<rparr>]"
proof -
  let ?msg = "strip_eol l"
  let ?c = "c\<lparr>rc_typed := rc_typed c @ [?msg]\<rparr>"
  have "c \<in> set (clients s)" using i by (simp add: c_def)
  then have c: "rc_ip c < 2 ^ 32" "rc_port c < 65536" using inv by (auto simp: raw_inv_def)
  have nul: "no_nul ?msg" using l(1) by (auto simp: strip_eol_def no_nul_def dest: set_takeWhileD)
  have len: "length ?msg \<le> 1022"
    using length_takeWhile_le [of "\<lambda>c. c \<noteq> CHR 0x0D \<and> c \<noteq> CHR 0x0A" l] l(2) by (simp add: strip_eol_def)
  note h = example_header_ok [OF c(1) sip] example_header_ok [OF sip c(1)]
  obtain d db r where e: "send_raw_message True (rc_ip c) sip (rc_port c) sport ?msg = Packet d"
      "process_incoming_packet sport True (recv_into [] (example_header (rc_ip c) sip @ d)) (table s) = Some (db, Some (rc_ip c, r))"
      "wait_for_server_reply (rc_port c) sport 5 [] [Some (example_header sip (rc_ip c) @ r)] = Some (Some (?msg @ '' '' @ fmt_d n))"
    using echo_exchange [OF h c(2) port nul l(4) len, where ?b1.0 = "[]" and db = "table s" and ?b2.0 = "[]"] by (auto simp: n_def)
  define s1 where "s1 = s\<lparr>wire := wire s @ [example_header (rc_ip c) sip @ d], clients := (clients s)[i := ?c]\<rparr>"
  define s2 where "s2 = s1\<lparr>table := db, wire := wire s1 @ [example_header sip (rc_ip c) @ r]\<rparr>"
  define s3 where "s3 = s2\<lparr>clients := (clients s2)[i := ?c\<lparr>rc_shown := rc_shown ?c @ [?msg @ '' '' @ fmt_d n]\<rparr>]\<rparr>"
  have "raw_step sip sport s s1"
    unfolding s1_def using i l nul e(1) h(1) by (intro raw_step.line) (simp_all add: c_def)
  moreover have "raw_step sip sport s1 s2"
    unfolding s2_def by (rule raw_step.serve [where r = "Some (rc_ip c, r)"]) (use e(2) h(2) in \<open>auto simp: s1_def\<close>)
  moreover have "raw_step sip sport s2 s3"
    unfolding s3_def
  proof (rule raw_step.reply)
    show "i < length (clients s2)" "?c = clients s2 ! i" using i by (simp_all add: s1_def s2_def)
    show "\<forall>p. Some p \<in> set [Some (example_header sip (rc_ip c) @ r)] \<longrightarrow> p \<in> set (wire s2) \<and> addressed_to (rc_ip ?c) p"
      using header_fields(4) [OF h(2)] by (simp add: s2_def addressed_to_def)
    show "wait_for_server_reply (rc_port ?c) sport 5 [] [Some (example_header sip (rc_ip c) @ r)] = Some (Some (?msg @ '' '' @ fmt_d n))"
      using e(3) by simp
  qed
  ultimately have "(raw_step sip sport)\<^sup>*\<^sup>* s s3" by (meson converse_rtranclp_into_rtranclp r_into_rtranclp)
  then show ?thesis by (intro exI [of _ s3]) (simp add: s3_def s2_def s1_def)
qed

text \<open>One client and one line: what the examples below start from.\<close>

lemma example_exchange:
  "\<exists>s c n. raw_reachable 2 7 s \<and> clients s = [c] \<and> rc_typed c = [''hi''] \<and> rc_shown c = [''hi '' @ fmt_d n]
    \<and> (\<exists>p. p \<in> set (wire s))"
proof -
  let ?s = "empty_net\<lparr>clients := [\<lparr>rc_ip = 1, rc_port = 5000, rc_typed = [], rc_shown = []\<rparr>]\<rparr>"
  have come: "raw_step 2 7 empty_net ?s"
    using raw_step.come [of 1 5000 7 empty_net 2] by (simp add: empty_net_def)
  then have s: "raw_reachable 2 7 ?s" by blast
  have hi: "strip_eol [CHR ''h'', CHR ''i'', CHR 0x0A] = ''hi''" by (simp add: strip_eol_def)
  obtain s' n where s': "(raw_step 2 7)\<^sup>*\<^sup>* ?s s'"
      "clients s' = [\<lparr>rc_ip = 1, rc_port = 5000, rc_typed = [''hi''], rc_shown = [''hi '' @ fmt_d n]\<rparr>]"
    using line_answered [OF raw_reachable_inv [OF s], of 0 "[CHR ''h'', CHR ''i'', CHR 0x0A]"]
    by (auto simp: hi no_nul_def SHUTDOWN_MSG_def)
  have r: "raw_reachable 2 7 s'" using s s'(1) by (rule rtranclp_trans)
  have "wire s' \<noteq> []" using wire_needed [OF r] s'(2) by auto
  then obtain p where "p \<in> set (wire s')" by (meson last_in_set)
  then show ?thesis using s'(2) r by (intro exI [of _ s'] exI conjI) (assumption | simp)+
qed

text \<open>C16: On a network that loses, repeats and reorders packets, with any number of clients at addresses of their own,
  every text a client shows as the server's reply is a line this client typed, followed by a space and a count.\<close>
theorem replies_are_echoes:
  assumes "raw_reachable sip sport s" "sport < 65536" "c \<in> set (clients s)" "t \<in> set (rc_shown c)"
  shows "echo_of c t"
  using raw_reachable_inv [OF assms(1,2)] assms(3,4) by (auto simp: raw_inv_def)

theorem replies_are_echoes_witness:
  "\<exists>s c t. raw_reachable 2 7 s \<and> c \<in> set (clients s) \<and> t \<in> set (rc_shown c) \<and> echo_of c t"
proof -
  obtain s c n where s: "raw_reachable 2 7 s" "clients s = [c]" "rc_shown c = [''hi '' @ fmt_d n]"
    using example_exchange by blast
  then show ?thesis using replies_are_echoes [of 2 7 s c "''hi '' @ fmt_d n"] by auto
qed

text \<open>C22: On this network neither the server nor a client ever reads or writes outside its buffers, whatever packets they
  get, in which order, and whatever their buffers held.\<close>
theorem raw_network_never_faults:
  assumes "raw_reachable sip sport s" "sport < 65536" "p \<in> set (wire s)" "c \<in> set (clients s)"
  shows "process_incoming_packet sport ok (recv_into buf p) (table s) \<noteq> None
    \<and> reply_text (rc_port c) sport (recv_into buf p) \<noteq> None"
proof
  note inv = raw_reachable_inv [OF assms(1,2)]
  show "process_incoming_packet sport ok (recv_into buf p) (table s) \<noteq> None"
    by (rule server_defined [OF inv assms(2,3), of ok buf "table s"]) simp
  show "reply_text (rc_port c) sport (recv_into buf p) \<noteq> None"
    by (rule client_defined [OF inv assms(2,3)])
qed

theorem raw_network_never_faults_witness:
  "\<exists>s p c. raw_reachable 2 7 s \<and> p \<in> set (wire s) \<and> c \<in> set (clients s)
    \<and> process_incoming_packet 7 True (recv_into [] p) (table s) \<noteq> None \<and> reply_text (rc_port c) 7 (recv_into [] p) \<noteq> None"
proof -
  obtain s c p where s: "raw_reachable 2 7 s" "clients s = [c]" "p \<in> set (wire s)"
    using example_exchange by blast
  then have "process_incoming_packet 7 True (recv_into [] p) (table s) \<noteq> None
      \<and> reply_text (rc_port c) 7 (recv_into [] p) \<noteq> None"
    by (intro raw_network_never_faults) simp_all
  with s show ?thesis by (intro exI [of _ s] exI [of _ p] exI [of _ c]) simp
qed

text \<open>Nothing the network has done before can keep a client from an answer: from every reachable state a line the
  client types can be sent, counted and shown with its count, nothing else changing at any client.\<close>
theorem line_can_be_answered:
  assumes "raw_reachable sip sport s" "sport < 65536" "sip < 2 ^ 32" "i < length (clients s)" "c = clients s ! i"
    and "no_nul l" "length l < 1023" "strip_eol l \<noteq> []" "strip_eol l \<noteq> SHUTDOWN_MSG"
  shows "\<exists>s'. (raw_step sip sport)\<^sup>*\<^sup>* s s' \<and> clients s' = (clients s)[i := c\<lparr>rc_typed := rc_typed c @ [strip_eol l],
    rc_shown := rc_shown c @ [strip_eol l @ '' '' @ fmt_d (snd (count_message (rc_ip c) (rc_port c) (table s)))]\<rparr>]"
  unfolding assms(5) by (rule line_answered [OF raw_reachable_inv [OF assms(1,2)] assms(2,3,4,6-9)])

theorem line_can_be_answered_witness:
  "\<exists>s s'. raw_reachable 2 7 s \<and> clients s = [\<lparr>rc_ip = 1, rc_port = 5000, rc_typed = [], rc_shown = []\<rparr>]
    \<and> (raw_step 2 7)\<^sup>*\<^sup>* s s' \<and> rc_shown (clients s' ! 0) = [''hi 1'']"
proof -
  let ?s = "empty_net\<lparr>clients := [\<lparr>rc_ip = 1, rc_port = 5000, rc_typed = [], rc_shown = []\<rparr>]\<rparr>"
  have "raw_step 2 7 empty_net ?s"
    using raw_step.come [of 1 5000 7 empty_net 2] by (simp add: empty_net_def)
  then have s: "raw_reachable 2 7 ?s" by blast
  have hi: "strip_eol [CHR ''h'', CHR ''i'', CHR 0x0A] = ''hi''" by (simp add: strip_eol_def)
  have one: "fmt_d (snd (count_message (Suc 0) 5000 [])) = ''1''" by code_simp
  obtain s' where "(raw_step 2 7)\<^sup>*\<^sup>* ?s s'" "rc_shown (clients s' ! 0) = [''hi 1'']"
    using line_can_be_answered [OF s, of 0 _ "[CHR ''h'', CHR ''i'', CHR 0x0A]", OF _ _ _ refl]
    by (auto simp: hi one no_nul_def SHUTDOWN_MSG_def empty_net_def init_client_db_def)
  with s show ?thesis by (intro exI [of _ ?s] exI [of _ s']) simp
qed

section \<open>A client with the server's port\<close>

text \<open>
  \<open>answers_itself k p db\<close>: the server, given the packet \<open>p\<close>, sends a reply that it receives as the next packet, and so
  on \<open>k\<close> times; \<open>h\<close> is the IP header of the replies.
\<close>

primrec answers_itself :: "nat \<Rightarrow> byte list \<Rightarrow> nat \<Rightarrow> byte list \<Rightarrow> client_db \<Rightarrow> bool" where
  "answers_itself sport h 0 p db \<longleftrightarrow> True"
| "answers_itself sport h (Suc k) p db \<longleftrightarrow>
     (case process_incoming_packet sport True (recv_into [] p) db of
        Some (db', Some (dst, r)) \<Rightarrow> answers_itself sport h k (h @ r) db'
      | _ \<Rightarrow> False)"

lemma count_not_shutdown: "msg @ '' '' @ fmt_d n \<noteq> SHUTDOWN_MSG"
proof
  assume "msg @ '' '' @ fmt_d n = SHUTDOWN_MSG"
  then have "CHR '' '' \<in> set SHUTDOWN_MSG" by (metis in_set_conv_decomp append_Cons append_Nil)
  then show False by (simp add: SHUTDOWN_MSG_def)
qed

text \<open>A line from a client on the server's host that was given the server's port makes the server answer its own replies,
  the text growing by the count each time, as long as it fits in a datagram.\<close>
theorem server_answers_itself:
  assumes "ip_header h sip sip" "sport < 65536" "no_nul msg" "msg \<noteq> SHUTDOWN_MSG" "length msg + 12 * k \<le> 65000"
  shows "answers_itself sport h k (h @ udp_header sport sport (UDP_HDR + length msg) c @ msg) db"
  using assms(3-5)
proof (induction k arbitrary: msg c db)
  case (Suc k msg c db)
  let ?n = "snd (count_message sip sport db)" and ?db = "fst (count_message sip sport db)"
  let ?t = "msg @ '' '' @ fmt_d ?n"
  have fits: "length h + UDP_HDR + length msg \<le> 65535" using ihl_bound [OF assms(1)] Suc.prems(3) by (simp add: UDP_HDR_def)
  have t: "length ?t \<le> length msg + 12" using count_range [of sip sport db] by simp
  obtain c' where "send_raw_reply True sip sip sport sport msg ?n = Packet (udp_header sport sport (UDP_HDR + length ?t) c' @ ?t)"
    using reply_packet [of msg ?n sip sport db sip sip sport sport] t Suc.prems(3) by auto
  then have "process_incoming_packet sport True (recv_into [] (h @ udp_header sport sport (UDP_HDR + length msg) c @ msg)) db =
      Some (?db, Some (sip, udp_header sport sport (UDP_HDR + length ?t) c' @ ?t))"
    using server_on_packet [OF assms(1,2,2) fits, of True "[]" c db] Suc.prems(1,2) by (simp add: cstr_no_nul)
  moreover have "answers_itself sport h k (h @ udp_header sport sport (UDP_HDR + length ?t) c' @ ?t) ?db"
  proof (rule Suc.IH)
    show "no_nul ?t" using Suc.prems(1) by simp
    show "?t \<noteq> SHUTDOWN_MSG" by (rule count_not_shutdown)
    show "length ?t + 12 * k \<le> 65000" using t Suc.prems(3) by simp
  qed
  ultimately show ?case by simp
qed simp

theorem server_answers_itself_witness:
  "answers_itself 7 (example_header 2 2) 5000 (example_header 2 2 @ udp_header 7 7 (UDP_HDR + 2) 0 @ ''hi'') init_client_db"
  using server_answers_itself [of "example_header 2 2" 2 7 "''hi''" 5000 0 init_client_db]
  by (simp add: example_header_ok no_nul_def SHUTDOWN_MSG_def)

end
