(* ===== verification/TcpChat.thy ===== *)
theory TcpChat
  imports CScan Mem
begin

text \<open>
  The TCP chat with file transfer (\<^verbatim>\<open>common.c\<close>, \<^verbatim>\<open>server.c\<close> and \<^verbatim>\<open>client.c\<close> of
  \<^verbatim>\<open>module3/task07\<close>). A packet is the 1320 bytes of \<open>ChatPacket\<close>. What \<open>read\<close>, \<open>write\<close>,
  \<open>accept\<close>, \<open>poll\<close>, \<open>fgets\<close> and \<open>fopen\<close> return is input; bytes of a stack buffer that nothing
  has written (\<open>junk\<close>) are input too.
\<close>

section \<open>Packets\<close>

definition MAX_NICK_LEN :: nat where "MAX_NICK_LEN = 32"
definition MAX_FILENAME :: nat where "MAX_FILENAME = 256"
definition MAX_CHUNK_SIZE :: nat where "MAX_CHUNK_SIZE = 1024"

definition PACKET_SIZE :: nat where
  "PACKET_SIZE = 4 + 4 + MAX_NICK_LEN + MAX_FILENAME + MAX_CHUNK_SIZE"

datatype msg_type = MSG_JOIN | MSG_CHAT | MSG_LEAVE | MSG_FILE_START | MSG_FILE_DATA | MSG_FILE_END

fun type_code :: "msg_type \<Rightarrow> int" where
  "type_code MSG_JOIN = 1"
| "type_code MSG_CHAT = 2"
| "type_code MSG_LEAVE = 3"
| "type_code MSG_FILE_START = 4"
| "type_code MSG_FILE_DATA = 5"
| "type_code MSG_FILE_END = 6"

text \<open>The fields of a packet that lies in memory.\<close>

definition pk_type :: "byte list \<Rightarrow> int" where "pk_type p = dec_int32 (take 4 p)"
definition pk_data_len :: "byte list \<Rightarrow> nat" where "pk_data_len p = dec_le (take 4 (drop 4 p))"
definition pk_nickname :: "byte list \<Rightarrow> byte list" where "pk_nickname p = take MAX_NICK_LEN (drop 8 p)"
definition pk_filename :: "byte list \<Rightarrow> byte list" where "pk_filename p = take MAX_FILENAME (drop 40 p)"
definition pk_payload :: "byte list \<Rightarrow> byte list" where "pk_payload p = take MAX_CHUNK_SIZE (drop 296 p)"

text \<open>The packet \<open>send_packet\<close> builds; \<open>None\<close> for a null pointer, and the field stays zero.\<close>

definition make_packet :: "msg_type \<Rightarrow> string \<Rightarrow> string option \<Rightarrow> string option \<Rightarrow> nat \<Rightarrow> byte list" where
  "make_packet t nickname content filename len =
     enc_int32 (type_code t) @ enc_le 4 len
     @ strncpy_field MAX_NICK_LEN (MAX_NICK_LEN - 1) nickname
     @ strncpy_field MAX_FILENAME (MAX_FILENAME - 1) (case filename of Some f \<Rightarrow> f | None \<Rightarrow> [])
     @ strncpy_field MAX_CHUNK_SIZE (MAX_CHUNK_SIZE - 1) (case content of Some c \<Rightarrow> c | None \<Rightarrow> [])"

section \<open>Whole packets over a stream\<close>

datatype read_result = Bytes "byte list" | ReadEintr | ReadError

text \<open>
  \<open>read_all\<close>: the value returned, the bytes stored, and the results not consumed; \<open>Bytes []\<close> is
  the end of the stream. \<open>None\<close>: the call still blocks when the results are used up.
\<close>

fun read_all :: "nat \<Rightarrow> byte list \<Rightarrow> read_result list \<Rightarrow> (int \<times> byte list \<times> read_result list) option" where
  "read_all sz got rs =
     (if sz \<le> length got then Some (int (length got), got, rs)
      else case rs of
        [] \<Rightarrow> None
      | ReadEintr # rs \<Rightarrow> read_all sz got rs
      | ReadError # rs \<Rightarrow> Some (- 1, got, rs)
      | Bytes bs # rs \<Rightarrow>
          if bs = [] then Some (int (length got), got, rs)
          else read_all sz (got @ take (sz - length got) bs) rs)"

declare read_all.simps [simp del]

datatype write_result = Wrote nat | WriteEintr | WriteError

text \<open>\<open>write_all\<close>: the value returned and the bytes that went out.\<close>

fun write_all :: "byte list \<Rightarrow> nat \<Rightarrow> write_result list \<Rightarrow> (int \<times> byte list) option" where
  "write_all bs written ws =
     (if length bs \<le> written then Some (int written, take written bs)
      else case ws of
        [] \<Rightarrow> None
      | WriteEintr # ws \<Rightarrow> write_all bs written ws
      | WriteError # ws \<Rightarrow> Some (- 1, take written bs)
      | Wrote n # ws \<Rightarrow> write_all bs (written + min n (length bs - written)) ws)"

declare write_all.simps [simp del]

section \<open>Server\<close>

definition MAX_CLIENTS :: nat where "MAX_CLIENTS = 128"

text \<open>\<open>client_sockets\<close> and \<open>num_clients\<close>: the list of the cells in use.\<close>

type_synonym sockets = "int list"

fun find_socket :: "sockets \<Rightarrow> int \<Rightarrow> nat \<Rightarrow> nat option" where
  "find_socket [] fd i = None"
| "find_socket (s # ss) fd i = (if s = fd then Some i else find_socket ss fd (Suc i))"

definition remove_client :: "int \<Rightarrow> sockets \<Rightarrow> sockets" where
  "remove_client fd ss =
     (case find_socket ss fd 0 of
        Some i \<Rightarrow> butlast (ss[i := ss ! (length ss - 1)])
      | None \<Rightarrow> ss)"

text \<open>The new table, and whether the accepted socket was closed again.\<close>

definition handle_new_connection :: "int \<Rightarrow> bool \<Rightarrow> sockets \<Rightarrow> sockets \<times> bool" where
  "handle_new_connection client_fd epoll_ok ss =
     (if client_fd < 0 then (ss, False)
      else if MAX_CLIENTS \<le> length ss then (ss, True)
      else if \<not> epoll_ok then (ss, True)
      else (ss @ [client_fd], False))"

text \<open>The calls of \<open>write_all\<close> with the bytes to write.\<close>

definition broadcast_packet :: "int \<Rightarrow> byte list \<Rightarrow> sockets \<Rightarrow> (int \<times> byte list) list" where
  "broadcast_packet sender_fd packet ss = map (\<lambda>s. (s, packet)) (filter (\<lambda>s. s \<noteq> sender_fd) ss)"

datatype log_line = LogJoin string | LogLeave string | LogChat string string | LogFile string string

text \<open>\<open>printf\<close> prints a field up to the first NUL, wherever in the packet it comes.\<close>

definition log_packet :: "byte list \<Rightarrow> log_line option" where
  "log_packet p =
     (let t = pk_type p; nick = cstr (drop 8 p) in
      if t = type_code MSG_JOIN then Some (LogJoin nick)
      else if t = type_code MSG_LEAVE then Some (LogLeave nick)
      else if t = type_code MSG_CHAT then Some (LogChat nick (cstr (drop 296 p)))
      else if t = type_code MSG_FILE_START then Some (LogFile nick (cstr (drop 40 p)))
      else None)"

definition handle_client_disconnect :: "int \<Rightarrow> sockets \<Rightarrow> sockets" where
  "handle_client_disconnect fd ss = remove_client fd ss"

text \<open>
  \<open>handle_client_data\<close>: the new table, the packets written and the line logged. The packet is on
  the stack: what \<open>read_all\<close> does not store keeps the bytes \<open>junk\<close>.
\<close>

definition handle_client_data ::
  "int \<Rightarrow> read_result list \<Rightarrow> byte list \<Rightarrow> sockets \<Rightarrow> (sockets \<times> (int \<times> byte list) list \<times> log_line option) option" where
  "handle_client_data fd rs junk ss =
     (case read_all PACKET_SIZE [] rs of
        None \<Rightarrow> None
      | Some (n, got, _) \<Rightarrow>
          if n \<le> 0 then Some (handle_client_disconnect fd ss, [], None)
          else let packet = take PACKET_SIZE (got @ drop (length got) junk) in
            Some (ss, broadcast_packet fd packet ss, log_packet packet))"

text \<open>What \<open>epoll_wait\<close> reports: a connection with the result of \<open>accept\<close> and of \<open>epoll_ctl\<close>, or data.\<close>

datatype ready = Connection int bool | Data int "read_result list" "byte list"

datatype epoll = Ready "ready list" | EpollEintr | EpollError

fun handle_ready :: "ready list \<Rightarrow> sockets \<Rightarrow> (sockets \<times> (int \<times> byte list) list) option" where
  "handle_ready [] ss = Some (ss, [])"
| "handle_ready (Connection fd ok # es) ss = handle_ready es (fst (handle_new_connection fd ok ss))"
| "handle_ready (Data fd rs junk # es) ss = do {
     (ss, out, _) \<leftarrow> handle_client_data fd rs junk ss;
     (ss, out') \<leftarrow> handle_ready es ss;
     Some (ss, out @ out') }"

fun run_server_loop :: "epoll list \<Rightarrow> sockets \<Rightarrow> (sockets \<times> (int \<times> byte list) list) option" where
  "run_server_loop [] ss = Some (ss, [])"
| "run_server_loop (EpollEintr # es) ss = run_server_loop es ss"
| "run_server_loop (EpollError # es) ss = Some (ss, [])"
| "run_server_loop (Ready rs # es) ss = do {
     (ss, out) \<leftarrow> handle_ready rs ss;
     (ss, out') \<leftarrow> run_server_loop es ss;
     Some (ss, out @ out') }"

text \<open>
  The start of the server. \<open>fds\<close> is the set of its open descriptors; the results of \<open>socket\<close> and
  \<open>epoll_create1\<close>, and whether \<open>bind\<close>, \<open>listen\<close> and \<open>epoll_ctl\<close> succeed, are inputs.
\<close>

definition init_server_socket :: "int \<Rightarrow> bool \<Rightarrow> bool \<Rightarrow> int set \<Rightarrow> int \<times> int set" where
  "init_server_socket fd bind_ok listen_ok fds =
     (if fd < 0 then (- 1, fds)
      else let fds = insert fd fds in
        if \<not> bind_ok then (- 1, fds - {fd})
        else if \<not> listen_ok then (- 1, fds - {fd})
        else (fd, fds))"

definition init_epoll :: "int \<Rightarrow> bool \<Rightarrow> int set \<Rightarrow> int \<times> int set" where
  "init_epoll fd ctl_ok fds =
     (if fd < 0 then (- 1, fds)
      else let fds = insert fd fds in if \<not> ctl_ok then (- 1, fds - {fd}) else (fd, fds))"

text \<open>The port in \<open>htons (port)\<close>: an \<open>int\<close> cut to 16 bits.\<close>

definition server_port :: "string list \<Rightarrow> int" where
  "server_port argv = atoi (argv ! 1) mod 65536"

text \<open>\<open>main\<close>: the exit status (\<open>None\<close> while \<open>epoll_wait\<close> still waits), which of the descriptors of its start it
  leaves open, and the table with what was written. \<open>run_server_loop\<close> only returns when \<open>epoll_wait\<close> fails.\<close>

definition chat_server_main ::
  "string list \<Rightarrow> int \<Rightarrow> bool \<Rightarrow> bool \<Rightarrow> int \<Rightarrow> bool \<Rightarrow> epoll list
     \<Rightarrow> (int option \<times> int set \<times> sockets \<times> (int \<times> byte list) list) option" where
  "chat_server_main argv sock bind_ok listen_ok ep ctl_ok es =
     (if length argv < 2 then Some (Some 1, {}, [], [])
      else let (listen_fd, fds) = init_server_socket sock bind_ok listen_ok {} in
        if listen_fd < 0 then Some (Some 1, fds, [], [])
        else let (epoll_fd, fds) = init_epoll ep ctl_ok fds in
          if epoll_fd < 0 then Some (Some 1, fds - {listen_fd}, [], [])
          else do {
            (ss, out) \<leftarrow> run_server_loop es [];
            if EpollError \<in> set es then Some (Some 0, fds - {listen_fd} - {epoll_fd}, ss, out)
            else Some (None, fds, ss, out) })"

section \<open>Client: sending\<close>

text \<open>\<open>strrchr\<close>: the part after the last occurrence.\<close>

definition strrchr_after :: "char \<Rightarrow> string \<Rightarrow> string option" where
  "strrchr_after c s = (if c \<in> set s then Some (rev (takeWhile (\<lambda>x. x \<noteq> c) (rev s))) else None)"

definition get_base_filename :: "string \<Rightarrow> string" where
  "get_base_filename path =
     (case strrchr_after CHR ''/'' path of
        Some b \<Rightarrow> b
      | None \<Rightarrow> (case strrchr_after CHR 0x5C path of Some b \<Rightarrow> b | None \<Rightarrow> path))"

text \<open>What successive calls of \<open>fread\<close> return.\<close>

fun chunks :: "byte list \<Rightarrow> byte list list" where
  "chunks [] = []"
| "chunks (b # bs) = take MAX_CHUNK_SIZE (b # bs) # chunks (drop (MAX_CHUNK_SIZE - 1) bs)"

text \<open>
  The packets of the data: \<open>send_packet\<close> takes the chunk for a string. The buffer holds \<open>junk\<close>
  after the first chunk and zeros after the later ones.
\<close>

fun data_packets :: "string \<Rightarrow> string \<Rightarrow> byte list \<Rightarrow> byte list list \<Rightarrow> byte list list" where
  "data_packets nick filename junk [] = []"
| "data_packets nick filename junk (c # cs) =
     make_packet MSG_FILE_DATA nick (Some (c @ drop (length c) junk)) (Some filename) (length c)
     # data_packets nick filename (replicate MAX_CHUNK_SIZE NUL) cs"

definition upload_file :: "(string \<Rightarrow> byte list option) \<Rightarrow> string \<Rightarrow> string \<Rightarrow> byte list \<Rightarrow> byte list list" where
  "upload_file fs nick filepath junk =
     (case fs filepath of
        None \<Rightarrow> []
      | Some content \<Rightarrow>
          let filename = get_base_filename filepath in
          make_packet MSG_FILE_START nick None (Some filename) 0
          # data_packets nick filename junk (chunks content)
          @ [make_packet MSG_FILE_END nick None (Some filename) 0])"

text \<open>
  \<open>process_user_input\<close> on the line \<open>fgets\<close> stored (at most 1023 characters; \<open>None\<close> at the end of
  the input): whether the client goes on, and the packets sent.
\<close>

definition process_user_input ::
  "(string \<Rightarrow> byte list option) \<Rightarrow> string \<Rightarrow> byte list \<Rightarrow> string option \<Rightarrow> bool \<times> byte list list" where
  "process_user_input fs nick junk line =
     (case line of
        None \<Rightarrow> (True, [])
      | Some l \<Rightarrow>
          let b = (if l \<noteq> [] \<and> last l = CHR 0x0A then butlast l else l) in
          if b = [] then (True, [])
          else if b = ''exit'' \<or> b = ''quit'' then (False, [])
          else if take 6 b = ''/file '' then (True, upload_file fs nick (drop 6 b) junk)
          else (True, [make_packet MSG_CHAT nick (Some b) None 0]))"

section \<open>Client: receiving\<close>

text \<open>The open file of a transfer (\<open>rx_file\<close>), the files written, and whether the client runs.\<close>

record chat_client =
  running :: bool
  rx_file :: "string option"
  files :: "string \<Rightarrow> byte list option"

datatype shown = ShowJoin string | ShowChat string string | ShowLeave string | ShowNothing

text \<open>
  \<open>handle_server_message\<close>; \<open>fopen_ok\<close> says whether the file can be made, \<open>None\<close> is an access
  outside the packet (or \<open>read_all\<close> that blocks).
\<close>

definition handle_packet :: "bool \<Rightarrow> byte list \<Rightarrow> chat_client \<Rightarrow> (chat_client \<times> shown) option" where
  "handle_packet fopen_ok p c =
     (let t = pk_type p; nick = cstr (take (MAX_NICK_LEN - 1) (pk_nickname p));
          name = cstr (take (MAX_FILENAME - 1) (pk_filename p)) in
      if t = type_code MSG_JOIN then Some (c, ShowJoin nick)
      else if t = type_code MSG_CHAT then Some (c, ShowChat nick (cstr (take (MAX_CHUNK_SIZE - 1) (pk_payload p))))
      else if t = type_code MSG_LEAVE then Some (c, ShowLeave nick)
      else if t = type_code MSG_FILE_START then
        (let out_path = snprintf 512 (''received_'' @ name) in
         if fopen_ok then Some (c\<lparr>rx_file := Some out_path, files := (files c)(out_path \<mapsto> [])\<rparr>, ShowNothing)
         else Some (c\<lparr>rx_file := None\<rparr>, ShowNothing))
      else if t = type_code MSG_FILE_DATA then
        (case rx_file c of
           None \<Rightarrow> Some (c, ShowNothing)
         | Some f \<Rightarrow>
             if MAX_CHUNK_SIZE < pk_data_len p then None
             else Some (c\<lparr>files := (files c)(f \<mapsto> (case files c f of Some b \<Rightarrow> b | None \<Rightarrow> [])
                 @ take (pk_data_len p) (pk_payload p))\<rparr>, ShowNothing))
      else if t = type_code MSG_FILE_END then Some (c\<lparr>rx_file := None\<rparr>, ShowNothing)
      else Some (c, ShowNothing))"

definition handle_server_message ::
  "read_result list \<Rightarrow> byte list \<Rightarrow> bool \<Rightarrow> chat_client \<Rightarrow> (chat_client \<times> shown) option" where
  "handle_server_message rs junk fopen_ok c =
     (case read_all PACKET_SIZE [] rs of
        None \<Rightarrow> None
      | Some (n, got, _) \<Rightarrow>
          if n \<le> 0 then Some (c\<lparr>running := False\<rparr>, ShowNothing)
          else handle_packet fopen_ok (take PACKET_SIZE (got @ drop (length got) junk)) c)"

text \<open>
  \<open>run_client_loop\<close>: each \<open>poll\<close> is interrupted, fails, or reports data from the server, a line,
  or both. The packets sent are the result.
\<close>

datatype poll = PollEintr | PollError
  | PollReady "(read_result list \<times> byte list \<times> bool) option" "(string option \<times> byte list) option"

fun run_client_loop ::
  "(string \<Rightarrow> byte list option) \<Rightarrow> string \<Rightarrow> poll list \<Rightarrow> chat_client \<Rightarrow> (chat_client \<times> byte list list) option" where
  "run_client_loop fs nick [] c = Some (c, [])"
| "run_client_loop fs nick (e # es) c =
     (if \<not> running c then Some (c, []) else
      case e of
        PollEintr \<Rightarrow> Some (c, [])
      | PollError \<Rightarrow> Some (c, [])
      | PollReady srv inp \<Rightarrow> do {
          (c, _) \<leftarrow> (case srv of
             Some (rs, junk, ok) \<Rightarrow> handle_server_message rs junk ok c
           | None \<Rightarrow> Some (c, ShowNothing));
          let (on, sent) = (case inp of
             Some (line, junk) \<Rightarrow> process_user_input fs nick junk line
           | None \<Rightarrow> (True, []));
          let c = (if on then c else c\<lparr>running := False\<rparr>);
          (c, sent') \<leftarrow> run_client_loop fs nick es c;
          Some (c, sent @ sent') })"

definition init_client_socket :: "int \<Rightarrow> bool \<Rightarrow> bool \<Rightarrow> int set \<Rightarrow> int \<times> int set" where
  "init_client_socket fd addr_ok connect_ok fds =
     (if fd < 0 then (- 1, fds)
      else let fds = insert fd fds in
        if \<not> addr_ok then (- 1, fds - {fd})
        else if \<not> connect_ok then (- 1, fds - {fd})
        else (fd, fds))"

text \<open>The loop was left: by a line or SIGINT that ends the client, or since \<open>poll\<close> failed.\<close>

definition loop_left :: "poll list \<Rightarrow> chat_client \<Rightarrow> bool" where
  "loop_left es c \<longleftrightarrow> \<not> running c \<or> PollEintr \<in> set es \<or> PollError \<in> set es"

text \<open>\<open>main\<close>: the exit status (\<open>None\<close> while \<open>poll\<close> waits), the sockets it leaves open, and the packets sent.\<close>

definition chat_client_main ::
  "(string \<Rightarrow> byte list option) \<Rightarrow> string list \<Rightarrow> int \<Rightarrow> bool \<Rightarrow> bool \<Rightarrow> poll list
     \<Rightarrow> (int option \<times> int set \<times> byte list list) option" where
  "chat_client_main fs argv sock addr_ok connect_ok es =
     (if length argv < 4 then Some (Some 1, {}, [])
      else let (sockfd, fds) = init_client_socket sock addr_ok connect_ok {} in
        if sockfd < 0 then Some (Some 1, fds, [])
        else let nick = argv ! 3 in do {
          (c, sent) \<leftarrow> run_client_loop fs nick es \<lparr>running = True, rx_file = None, files = (\<lambda>_. None)\<rparr>;
          if loop_left es c
          then Some (Some 0, fds - {sockfd}, make_packet MSG_JOIN nick None None 0 # sent @ [make_packet MSG_LEAVE nick None None 0])
          else Some (None, fds, make_packet MSG_JOIN nick None None 0 # sent) })"

end
