(* ===== verification/TcpChatProofs.thy ===== *)
theory TcpChatProofs
  imports TcpChat Registry
begin

text \<open>
  The chat server keeps the set of the connected sockets and passes each packet to all the others;
  packets survive any fragmentation of the stream; lines arrive; files arrive as a string function
  makes of them, which is not what was sent when they are long or binary.
\<close>

section \<open>Streams\<close>

text \<open>The bytes a sequence of reads brings; none of them ends the stream or fails.\<close>

fun fragments :: "read_result list \<Rightarrow> byte list option" where
  "fragments [] = Some []"
| "fragments (ReadEintr # rs) = fragments rs"
| "fragments (ReadError # rs) = None"
| "fragments (Bytes bs # rs) = (if bs = [] then None else map_option ((@) bs) (fragments rs))"

lemma read_all_fragments:
  "fragments rs = Some p \<Longrightarrow> \<exists>rest. read_all (length got + length p) got rs = Some (int (length got + length p), got @ p, rest)"
proof (induction rs arbitrary: got p rule: fragments.induct)
  case 1
  then show ?case by (simp add: read_all.simps)
next
  case (2 rs)
  then obtain rest where r: "read_all (length got + length p) got rs = Some (int (length got + length p), got @ p, rest)"
    by fastforce
  show ?case
  proof (cases "p = []")
    case False
    then show ?thesis using r by (subst read_all.simps) simp
  qed (subst read_all.simps, simp)
next
  case (4 bs rs)
  then obtain q where q: "fragments rs = Some q" "p = bs @ q" "bs \<noteq> []" by (auto split: if_splits)
  then obtain rest where "read_all (length (got @ bs) + length q) (got @ bs) rs
      = Some (int (length (got @ bs) + length q), (got @ bs) @ q, rest)"
    using "4.IH" [of q "got @ bs"] by blast
  then show ?case using q by (subst read_all.simps) (simp add: add.assoc)
qed simp

lemma write_all_Cons:
  "\<not> length bs \<le> k \<Longrightarrow> write_all bs k (Wrote n # ws) = write_all bs (k + min n (length bs - k)) ws"
  "\<not> length bs \<le> k \<Longrightarrow> write_all bs k (WriteEintr # ws) = write_all bs k ws"
  "\<not> length bs \<le> k \<Longrightarrow> write_all bs k (WriteError # ws) = Some (- 1, take k bs)"
  by (subst write_all.simps, simp)+

lemma write_all_complete:
  "write_all bs written ws = Some (n, out) \<Longrightarrow> written \<le> length bs \<Longrightarrow> n = int (length bs) \<Longrightarrow> out = bs"
proof (induction ws arbitrary: written)
  case Nil
  then show ?case by (simp add: write_all.simps split: if_splits)
next
  case (Cons w ws)
  show ?case
  proof (cases "length bs \<le> written")
    case True
    with Cons.prems show ?thesis by (simp add: write_all.simps)
  next
    case False
    then show ?thesis
      using Cons.prems Cons.IH [of written] Cons.IH [of "written + min k (length bs - written)" for k]
      by (cases w) (simp_all add: write_all_Cons)
  qed
qed

text \<open>A packet that \<open>write_all\<close> reports as written in full is what \<open>read_all\<close> returns at the other end,
  in whatever pieces the stream takes and delivers it and however often the calls are interrupted.\<close>
theorem packet_survives_fragmentation:
  assumes "write_all p 0 ws = Some (int (length p), s)" "fragments rs = Some s"
  shows "\<exists>rest. read_all (length p) [] rs = Some (int (length p), p, rest)"
proof -
  have "s = p" using write_all_complete [OF assms(1)] by simp
  with read_all_fragments [of rs p "[]"] assms(2) show ?thesis by simp
qed

theorem packet_survives_fragmentation_witness:
  "write_all ''abc'' 0 [Wrote 1, WriteEintr, Wrote 2] = Some (3, ''abc'')
   \<and> (\<exists>rest. read_all 3 [] [Bytes ''ab'', ReadEintr, Bytes ''c''] = Some (3, ''abc'', rest))"
proof -
  have w: "write_all ''abc'' 0 [Wrote 1, WriteEintr, Wrote 2] = Some (int (length ''abc''), ''abc'')"
    by (simp add: write_all.simps)
  have "fragments [Bytes ''ab'', ReadEintr, Bytes ''c''] = Some ''abc''" by simp
  from packet_survives_fragmentation [OF w this] w show ?thesis by (simp add: numeral_3_eq_3)
qed

section \<open>Sockets\<close>

lemma find_socket_None: "find_socket ss fd i = None \<longleftrightarrow> fd \<notin> set ss"
  by (induction ss fd i rule: find_socket.induct) auto

lemma find_socket_Some: "find_socket ss fd i = Some j \<Longrightarrow> i \<le> j \<and> j - i < length ss \<and> ss ! (j - i) = fd"
  by (induction ss fd i rule: find_socket.induct) (auto simp: nth_Cons' Suc_diff_Suc split: if_splits)

lemma mset_remove_client: "mset (remove_client fd ss) = mset ss - {#fd#}"
proof (cases "find_socket ss fd 0")
  case None
  then have "fd \<notin> set ss" by (simp add: find_socket_None)
  with None show ?thesis by (simp add: remove_client_def)
next
  case (Some i)
  then have i: "i < length ss" "ss ! i = fd" using find_socket_Some [OF Some] by simp_all
  then obtain xs l where ss: "ss = xs @ [l]" by (cases ss rule: rev_cases) auto
  show ?thesis
  proof (cases "i = length xs")
    case True
    then show ?thesis using Some i by (simp add: remove_client_def ss)
  next
    case False
    then have "i < length xs" "xs ! i = fd" using i by (simp_all add: ss nth_append)
    then have "mset (xs[i := l]) = add_mset l (mset xs - {#fd#})" by (simp add: mset_update)
    moreover have "fd \<in># mset xs" using \<open>i < length xs\<close> \<open>xs ! i = fd\<close> by auto
    ultimately show ?thesis
      using Some \<open>i < length xs\<close> by (simp add: remove_client_def ss nth_append list_update_append butlast_append)
  qed
qed

interpretation chat_sockets: deletable_table
  "\<lambda>fd ss. fst (handle_new_connection fd True ss)" "\<lambda>ss. ss" MAX_CLIENTS "\<lambda>fd. 0 \<le> fd" remove_client
  by unfold_locales (auto simp: handle_new_connection_def mset_remove_client)

text \<open>The connections that are open, as a set, after each event of a history.\<close>

fun live :: "ready \<Rightarrow> int set \<Rightarrow> int set" where
  "live (Connection fd ok) S = (if 0 \<le> fd \<and> ok \<and> card S < MAX_CLIENTS then insert fd S else S)"
| "live (Data fd rs junk) S =
     (case read_all PACKET_SIZE [] rs of Some (n, _) \<Rightarrow> if n \<le> 0 then S - {fd} else S | None \<Rightarrow> S)"

text \<open>What the kernel promises: \<open>accept\<close> gives a descriptor that is not open.\<close>

fun accept_fresh :: "ready list \<Rightarrow> int set \<Rightarrow> bool" where
  "accept_fresh [] S = True"
| "accept_fresh (e # es) S =
     ((case e of Connection fd ok \<Rightarrow> fd \<notin> S | Data fd rs junk \<Rightarrow> True) \<and> accept_fresh es (live e S))"

definition sockets_ok :: "sockets \<Rightarrow> bool" where
  "sockets_ok ss \<longleftrightarrow> distinct ss \<and> length ss \<le> MAX_CLIENTS"

lemma sockets_ok_connection:
  assumes "sockets_ok ss" "fd \<notin> set ss"
  shows "sockets_ok (fst (handle_new_connection fd ok ss)) \<and>
    set (fst (handle_new_connection fd ok ss)) = live (Connection fd ok) (set ss)"
  using assms by (auto simp: sockets_ok_def handle_new_connection_def distinct_card)

lemma sockets_ok_remove:
  assumes "sockets_ok ss"
  shows "sockets_ok (remove_client fd ss) \<and> set (remove_client fd ss) = set ss - {fd}"
proof -
  have d: "distinct ss" "length ss \<le> MAX_CLIENTS" using assms by (simp_all add: sockets_ok_def)
  have "distinct (remove_client fd ss)" using d(1) by (rule chat_sockets.del_distinct)
  moreover have "set (remove_client fd ss) = set ss - {fd}" using d(1) by (rule chat_sockets.del_set)
  moreover have "length (remove_client fd ss) \<le> length ss" by (rule chat_sockets.del_length)
  ultimately show ?thesis using d(2) by (simp add: sockets_ok_def)
qed

lemma sockets_ok_data:
  assumes "sockets_ok ss" "handle_client_data fd rs junk ss = Some (ss', out, l)"
  shows "sockets_ok ss' \<and> set ss' = live (Data fd rs junk) (set ss)"
proof -
  obtain n got rest where r: "read_all PACKET_SIZE [] rs = Some (n, got, rest)"
    using assms(2) by (cases "read_all PACKET_SIZE [] rs") (auto simp: handle_client_data_def)
  show ?thesis
  proof (cases "n \<le> 0")
    case True
    then have "ss' = remove_client fd ss"
      using assms(2) r by (simp add: handle_client_data_def handle_client_disconnect_def)
    with True r sockets_ok_remove [OF assms(1), of fd] show ?thesis by simp
  next
    case False
    with assms r show ?thesis by (simp add: handle_client_data_def Let_def)
  qed
qed

lemma handle_ready_live:
  "handle_ready es ss = Some (ss', out) \<Longrightarrow> accept_fresh es (set ss) \<Longrightarrow> sockets_ok ss \<Longrightarrow>
   sockets_ok ss' \<and> set ss' = fold live es (set ss)"
proof (induction es ss arbitrary: ss' out rule: handle_ready.induct)
  case (1 ss)
  then show ?case by simp
next
  case (2 fd ok es ss)
  then show ?case using sockets_ok_connection [of ss fd ok] by simp
next
  case (3 fd rs junk es ss)
  then obtain s1 out1 l out2 where d: "handle_client_data fd rs junk ss = Some (s1, out1, l)"
    and r: "handle_ready es s1 = Some (ss', out2)"
    by (auto split: Option.bind_splits)
  with sockets_ok_data [OF "3.prems"(3) d] "3.prems"(2) show ?case using "3.IH" [OF d refl refl r] by simp
qed

lemma read_all_packet:
  "fragments rs = Some p \<Longrightarrow> length p = PACKET_SIZE \<Longrightarrow>
   \<exists>rest. read_all PACKET_SIZE [] rs = Some (int PACKET_SIZE, p, rest)"
  using read_all_fragments [of rs p "[]"] by simp

lemma PACKET_SIZE_pos [simp]: "PACKET_SIZE \<noteq> 0" "0 < PACKET_SIZE"
  by (simp_all add: PACKET_SIZE_def)

text \<open>C34: Whatever connections, disconnections and packets came before, the server's table holds exactly
  the open connections (at most 128), each once.\<close>
theorem server_table_refines_connections:
  assumes "handle_ready es [] = Some (ss, out)" "accept_fresh es {}"
  shows "distinct ss \<and> length ss \<le> MAX_CLIENTS \<and> set ss = fold live es {}"
  using handle_ready_live [OF assms(1)] assms(2) by (simp add: sockets_ok_def)

theorem server_table_refines_connections_witness:
  "distinct [6 :: int] \<and> length [6 :: int] \<le> MAX_CLIENTS
    \<and> set [6] = fold live [Connection 5 True, Connection 6 True, Data 5 [Bytes []] []] {}"
proof -
  have h: "handle_ready [Connection 5 True, Connection 6 True, Data 5 [Bytes []] []] [] = Some ([6], [])"
    by (simp add: handle_new_connection_def MAX_CLIENTS_def handle_client_data_def read_all.simps
        handle_client_disconnect_def remove_client_def)
  have "accept_fresh [Connection 5 True, Connection 6 True, Data 5 [Bytes []] []] {}"
    by (simp add: MAX_CLIENTS_def)
  from server_table_refines_connections [OF h this] show ?thesis .
qed

text \<open>C15: A packet that arrives in full, in whatever pieces, is written exactly once to every open connection
  other than its sender's, unchanged, and to nobody else.\<close>
theorem broadcast_reaches_others:
  assumes "handle_ready es [] = Some (ss, out0)" "accept_fresh es {}"
    and "fragments rs = Some p" "length p = PACKET_SIZE"
  shows "\<exists>out. handle_client_data fd rs junk ss = Some (ss, out, log_packet p)
    \<and> distinct out \<and> set out = (\<lambda>s. (s, p)) ` (fold live es {} - {fd})"
proof -
  obtain rest where r: "read_all PACKET_SIZE [] rs = Some (int PACKET_SIZE, p, rest)"
    using read_all_packet [OF assms(3,4)] by blast
  have ss: "distinct ss" "set ss = fold live es {}"
    using handle_ready_live [OF assms(1)] assms(2) by (simp_all add: sockets_ok_def)
  have "distinct (broadcast_packet fd p ss) \<and> set (broadcast_packet fd p ss) = (\<lambda>s. (s, p)) ` (fold live es {} - {fd})"
    using ss by (auto simp: broadcast_packet_def distinct_map inj_on_def)
  moreover have "handle_client_data fd rs junk ss = Some (ss, broadcast_packet fd p ss, log_packet p)"
    using r assms(4) by (simp add: handle_client_data_def)
  ultimately show ?thesis by simp
qed

theorem broadcast_reaches_others_witness:
  "\<exists>out. handle_client_data 5 [Bytes (replicate PACKET_SIZE CHR ''x'')] [] [5, 6] =
     Some ([5, 6], out, log_packet (replicate PACKET_SIZE CHR ''x''))
    \<and> distinct out \<and> set out = (\<lambda>s. (s, replicate PACKET_SIZE CHR ''x'')) ` ({5, 6} - {5})"
proof -
  have h: "handle_ready [Connection 5 True, Connection 6 True] [] = Some ([5, 6], [])"
    by (simp add: handle_new_connection_def MAX_CLIENTS_def)
  have a: "accept_fresh [Connection 5 True, Connection 6 True] {}" by (simp add: MAX_CLIENTS_def)
  have f: "fragments [Bytes (replicate PACKET_SIZE CHR ''x'')] = Some (replicate PACKET_SIZE CHR ''x'')" by simp
  have "fold live [Connection 5 True, Connection 6 True] {} = {5, 6}" by (auto simp: MAX_CLIENTS_def)
  then show ?thesis using broadcast_reaches_others [OF h a f, of 5 "[]"] by simp
qed

text \<open>A client that has sent part of a packet and waits makes the whole server wait: \<open>read_all\<close> does not return before
  the rest comes, whatever the other clients send.\<close>

lemma read_all_partial:
  "fragments rs = Some p \<Longrightarrow> length got + length p < sz \<Longrightarrow> read_all sz got rs = None"
proof (induction rs arbitrary: got p rule: fragments.induct)
  case 1
  then show ?case by (simp add: read_all.simps)
next
  case (2 rs)
  then show ?case by (subst read_all.simps) simp
next
  case (4 bs rs)
  then obtain q where q: "fragments rs = Some q" "p = bs @ q" "bs \<noteq> []" by (auto split: if_splits)
  then have "read_all sz (got @ bs) rs = None" using "4.IH" [of q "got @ bs"] "4.prems"(2) by simp
  then show ?case using q "4.prems"(2) by (subst read_all.simps) simp
qed simp

theorem partial_packet_stops_server:
  assumes "fragments rs = Some p" "length p < PACKET_SIZE"
  shows "handle_ready (Data fd rs junk # es) ss = None"
  using read_all_partial [of rs p "[]" PACKET_SIZE] assms by (simp add: handle_client_data_def)

theorem partial_packet_stops_server_witness:
  "handle_ready [Data 5 [Bytes ''half a packet''] [], Data 6 [Bytes (replicate PACKET_SIZE CHR ''x'')] []] [5, 6] = None"
  by (rule partial_packet_stops_server [of _ "''half a packet''"]) (simp_all add: PACKET_SIZE_def MAX_CHUNK_SIZE_def)

section \<open>Start and end of the server\<close>

text \<open>When the server ends, with an error at any of its system calls, it has closed the listening socket and the
  epoll instance; the status is 0 exactly when it had started.\<close>
theorem server_closes_its_descriptors:
  assumes "chat_server_main argv sock bind_ok listen_ok ep ctl_ok es = Some (Some status, fds, ss, out)" "sock \<noteq> ep"
  shows "fds = {} \<and> (status = 0 \<longleftrightarrow> 2 \<le> length argv \<and> 0 \<le> sock \<and> bind_ok \<and> listen_ok \<and> 0 \<le> ep \<and> ctl_ok)"
  using assms
  by (auto simp: chat_server_main_def init_server_socket_def init_epoll_def Let_def split: if_splits Option.bind_splits)

theorem server_closes_its_descriptors_witness:
  "chat_server_main [''server'', ''8080''] 3 True True 4 True [Ready [Connection 5 True], EpollError] = Some (Some 0, {}, [5], [])
   \<and> chat_server_main [''server'', ''8080''] 3 True True 4 False [] = Some (Some 1, {}, [], [])"
proof -
  have a: "\<exists>fds. chat_server_main [''server'', ''8080''] 3 True True 4 True [Ready [Connection 5 True], EpollError]
      = Some (Some 0, fds, [5], [])"
    and b: "\<exists>fds. chat_server_main [''server'', ''8080''] 3 True True 4 False [] = Some (Some 1, fds, [], [])"
    by (simp_all add: chat_server_main_def init_server_socket_def init_epoll_def handle_new_connection_def MAX_CLIENTS_def)
  show ?thesis using a b server_closes_its_descriptors [where sock = 3 and ep = 4] by fastforce
qed

text \<open>A connection that closes in the middle of a packet is not dropped: the server passes on to every other
  socket what came, followed by bytes of its own stack.\<close>
theorem truncated_packet_broadcast:
  assumes "fragments rs = Some got" "0 < length got" "length got < PACKET_SIZE" "length junk = PACKET_SIZE"
  shows "\<exists>l. handle_client_data fd (rs @ [Bytes []]) junk ss =
    Some (ss, map (\<lambda>s. (s, got @ drop (length got) junk)) (filter (\<lambda>s. s \<noteq> fd) ss), l)"
proof -
  have eof: "read_all sz b (rs @ [Bytes []]) = Some (int (length b + length g), b @ g, [])"
    if "fragments rs = Some g" "length b + length g < sz" for sz b g
    using that
  proof (induction rs arbitrary: b g rule: fragments.induct)
    case 1
    then show ?case by (subst append_Nil, subst read_all.simps) simp
  next
    case (2 rs)
    then show ?case by (subst append_Cons, subst read_all.simps) simp
  next
    case (4 bs rs)
    then obtain q where q: "fragments rs = Some q" "g = bs @ q" "bs \<noteq> []" by (auto split: if_splits)
    then have "read_all sz (b @ bs) (rs @ [Bytes []]) = Some (int (length (b @ bs) + length q), (b @ bs) @ q, [])"
      using "4.IH" [of q "b @ bs"] "4.prems"(2) by simp
    then show ?case using q "4.prems"(2) by (subst append_Cons, subst read_all.simps) (simp add: add.assoc)
  qed simp
  have "read_all PACKET_SIZE [] (rs @ [Bytes []]) = Some (int (length got), got, [])"
    using eof [OF assms(1), of "[]" PACKET_SIZE] assms(3) by simp
  then show ?thesis using assms(2-4) by (simp add: handle_client_data_def broadcast_packet_def Let_def)
qed

theorem truncated_packet_broadcast_witness:
  "\<exists>l. handle_client_data 5 ([Bytes ''ab''] @ [Bytes []]) (replicate PACKET_SIZE CHR ''#'') [5, 6] =
     Some ([5, 6], map (\<lambda>s. (s, ''ab'' @ drop 2 (replicate PACKET_SIZE CHR ''#''))) [6], l)"
proof -
  have "fragments [Bytes ''ab''] = Some ''ab''" by simp
  from truncated_packet_broadcast [OF this, of "replicate PACKET_SIZE CHR ''#''" 5 "[5, 6]"]
  show ?thesis by (simp add: PACKET_SIZE_def MAX_NICK_LEN_def)
qed

section \<open>The fields of a packet\<close>

lemmas sizes = MAX_NICK_LEN_def MAX_FILENAME_def MAX_CHUNK_SIZE_def PACKET_SIZE_def

lemma length_make_packet [simp]: "length (make_packet t n c f l) = PACKET_SIZE"
  by (simp add: make_packet_def sizes)

lemma dec_type [simp]: "dec_int32 (enc_int32 (type_code t)) = type_code t"
  by (cases t) (simp_all add: dec_enc_int32)

lemma pk_type_make [simp]: "pk_type (make_packet t n c f l) = type_code t"
  by (simp add: make_packet_def pk_type_def)

lemma make_packet_fields:
  "pk_data_len (make_packet t n c f l) = l mod 2 ^ 32"
  "pk_nickname (make_packet t n c f l) = strncpy_field 32 31 n"
  "pk_filename (make_packet t n c f l) = strncpy_field 256 255 (case f of Some x \<Rightarrow> x | None \<Rightarrow> [])"
  "pk_payload (make_packet t n c f l) = strncpy_field 1024 1023 (case c of Some x \<Rightarrow> x | None \<Rightarrow> [])"
  by (simp_all add: make_packet_def pk_type_def pk_data_len_def pk_nickname_def pk_filename_def pk_payload_def
      sizes dec_enc_le)

lemma type_code_eq [simp]: "type_code s = type_code t \<longleftrightarrow> s = t"
  by (cases s; cases t) simp_all

lemma cstr_take_field [simp]: "cstr (take n (strncpy_field (Suc n) n x)) = take n (cstr x)"
proof -
  let ?s = "take n (cstr x)"
  have "take n (strncpy_field (Suc n) n x) = ?s @ replicate (n - length ?s) NUL"
    by (simp add: strncpy_field_def Let_def min_def)
  then show ?thesis by (simp only: cstr_replicate_nul no_nul_take no_nul_cstr)
qed

section \<open>Chat lines\<close>

text \<open>A line of text typed by one client is sent as one packet, and a client that receives this packet, in
  whatever pieces, shows the sender's nickname and the line.\<close>
theorem chat_line_delivered:
  assumes "no_nul line" "line \<noteq> []" "length line \<le> 1022" "line \<noteq> ''exit''" "line \<noteq> ''quit''" "take 6 line \<noteq> ''/file ''"
    and "no_nul nick" "length nick \<le> 31"
    and "fragments rs = Some (make_packet MSG_CHAT nick (Some line) None 0)"
  shows "process_user_input fs nick junk (Some (line @ [CHR 0x0A])) = (True, [make_packet MSG_CHAT nick (Some line) None 0])
    \<and> handle_server_message rs junk' ok c = Some (c, ShowChat nick line)"
proof -
  let ?p = "make_packet MSG_CHAT nick (Some line) None 0"
  obtain rest where r: "read_all PACKET_SIZE [] rs = Some (int PACKET_SIZE, ?p, rest)"
    using read_all_packet [OF assms(9)] by auto
  have f: "cstr (take 31 (pk_nickname ?p)) = nick" "cstr (take 1023 (pk_payload ?p)) = line"
    using assms(1,3,7,8) cstr_take_field [of 31 nick] cstr_take_field [of 1023 line]
    by (simp_all add: cstr_no_nul make_packet_fields)
  have "handle_packet ok ?p c = Some (c, ShowChat nick line)"
    using f by (simp add: handle_packet_def sizes Let_def del: type_code.simps)
  then show ?thesis
    using r assms(2,4-6) by (simp add: handle_server_message_def process_user_input_def Let_def)
qed

theorem chat_line_delivered_witness:
  "process_user_input (\<lambda>_. None) ''ann'' [] (Some (''hello'' @ [CHR 0x0A]))
     = (True, [make_packet MSG_CHAT ''ann'' (Some ''hello'') None 0])
   \<and> handle_server_message [Bytes (make_packet MSG_CHAT ''ann'' (Some ''hello'') None 0)] [] True
       \<lparr>running = True, rx_file = None, files = (\<lambda>_. None)\<rparr>
     = Some (\<lparr>running = True, rx_file = None, files = (\<lambda>_. None)\<rparr>, ShowChat ''ann'' ''hello'')"
proof (rule chat_line_delivered)
  have "make_packet MSG_CHAT ''ann'' (Some ''hello'') None 0 \<noteq> []"
    using length_make_packet [of MSG_CHAT "''ann''" "Some ''hello''" None 0] by (metis PACKET_SIZE_pos(1) list.size(3))
  then show "fragments [Bytes (make_packet MSG_CHAT ''ann'' (Some ''hello'') None 0)]
      = Some (make_packet MSG_CHAT ''ann'' (Some ''hello'') None 0)" by simp
qed simp_all

section \<open>Files\<close>

text \<open>What the string functions make of a chunk.\<close>

definition as_text :: "byte list \<Rightarrow> byte list" where
  "as_text c = take (length c) (take 1023 (cstr c) @ replicate 1024 NUL)"

definition received_name :: "string \<Rightarrow> string" where
  "received_name path = snprintf 512 (''received_'' @ take 255 (cstr (get_base_filename path)))"

lemma length_as_text: "length c \<le> 1024 \<Longrightarrow> length (as_text c) = length c"
  by (simp add: as_text_def)

lemma payload_of_chunk:
  assumes "length c \<le> 1024"
  shows "take (length c) (strncpy_field 1024 1023 (c @ x)) = as_text c"
proof (cases "NUL \<in> set c")
  case True
  then show ?thesis
    using cstr_shorter [OF True] assms by (auto simp: strncpy_field_def as_text_def cstr_append Let_def min_def)
next
  case False
  then have c: "cstr c = c" by (simp add: cstr_no_nul no_nul_def)
  show ?thesis
  proof (cases "length c = 1024")
    case True
    then show ?thesis using False by (simp add: strncpy_field_def as_text_def cstr_append c Let_def)
  next
    case small: False
    then have "length c \<le> 1023" using assms by simp
    then show ?thesis using False by (simp add: strncpy_field_def as_text_def cstr_append c Let_def)
  qed
qed

lemma chunks_concat: "concat (chunks bs) = bs"
proof (induction bs rule: chunks.induct)
  case (2 b bs)
  have "drop 1024 (b # bs) = drop 1023 bs" by simp
  with 2 show ?case using append_take_drop_id [of 1024 "b # bs"] by (simp add: MAX_CHUNK_SIZE_def)
qed simp

lemma chunks_length: "c \<in> set (chunks bs) \<Longrightarrow> length c \<le> 1024"
  by (induction bs rule: chunks.induct) (auto simp: MAX_CHUNK_SIZE_def)

text \<open>A packet that arrives in one piece.\<close>

definition arrive :: "byte list \<Rightarrow> poll" where
  "arrive p = PollReady (Some ([Bytes p], [], True)) None"

lemma handle_arrive:
  assumes "length p = PACKET_SIZE"
  shows "handle_server_message [Bytes p] [] True c = handle_packet True p c"
proof -
  have "p \<noteq> []" using assms by auto
  then have "fragments [Bytes p] = Some p" by simp
  then show ?thesis using read_all_packet [OF _ assms] assms by (fastforce simp: handle_server_message_def)
qed

lemma loop_arrive:
  assumes "running c" "length p = PACKET_SIZE" "handle_packet True p c = Some (c', s)"
  shows "run_client_loop fs nick (arrive p # es) c = run_client_loop fs nick es c'"
  using assms by (simp add: arrive_def handle_arrive case_prod_unfold)

lemma loop_data:
  assumes "running c" "rx_file c = Some f" "files c f = Some b" "\<forall>x \<in> set cs. length x \<le> 1024"
  shows "run_client_loop fs nick (map arrive (data_packets n fname junk cs) @ es) c =
    run_client_loop fs nick es (c\<lparr>files := (files c)(f \<mapsto> b @ concat (map as_text cs))\<rparr>)"
  using assms
proof (induction cs arbitrary: b c junk)
  case Nil
  then show ?case by (simp add: fun_upd_idem)
next
  case (Cons x cs)
  let ?p = "make_packet MSG_FILE_DATA n (Some (x @ drop (length x) junk)) (Some fname) (length x)"
  let ?c = "c\<lparr>files := (files c)(f \<mapsto> b @ as_text x)\<rparr>"
  have x: "length x \<le> 1024" using Cons.prems by simp
  then have "pk_data_len ?p = length x" by (simp add: make_packet_fields)
  moreover have "take (length x) (pk_payload ?p) = as_text x"
    using payload_of_chunk [OF x] by (simp add: make_packet_fields)
  ultimately have "handle_packet True ?p c = Some (?c, ShowNothing)"
    using Cons.prems x by (simp add: handle_packet_def Let_def MAX_CHUNK_SIZE_def del: type_code.simps)
  then have "run_client_loop fs nick (arrive ?p # map arrive (data_packets n fname (replicate MAX_CHUNK_SIZE NUL) cs) @ es) c
      = run_client_loop fs nick (map arrive (data_packets n fname (replicate MAX_CHUNK_SIZE NUL) cs) @ es) ?c"
    using Cons.prems by (intro loop_arrive) simp_all
  also have "\<dots> = run_client_loop fs nick es (?c\<lparr>files := (files ?c)(f \<mapsto> (b @ as_text x) @ concat (map as_text cs))\<rparr>)"
    using Cons.prems by (intro Cons.IH) simp_all
  also have "?c\<lparr>files := (files ?c)(f \<mapsto> (b @ as_text x) @ concat (map as_text cs))\<rparr> =
      c\<lparr>files := (files c)(f \<mapsto> b @ concat (map as_text (x # cs)))\<rparr>" by simp
  finally show ?case by (simp only: data_packets.simps list.map append_Cons)
qed

lemma file_transfer_parts:
  assumes "fs path = Some content" "running c"
  shows "run_client_loop fs' nick' (map arrive (upload_file fs nick path junk)) c =
    Some (c\<lparr>rx_file := None, files := (files c)(received_name path \<mapsto> concat (map as_text (chunks content)))\<rparr>, [])"
proof -
  let ?f = "get_base_filename path" and ?n = "received_name path"
  let ?s = "make_packet MSG_FILE_START nick None (Some ?f) 0" and ?e = "make_packet MSG_FILE_END nick None (Some ?f) 0"
  let ?c1 = "c\<lparr>rx_file := Some ?n, files := (files c)(?n \<mapsto> [])\<rparr>"
  let ?c2 = "?c1\<lparr>files := (files ?c1)(?n \<mapsto> [] @ concat (map as_text (chunks content)))\<rparr>"
  have "cstr (take 255 (pk_filename ?s)) = take 255 (cstr ?f)"
    using cstr_take_field [of 255 ?f] by (simp add: make_packet_fields)
  then have start: "handle_packet True ?s c = Some (?c1, ShowNothing)"
    by (simp add: handle_packet_def Let_def MAX_FILENAME_def received_name_def del: type_code.simps)
  have stop: "handle_packet True ?e ?c2 = Some (?c2\<lparr>rx_file := None\<rparr>, ShowNothing)"
    by (simp add: handle_packet_def Let_def del: type_code.simps)
  have "run_client_loop fs' nick' (map arrive (upload_file fs nick path junk)) c
      = run_client_loop fs' nick' (arrive ?s # map arrive (data_packets nick ?f junk (chunks content)) @ [arrive ?e]) c"
    using assms(1) by (simp add: upload_file_def Let_def)
  also have "\<dots> = run_client_loop fs' nick' (map arrive (data_packets nick ?f junk (chunks content)) @ [arrive ?e]) ?c1"
    using start assms(2) by (intro loop_arrive) simp_all
  also have "\<dots> = run_client_loop fs' nick' [arrive ?e] ?c2"
    using assms(2) chunks_length by (intro loop_data) auto
  also have "\<dots> = run_client_loop fs' nick' [] (?c2\<lparr>rx_file := None\<rparr>)"
    using stop assms(2) by (intro loop_arrive) simp_all
  finally show ?thesis by simp
qed

text \<open>C40: A file sent by one client ends up at a receiver as the concatenation of what string functions make of
  its chunks of 1024 bytes, under the base name of its path with a prefix, and the transfer is closed.\<close>
theorem file_transfer_result:
  assumes "fs path = Some content" "running c"
  shows "run_client_loop fs' nick' (map arrive (upload_file fs nick path junk)) c =
    Some (c\<lparr>rx_file := None, files := (files c)(received_name path \<mapsto> concat (map as_text (chunks content)))\<rparr>, [])"
  using assms by (rule file_transfer_parts)

text \<open>A small text file arrives as it was, under its base name.\<close>

theorem file_transfer_result_witness:
  "run_client_loop (\<lambda>_. None) ''bob''
     (map arrive (upload_file (\<lambda>p. if p = ''d/a.txt'' then Some ''hello'' else None) ''ann'' ''d/a.txt'' []))
     \<lparr>running = True, rx_file = None, files = (\<lambda>_. None)\<rparr> =
   Some (\<lparr>running = True, rx_file = None, files = [''received_a.txt'' \<mapsto> ''hello'']\<rparr>, [])"
proof -
  let ?c = "\<lparr>running = True, rx_file = None, files = (\<lambda>_. None)\<rparr>"
  let ?fs = "\<lambda>p. if p = ''d/a.txt'' then Some ''hello'' else None"
  have "received_name ''d/a.txt'' = ''received_a.txt''"
    by (simp add: received_name_def get_base_filename_def strrchr_after_def cstr_def snprintf_def)
  moreover have "map as_text (chunks ''hello'') = [''hello'']"
    by (simp add: as_text_def MAX_CHUNK_SIZE_def cstr_def)
  ultimately show ?thesis
    using file_transfer_result [of ?fs "''d/a.txt''" "''hello''" ?c "\<lambda>_. None" "''bob''" "''ann''" "[]"] by simp
qed

lemma chunks_first: "1024 \<le> length bs \<Longrightarrow> chunks bs = take 1024 bs # chunks (drop 1024 bs)"
  by (cases bs) (simp_all add: MAX_CHUNK_SIZE_def)

lemma as_text_last: "length c = 1024 \<Longrightarrow> as_text c ! 1023 = NUL"
  by (auto simp: as_text_def nth_append)

text \<open>A file of at least 1024 bytes never arrives intact when its 1024th byte is not 0: that byte is lost,
  though the receiver's file has the right length and the transfer is reported as done.\<close>
theorem long_file_corrupted:
  assumes "fs path = Some content" "running c" "1024 \<le> length content" "content ! 1023 \<noteq> NUL"
  shows "\<exists>b c'. run_client_loop fs' nick' (map arrive (upload_file fs nick path junk)) c = Some (c', [])
    \<and> rx_file c' = None \<and> files c' (received_name path) = Some b \<and> length b = length content \<and> b \<noteq> content"
proof -
  let ?b = "concat (map as_text (chunks content))"
  have "map length (map as_text (chunks content)) = map length (chunks content)"
    using chunks_length length_as_text by (auto simp: comp_def)
  then have len: "length ?b = length content"
    by (metis chunks_concat length_concat)
  have "?b ! 1023 = as_text (take 1024 content) ! 1023"
    using assms(3) length_as_text [of "take 1024 content"] by (simp add: chunks_first nth_append)
  then have "?b ! 1023 = NUL" using assms(3) by (simp add: as_text_last)
  then have "?b \<noteq> content" using assms(4) by metis
  with len show ?thesis
    using file_transfer_parts [of fs path content c fs' nick' nick junk] assms(1,2) by auto
qed

theorem long_file_corrupted_witness:
  "\<exists>b c'. run_client_loop (\<lambda>_. None) ''bob''
     (map arrive (upload_file (\<lambda>_. Some (replicate 2000 CHR ''x'')) ''ann'' ''f'' []))
     \<lparr>running = True, rx_file = None, files = (\<lambda>_. None)\<rparr> = Some (c', [])
    \<and> rx_file c' = None \<and> files c' (received_name ''f'') = Some b \<and> length b = length (replicate 2000 CHR ''x'')
    \<and> b \<noteq> replicate 2000 CHR ''x''"
  by (rule long_file_corrupted) simp_all

text \<open>During a transfer, a packet of file data that claims more than 1024 bytes makes the client write
  memory from beyond the packet into the file.\<close>
theorem oversized_data_len_overreads:
  assumes "fragments rs = Some (make_packet MSG_FILE_DATA nick (Some d) f n)" "rx_file c = Some out"
    and "1024 < n" "n < 2 ^ 32"
  shows "handle_server_message rs junk ok c = None"
proof -
  let ?p = "make_packet MSG_FILE_DATA nick (Some d) f n"
  obtain rest where "read_all PACKET_SIZE [] rs = Some (int PACKET_SIZE, ?p, rest)"
    using read_all_packet [OF assms(1)] by auto
  moreover have "pk_data_len ?p = n" using assms(4) by (simp add: make_packet_fields)
  ultimately show ?thesis
    using assms(2,3) by (simp add: handle_server_message_def handle_packet_def Let_def MAX_CHUNK_SIZE_def del: type_code.simps)
qed

theorem oversized_data_len_overreads_witness:
  "handle_server_message [Bytes (make_packet MSG_FILE_DATA ''eve'' (Some ''x'') (Some ''f'') 5000)] [] True
     \<lparr>running = True, rx_file = Some ''received_f'', files = [''received_f'' \<mapsto> []]\<rparr> = None"
proof (rule oversized_data_len_overreads)
  have "make_packet MSG_FILE_DATA ''eve'' (Some ''x'') (Some ''f'') 5000 \<noteq> []"
    using length_make_packet [of MSG_FILE_DATA "''eve''" "Some ''x''" "Some ''f''" 5000] by (metis PACKET_SIZE_pos(1) list.size(3))
  then show "fragments [Bytes (make_packet MSG_FILE_DATA ''eve'' (Some ''x'') (Some ''f'') 5000)]
      = Some (make_packet MSG_FILE_DATA ''eve'' (Some ''x'') (Some ''f'') 5000)" by simp
qed simp_all

end
