(* ===== verification/TcpRoom.thy ===== *)
theory TcpRoom
  imports TcpChatProofs StepSystem
begin

text \<open>
  The TCP chat as a whole (\<^verbatim>\<open>module3/task07\<close>): the server, the clients, and between them two streams of
  bytes per connection. The clients are this program; the server takes packets from its sockets in any
  order. Every stream holds whole packets at all times, and the room refines a common log of packets:
  each client shows the others' packets of the log since it connected, in the order of the log.
\<close>

section \<open>The room\<close>

text \<open>
  Streams towards the server (\<open>up\<close>) and the clients (\<open>down\<close>) and the clients themselves, by the
  server's descriptor. For the specification only: the packets each client has written, the packets
  the server has taken with their senders, and where in that log each connection begins.
\<close>

record room =
  socks :: sockets
  up :: "int \<Rightarrow> byte list"
  down :: "int \<Rightarrow> byte list"
  clients :: "int \<Rightarrow> chat_client"
  nicks :: "int \<Rightarrow> string"
  lines :: "int \<Rightarrow> shown list"
  written :: "int \<Rightarrow> byte list list"
  log :: "(int \<times> byte list) list"
  since :: "int \<Rightarrow> nat"

definition new_client :: chat_client where
  "new_client = \<lparr>running = True, rx_file = None, files = (\<lambda>_. None)\<rparr>"

definition empty_room :: room where
  "empty_room = \<lparr>socks = [], up = (\<lambda>_. []), down = (\<lambda>_. []), clients = (\<lambda>_. new_client), nicks = (\<lambda>_. []),
     lines = (\<lambda>_. []), written = (\<lambda>_. []), log = [], since = (\<lambda>_. 0)\<rparr>"

text \<open>The client behind \<open>fd\<close> writes packets.\<close>

definition write_up :: "int \<Rightarrow> byte list list \<Rightarrow> room \<Rightarrow> room" where
  "write_up fd ps st = st\<lparr>up := (up st)(fd := up st fd @ concat ps), written := (written st)(fd := written st fd @ ps)\<rparr>"

text \<open>The server writes to its sockets.\<close>

definition post :: "(int \<times> byte list) list \<Rightarrow> (int \<Rightarrow> byte list) \<Rightarrow> int \<Rightarrow> byte list" where
  "post out d fd = d fd @ concat (map snd (filter (\<lambda>(s, p). s = fd) out))"

definition enter :: "int \<Rightarrow> string \<Rightarrow> sockets \<Rightarrow> room \<Rightarrow> room" where
  "enter fd nick ss st = write_up fd [make_packet MSG_JOIN nick None None 0]
     (st\<lparr>socks := ss, up := (up st)(fd := []), down := (down st)(fd := []), clients := (clients st)(fd := new_client),
         nicks := (nicks st)(fd := nick), lines := (lines st)(fd := []), written := (written st)(fd := []),
         since := (since st)(fd := length (log st))\<rparr>)"

text \<open>What a line of the terminal makes the client write; when it ends the client writes that it leaves.\<close>

definition typed :: "int \<Rightarrow> bool \<Rightarrow> byte list list \<Rightarrow> room \<Rightarrow> room" where
  "typed fd on sent st =
     (if on then write_up fd sent st
      else write_up fd (sent @ [make_packet MSG_LEAVE (nicks st fd) None None 0])
        (st\<lparr>clients := (clients st)(fd := (clients st fd)\<lparr>running := False\<rparr>)\<rparr>))"

text \<open>
  A client that has ended keeps its socket until the server has read all it wrote. \<open>rs\<close> are the pieces
  in which a packet arrives.
\<close>

inductive room_step :: "room \<Rightarrow> room \<Rightarrow> bool" where
  connect: "0 \<le> fd \<Longrightarrow> fd \<notin> set (socks st) \<Longrightarrow> handle_new_connection fd True (socks st) = (ss, False) \<Longrightarrow>
    room_step st (enter fd nick ss st)"
| type_line: "fd \<in> set (socks st) \<Longrightarrow> running (clients st fd) \<Longrightarrow>
    process_user_input fs (nicks st fd) junk line = (on, sent) \<Longrightarrow> room_step st (typed fd on sent st)"
| interrupt: "fd \<in> set (socks st) \<Longrightarrow> running (clients st fd) \<Longrightarrow> room_step st (typed fd False [] st)"
| serve: "fd \<in> set (socks st) \<Longrightarrow> fragments rs = Some p \<Longrightarrow> length p = PACKET_SIZE \<Longrightarrow> up st fd = p @ rest \<Longrightarrow>
    handle_client_data fd rs junk (socks st) = Some (ss, out, l) \<Longrightarrow>
    room_step st (st\<lparr>socks := ss, up := (up st)(fd := rest), down := post out (down st), log := log st @ [(fd, p)]\<rparr>)"
| hang_up: "fd \<in> set (socks st) \<Longrightarrow> \<not> running (clients st fd) \<Longrightarrow> up st fd = [] \<Longrightarrow>
    handle_client_data fd [Bytes []] junk (socks st) = Some (ss, out, l) \<Longrightarrow> room_step st (st\<lparr>socks := ss\<rparr>)"
| receive: "fd \<in> set (socks st) \<Longrightarrow> running (clients st fd) \<Longrightarrow> fragments rs = Some p \<Longrightarrow> length p = PACKET_SIZE \<Longrightarrow>
    down st fd = p @ rest \<Longrightarrow> handle_server_message rs junk ok (clients st fd) = Some (c, line) \<Longrightarrow>
    room_step st (st\<lparr>clients := (clients st)(fd := c), down := (down st)(fd := rest), lines := (lines st)(fd := lines st fd @ [line])\<rparr>)"

abbreviation room_reach :: "room \<Rightarrow> bool" where
  "room_reach \<equiv> room_step\<^sup>*\<^sup>* empty_room"

section \<open>Specification\<close>

text \<open>What a client has written, and what the others have, in the log since it connected.\<close>

definition own_part :: "room \<Rightarrow> int \<Rightarrow> byte list list" where
  "own_part st fd = map snd (filter (\<lambda>(s, p). s = fd) (drop (since st fd) (log st)))"

definition others_part :: "room \<Rightarrow> int \<Rightarrow> byte list list" where
  "others_part st fd = map snd (filter (\<lambda>(s, p). s \<noteq> fd) (drop (since st fd) (log st)))"

text \<open>The line a client shows for a packet does not depend on its state.\<close>

definition line_of :: "byte list \<Rightarrow> shown" where
  "line_of p =
     (let t = pk_type p; nick = cstr (take (MAX_NICK_LEN - 1) (pk_nickname p)) in
      if t = type_code MSG_JOIN then ShowJoin nick
      else if t = type_code MSG_CHAT then ShowChat nick (cstr (take (MAX_CHUNK_SIZE - 1) (pk_payload p)))
      else if t = type_code MSG_LEAVE then ShowLeave nick
      else ShowNothing)"

definition good_packet :: "byte list \<Rightarrow> bool" where
  "good_packet p \<longleftrightarrow> length p = PACKET_SIZE \<and> pk_data_len p \<le> MAX_CHUNK_SIZE"

definition connection_inv :: "room \<Rightarrow> int \<Rightarrow> bool" where
  "connection_inv st fd \<longleftrightarrow> (\<exists>us qs ps. list_all good_packet (us @ qs @ ps) \<and> up st fd = concat us \<and> down st fd = concat ps
     \<and> written st fd = own_part st fd @ us \<and> others_part st fd = qs @ ps \<and> lines st fd = map line_of qs)"

definition room_inv :: "room \<Rightarrow> bool" where
  "room_inv st \<longleftrightarrow> sockets_ok (socks st)
     \<and> (\<forall>fd \<in> set (socks st). since st fd \<le> length (log st) \<and> connection_inv st fd)"

section \<open>Packets\<close>

lemma good_make_packet: "n \<le> 1024 \<Longrightarrow> good_packet (make_packet t nick c f n)"
  by (simp add: good_packet_def make_packet_fields MAX_CHUNK_SIZE_def)

lemma good_data_packets: "\<forall>c \<in> set cs. length c \<le> 1024 \<Longrightarrow> list_all good_packet (data_packets nick f junk cs)"
  by (induction cs arbitrary: junk) (simp_all add: good_make_packet)

lemma good_input: "process_user_input fs nick junk line = (on, sent) \<Longrightarrow> list_all good_packet sent"
  using good_data_packets chunks_length
  by (auto simp: process_user_input_def upload_file_def Let_def good_make_packet split: option.splits if_splits)

lemma handle_packet_line:
  assumes "good_packet p"
  shows "\<exists>c'. handle_packet ok p c = Some (c', line_of p) \<and> running c' = running c"
  using assms by (auto simp: handle_packet_def line_of_def good_packet_def Let_def split: option.splits)

lemma handle_message_line:
  assumes "fragments rs = Some p" "good_packet p"
  shows "\<exists>c'. handle_server_message rs junk ok c = Some (c', line_of p) \<and> running c' = running c"
proof -
  have "length p = PACKET_SIZE" using assms(2) by (simp add: good_packet_def)
  with read_all_packet [OF assms(1)] obtain rest where "read_all PACKET_SIZE [] rs = Some (int PACKET_SIZE, p, rest)" by blast
  then have "handle_server_message rs junk ok c = handle_packet ok p c"
    using \<open>length p = PACKET_SIZE\<close> by (simp add: handle_server_message_def)
  then show ?thesis using handle_packet_line [OF assms(2)] by simp
qed

lemma handle_data_packet:
  assumes "fragments rs = Some p" "length p = PACKET_SIZE"
  shows "handle_client_data fd rs junk ss = Some (ss, broadcast_packet fd p ss, log_packet p)"
  using read_all_packet [OF assms] assms(2) by (auto simp: handle_client_data_def)

lemma handle_data_end: "handle_client_data fd [Bytes []] junk ss = Some (remove_client fd ss, [], None)"
  by (simp add: handle_client_data_def read_all.simps handle_client_disconnect_def)

lemma first_packet:
  assumes "list_all good_packet ps" "concat ps = p @ rest" "length p = PACKET_SIZE"
  shows "\<exists>qs. ps = p # qs \<and> rest = concat qs"
  using assms by (cases ps) (auto simp: good_packet_def append_eq_append_conv)

lemma post_broadcast:
  assumes "distinct ss"
  shows "post (broadcast_packet s p ss) d fd = (if fd \<in> set ss \<and> fd \<noteq> s then d fd @ p else d fd)"
proof -
  have "concat (map snd (filter (\<lambda>(x, q). x = fd) (broadcast_packet s p ss))) = (if fd \<in> set ss \<and> fd \<noteq> s then p else [])"
    using assms by (induction ss) (auto simp: broadcast_packet_def)
  then show ?thesis by (simp add: post_def)
qed

section \<open>The room refines its log\<close>

lemma room_inv_empty: "room_inv empty_room"
  by (simp add: room_inv_def empty_room_def sockets_ok_def)

lemma connection_invI:
  assumes "list_all good_packet (us @ qs @ ps)" "up st fd = concat us" "down st fd = concat ps"
    and "written st fd = own_part st fd @ us" "others_part st fd = qs @ ps" "lines st fd = map line_of qs"
  shows "connection_inv st fd"
  unfolding connection_inv_def using assms by blast

lemma connection_invE:
  assumes "connection_inv st fd"
  obtains us qs ps where "list_all good_packet (us @ qs @ ps)" "up st fd = concat us" "down st fd = concat ps"
    "written st fd = own_part st fd @ us" "others_part st fd = qs @ ps" "lines st fd = map line_of qs"
  using assms unfolding connection_inv_def by blast

text \<open>A connection does not see what changes elsewhere.\<close>

lemma connection_inv_cong:
  assumes "up st' fd = up st fd" "down st' fd = down st fd" "written st' fd = written st fd" "lines st' fd = lines st fd"
    and "log st' = log st" "since st' fd = since st fd"
  shows "connection_inv st' fd \<longleftrightarrow> connection_inv st fd"
  using assms by (simp add: connection_inv_def own_part_def others_part_def)

lemma connection_inv_write:
  assumes "connection_inv st fd" "list_all good_packet ps"
  shows "connection_inv (write_up fd ps st) fd"
proof -
  obtain us qs rs where c: "list_all good_packet (us @ qs @ rs)" "up st fd = concat us" "down st fd = concat rs"
    "written st fd = own_part st fd @ us" "others_part st fd = qs @ rs" "lines st fd = map line_of qs"
    using assms(1) by (rule connection_invE)
  then show ?thesis using assms(2)
    by (intro connection_invI [of "us @ ps" qs rs]) (simp_all add: write_up_def own_part_def others_part_def)
qed

lemma connection_inv_enter: "connection_inv (enter fd nick ss st) fd"
  unfolding enter_def
  by (rule connection_inv_write, rule connection_invI [of "[]" "[]" "[]"])
    (simp_all add: own_part_def others_part_def good_make_packet)

lemma connection_inv_typed:
  assumes "connection_inv st fd" "list_all good_packet sent"
  shows "connection_inv (typed fd on sent st) fd"
proof -
  let ?st = "st\<lparr>clients := (clients st)(fd := (clients st fd)\<lparr>running := False\<rparr>)\<rparr>"
  have "connection_inv ?st fd = connection_inv st fd" by (rule connection_inv_cong) simp_all
  then show ?thesis
    using assms by (simp add: typed_def connection_inv_write good_make_packet)
qed

text \<open>The server takes a packet: the sender's part of the log grows, or the others'.\<close>

lemma connection_inv_serve_sender:
  assumes "connection_inv st fd" "since st fd \<le> length (log st)" "up st fd = p @ rest" "length p = PACKET_SIZE"
    and "down st' fd = down st fd" "written st' fd = written st fd" "lines st' fd = lines st fd" "since st' fd = since st fd"
    and "up st' fd = rest" "log st' = log st @ [(fd, p)]"
  shows "connection_inv st' fd \<and> good_packet p"
proof -
  obtain us qs ps where c: "list_all good_packet (us @ qs @ ps)" "up st fd = concat us" "down st fd = concat ps"
    "written st fd = own_part st fd @ us" "others_part st fd = qs @ ps" "lines st fd = map line_of qs"
    using assms(1) by (rule connection_invE)
  obtain vs where us: "us = p # vs" "rest = concat vs"
    using first_packet [of us p rest] c(1,2) assms(3,4) by auto
  have "own_part st' fd = own_part st fd @ [p]" "others_part st' fd = others_part st fd"
    using assms(2,8,10) by (simp_all add: own_part_def others_part_def)
  then show ?thesis using c us assms(5-10) by (auto intro!: connection_invI [of vs qs ps])
qed

lemma connection_inv_serve_other:
  assumes "connection_inv st fd" "since st fd \<le> length (log st)" "good_packet p" "k \<noteq> fd"
    and "up st' fd = up st fd" "written st' fd = written st fd" "lines st' fd = lines st fd" "since st' fd = since st fd"
    and "down st' fd = down st fd @ p" "log st' = log st @ [(k, p)]"
  shows "connection_inv st' fd"
proof -
  obtain us qs ps where c: "list_all good_packet (us @ qs @ ps)" "up st fd = concat us" "down st fd = concat ps"
    "written st fd = own_part st fd @ us" "others_part st fd = qs @ ps" "lines st fd = map line_of qs"
    using assms(1) by (rule connection_invE)
  have "own_part st' fd = own_part st fd" "others_part st' fd = others_part st fd @ [p]"
    using assms(2,4,8,10) by (simp_all add: own_part_def others_part_def)
  then show ?thesis using c assms(3,5-10) by (auto intro!: connection_invI [of us qs "ps @ [p]"])
qed

lemma connection_inv_receive:
  assumes "connection_inv st fd" "down st fd = p @ rest" "length p = PACKET_SIZE"
    and "up st' fd = up st fd" "written st' fd = written st fd" "log st' = log st" "since st' fd = since st fd"
    and "down st' fd = rest" "lines st' fd = lines st fd @ [line_of p]"
  shows "connection_inv st' fd"
proof -
  obtain us qs ps where c: "list_all good_packet (us @ qs @ ps)" "up st fd = concat us" "down st fd = concat ps"
    "written st fd = own_part st fd @ us" "others_part st fd = qs @ ps" "lines st fd = map line_of qs"
    using assms(1) by (rule connection_invE)
  obtain rs where ps: "ps = p # rs" "rest = concat rs"
    using first_packet [of ps p rest] c(1,3) assms(2,3) by auto
  have "own_part st' fd = own_part st fd" "others_part st' fd = others_part st fd"
    using assms(6,7) by (simp_all add: own_part_def others_part_def)
  then show ?thesis using c ps assms(4-9) by (auto intro!: connection_invI [of us "qs @ [p]" rs])
qed

lemma down_packet_good:
  assumes "connection_inv st fd" "down st fd = p @ rest" "length p = PACKET_SIZE"
  shows "good_packet p"
proof -
  obtain us qs ps where c: "list_all good_packet (us @ qs @ ps)" "down st fd = concat ps"
    using assms(1) by (rule connection_invE)
  with first_packet [of ps p rest] assms(2,3) show ?thesis by auto
qed

lemma typed_fields [simp]:
  "socks (typed fd on sent st) = socks st" "log (typed fd on sent st) = log st" "since (typed fd on sent st) = since st"
  by (simp_all add: typed_def write_up_def)

lemma room_invI:
  assumes "sockets_ok (socks st)" "\<And>k. k \<in> set (socks st) \<Longrightarrow> since st k \<le> length (log st)"
    and "\<And>k. k \<in> set (socks st) \<Longrightarrow> connection_inv st k"
  shows "room_inv st"
  using assms by (simp add: room_inv_def)

lemma room_invD:
  assumes "room_inv st" "k \<in> set (socks st)"
  shows "since st k \<le> length (log st)" and "connection_inv st k"
  using assms by (simp_all add: room_inv_def)

lemma room_inv_typed:
  assumes "room_inv st" "fd \<in> set (socks st)" "list_all good_packet sent"
  shows "room_inv (typed fd on sent st)"
proof (rule room_invI)
  fix k
  assume "k \<in> set (socks (typed fd on sent st))"
  then have k: "k \<in> set (socks st)" by simp
  then show "since (typed fd on sent st) k \<le> length (log (typed fd on sent st))" using room_invD(1) [OF assms(1)] by simp
  show "connection_inv (typed fd on sent st) k"
  proof (cases "k = fd")
    case True
    with connection_inv_typed [OF room_invD(2) [OF assms(1,2)] assms(3)] show ?thesis by simp
  next
    case False
    then have "connection_inv (typed fd on sent st) k = connection_inv st k"
      by (intro connection_inv_cong) (simp_all add: typed_def write_up_def)
    with room_invD(2) [OF assms(1) k] show ?thesis by simp
  qed
qed (use assms(1) in \<open>simp add: room_inv_def\<close>)

lemma room_inv_step: "room_step st st' \<Longrightarrow> room_inv st \<Longrightarrow> room_inv st'"
proof (induction rule: room_step.induct)
  case (connect fd st ss nick)
  then have "sockets_ok ss \<and> set ss \<subseteq> insert fd (set (socks st))"
    using sockets_ok_connection [of "socks st" fd True] by (auto simp: room_inv_def split: if_splits)
  moreover have "connection_inv (enter fd nick ss st) k" if "k \<in> set (socks st)" "k \<noteq> fd" for k
    using connect.prems that connection_inv_cong [of "enter fd nick ss st" k st]
    by (simp add: room_inv_def enter_def write_up_def)
  moreover have "since (enter fd nick ss st) k \<le> length (log (enter fd nick ss st))" if "k \<in> insert fd (set (socks st))" for k
    using connect.prems that by (auto simp: room_inv_def enter_def write_up_def)
  moreover have "socks (enter fd nick ss st) = ss" by (simp add: enter_def write_up_def)
  ultimately show ?case using connection_inv_enter unfolding room_inv_def by (metis insertE subsetD)
next
  case (type_line fd st fs junk line on sent)
  then show ?case using room_inv_typed good_input by blast
next
  case (interrupt fd st)
  then show ?case using room_inv_typed [of st fd "[]"] by simp
next
  case (serve fd st rs p rest junk ss out l)
  have ss: "ss = socks st" "out = broadcast_packet fd p (socks st)"
    using serve.hyps handle_data_packet [of rs p fd junk "socks st"] by auto
  let ?st = "st\<lparr>socks := ss, up := (up st)(fd := rest), down := post out (down st), log := log st @ [(fd, p)]\<rparr>"
  have ok: "sockets_ok (socks st)" using serve.prems by (simp add: room_inv_def)
  then have down: "down ?st k = (if k \<in> set (socks st) \<and> k \<noteq> fd then down st k @ p else down st k)" for k
    using post_broadcast [of "socks st" fd p "down st" k] by (simp add: ss sockets_ok_def)
  have sender: "connection_inv ?st fd \<and> good_packet p"
    using room_invD [OF serve.prems serve.hyps(1)] serve.hyps down [of fd] by (intro connection_inv_serve_sender [of st]) simp_all
  show ?case
  proof (rule room_invI)
    show "sockets_ok (socks ?st)" using ok by (simp add: ss)
  next
    fix k
    assume "k \<in> set (socks ?st)"
    then have k: "k \<in> set (socks st)" by (simp add: ss)
    then show "since ?st k \<le> length (log ?st)" using room_invD(1) [OF serve.prems k] by simp
    show "connection_inv ?st k"
    proof (cases "k = fd")
      case False
      have d: "down ?st k = down st k @ p" using down [of k] k False by simp
      show ?thesis
        by (rule connection_inv_serve_other [OF room_invD(2,1) [OF serve.prems k] conjunct2 [OF sender] not_sym [OF False] _ _ _ _ d])
          (use False in simp_all)
    qed (use sender in simp)
  qed
next
  case (hang_up fd st junk ss out l)
  then have "sockets_ok ss \<and> set ss \<subseteq> set (socks st)"
    using sockets_ok_remove [of "socks st" fd] by (simp add: room_inv_def handle_data_end)
  moreover have "connection_inv (st\<lparr>socks := ss\<rparr>) k = connection_inv st k" for k
    by (rule connection_inv_cong) simp_all
  ultimately show ?case using hang_up.prems by (auto simp: room_inv_def)
next
  case (receive fd st rs p rest junk ok c line)
  let ?st = "st\<lparr>clients := (clients st)(fd := c), down := (down st)(fd := rest), lines := (lines st)(fd := lines st fd @ [line])\<rparr>"
  have c: "connection_inv st fd" using receive by (simp add: room_inv_def)
  have "line = line_of p"
    using handle_message_line [OF receive.hyps(3) down_packet_good [OF c receive.hyps(5,4)], of junk ok "clients st fd"]
      receive.hyps(6) by auto
  then have "connection_inv ?st fd" using receive.hyps by (intro connection_inv_receive [OF c]) simp_all
  moreover have "connection_inv ?st k = connection_inv st k" if "k \<noteq> fd" for k
    using that by (intro connection_inv_cong) simp_all
  ultimately have "connection_inv ?st k" if "k \<in> set (socks st)" for k
    using room_invD(2) [OF receive.prems that] by (cases "k = fd") simp_all
  then show ?case using receive.prems by (intro room_invI) (simp_all add: room_inv_def)
qed

interpretation room: step_system room_step "\<lambda>st. st = empty_room" room_inv
  by unfold_locales (simp_all add: room_inv_empty room_inv_step)

text \<open>An example: two clients connect, and the first types a line.\<close>

definition example_room :: room where
  "example_room = typed 5 True [make_packet MSG_CHAT ''ann'' (Some ''hi'') None 0]
     (enter 6 ''bob'' [5, 6] (enter 5 ''ann'' [5] empty_room))"

lemma example_room_fields:
  "socks example_room = [5, 6]" "clients example_room 5 = new_client" "clients example_room 6 = new_client"
  "written example_room 5 = [make_packet MSG_JOIN ''ann'' None None 0, make_packet MSG_CHAT ''ann'' (Some ''hi'') None 0]"
  "lines example_room 6 = []" "log example_room = []"
  by (simp_all add: example_room_def typed_def enter_def write_up_def empty_room_def)

lemma example_room_reached: "room_reach example_room"
proof -
  let ?a = "enter 5 ''ann'' [5] empty_room"
  let ?b = "enter 6 ''bob'' [5, 6] ?a"
  have "room_step empty_room ?a"
    by (rule room_step.connect) (simp_all add: empty_room_def handle_new_connection_def MAX_CLIENTS_def)
  moreover have "room_step ?a ?b"
    by (rule room_step.connect) (simp_all add: empty_room_def enter_def write_up_def handle_new_connection_def MAX_CLIENTS_def)
  moreover have "room_step ?b example_room"
    unfolding example_room_def
    by (rule room_step.type_line [where fs = "\<lambda>_. None" and junk = "[]" and line = "Some (''hi'' @ [CHR 0x0A])"])
      (simp_all add: empty_room_def enter_def write_up_def new_client_def process_user_input_def)
  ultimately show ?thesis by (meson rtranclp.rtrancl_refl rtranclp.rtrancl_into_rtrancl)
qed



text \<open>C2: The room refines its log: what a client has written is its own part of the log and what is on the way to the
  server; the lines it has shown are those of the others' packets of the log since it connected, in the order of
  the log, but for those still on the way to it.\<close>
theorem room_refines_log:
  assumes "room_reach st" "fd \<in> set (socks st)"
  shows "\<exists>us qs ps. written st fd = own_part st fd @ us \<and> up st fd = concat us
    \<and> others_part st fd = qs @ ps \<and> lines st fd = map line_of qs \<and> down st fd = concat ps"
  using room_invD(2) [OF room.inv_reachable [OF refl assms(1)] assms(2)] by (rule connection_invE) blast

theorem room_refines_log_witness:
  "room_reach example_room \<and> (\<exists>us qs ps. written example_room 5 = own_part example_room 5 @ us \<and> up example_room 5 = concat us
    \<and> others_part example_room 5 = qs @ ps \<and> lines example_room 5 = map line_of qs \<and> down example_room 5 = concat ps)"
  by (intro conjI example_room_reached room_refines_log) (simp_all add: example_room_fields)

section \<open>The room comes to rest\<close>

definition at_rest :: "room \<Rightarrow> bool" where
  "at_rest st \<longleftrightarrow> (\<forall>fd \<in> set (socks st). running (clients st fd) \<and> up st fd = [] \<and> down st fd = [])"

definition present :: "room \<Rightarrow> int set" where
  "present st = {fd \<in> set (socks st). running (clients st fd)}"

definition room_todo :: "room \<Rightarrow> nat \<times> nat" where
  "room_todo st = ((\<Sum>fd \<in> set (socks st). length (up st fd)) + card (set (socks st)), \<Sum>fd \<in> set (socks st). length (down st fd))"

lemma sum_less_at:
  fixes f g :: "'a \<Rightarrow> nat"
  assumes "finite A" "x \<in> A" "g x < f x" "\<And>y. y \<in> A \<Longrightarrow> y \<noteq> x \<Longrightarrow> g y = f y"
  shows "sum g A < sum f A"
proof (rule sum_strict_mono_ex1 [OF assms(1)])
  show "\<forall>y \<in> A. g y \<le> f y" using assms(3,4) by (metis less_imp_le order_refl)
qed (use assms(2,3) in blast)

lemma single_read: "good_packet p \<Longrightarrow> fragments [Bytes p] = Some p \<and> length p = PACKET_SIZE \<and> p \<noteq> []"
  using PACKET_SIZE_pos by (auto simp: good_packet_def)

lemma room_serves:
  assumes "room_inv st" "fd \<in> set (socks st)" "up st fd \<noteq> []"
  shows "\<exists>st'. room_step st st' \<and> written st' = written st \<and> present st' = present st
    \<and> (room_todo st', room_todo st) \<in> less_than <*lex*> less_than"
proof -
  obtain us qs ps where c: "list_all good_packet (us @ qs @ ps)" "up st fd = concat us"
    using room_invD(2) [OF assms(1,2)] by (rule connection_invE)
  then obtain p vs where us: "us = p # vs" using assms(3) by (cases us) auto
  with c have p: "fragments [Bytes p] = Some p" "length p = PACKET_SIZE" "p \<noteq> []" "up st fd = p @ concat vs"
    using single_read [of p] by simp_all
  let ?st = "st\<lparr>socks := socks st, up := (up st)(fd := concat vs),
      down := post (broadcast_packet fd p (socks st)) (down st), log := log st @ [(fd, p)]\<rparr>"
  have "room_step st ?st"
    by (rule room_step.serve [OF assms(2) p(1,2,4) handle_data_packet [OF p(1,2)]])
  moreover have "(\<Sum>k \<in> set (socks st). length (up ?st k)) < (\<Sum>k \<in> set (socks st). length (up st k))"
    using assms(2) p(3,4) by (intro sum_less_at [of _ fd]) simp_all
  ultimately show ?thesis by (intro exI [of _ ?st]) (simp add: present_def room_todo_def)
qed

lemma room_hangs_up:
  assumes "room_inv st" "fd \<in> set (socks st)" "up st fd = []" "\<not> running (clients st fd)"
  shows "\<exists>st'. room_step st st' \<and> written st' = written st \<and> present st' = present st
    \<and> (room_todo st', room_todo st) \<in> less_than <*lex*> less_than"
proof -
  let ?st = "st\<lparr>socks := remove_client fd (socks st)\<rparr>"
  have "room_step st ?st" using assms by (intro room_step.hang_up [where junk = "[]"]) (simp_all add: handle_data_end)
  moreover have set: "set (socks ?st) = set (socks st) - {fd}"
    using sockets_ok_remove assms(1) by (simp add: room_inv_def)
  moreover have "present ?st = present st" using set assms(4) by (auto simp: present_def)
  moreover have "(\<Sum>k \<in> set (socks st) - {fd}. length (up st k)) \<le> (\<Sum>k \<in> set (socks st). length (up st k))"
    by (rule sum_mono2) auto
  moreover have "card (set (socks st) - {fd}) < card (set (socks st))" using assms(2) by (intro card_Diff1_less) simp_all
  ultimately show ?thesis by (intro exI [of _ ?st]) (simp add: room_todo_def)
qed

lemma room_receives:
  assumes "room_inv st" "fd \<in> set (socks st)" "down st fd \<noteq> []" "running (clients st fd)"
  shows "\<exists>st'. room_step st st' \<and> written st' = written st \<and> present st' = present st
    \<and> (room_todo st', room_todo st) \<in> less_than <*lex*> less_than"
proof -
  obtain us qs ps where c: "list_all good_packet (us @ qs @ ps)" "down st fd = concat ps"
    using room_invD(2) [OF assms(1,2)] by (rule connection_invE)
  then obtain p vs where ps: "ps = p # vs" using assms(3) by (cases ps) auto
  with c have p: "fragments [Bytes p] = Some p" "length p = PACKET_SIZE" "p \<noteq> []" "down st fd = p @ concat vs" "good_packet p"
    using single_read [of p] by simp_all
  obtain cl where cl: "handle_server_message [Bytes p] [] True (clients st fd) = Some (cl, line_of p)" "running cl"
    using handle_message_line [OF p(1,5), of "[]" True "clients st fd"] assms(4) by auto
  let ?st = "st\<lparr>clients := (clients st)(fd := cl), down := (down st)(fd := concat vs), lines := (lines st)(fd := lines st fd @ [line_of p])\<rparr>"
  have "room_step st ?st" by (rule room_step.receive [OF assms(2,4) p(1,2,4) cl(1)])
  moreover have "present ?st = present st" using assms(4) cl(2) by (auto simp: present_def)
  moreover have "(\<Sum>k \<in> set (socks st). length (down ?st k)) < (\<Sum>k \<in> set (socks st). length (down st k))"
    using assms(2) p(3,4) by (intro sum_less_at [of _ fd]) simp_all
  ultimately show ?thesis by (intro exI [of _ ?st]) (simp add: room_todo_def)
qed

interpretation room: draining_system room_step "\<lambda>st. st = empty_room" room_inv at_rest "\<lambda>st. (written st, present st)" room_todo
proof unfold_locales
  fix st
  assume "room_inv st" "\<not> at_rest st"
  then show "\<exists>st'. room_step st st' \<and> (written st', present st') = (written st, present st)
      \<and> (room_todo st', room_todo st) \<in> less_than <*lex*> less_than"
    using room_serves [of st] room_hangs_up [of st] room_receives [of st] unfolding at_rest_def prod.inject by metis
qed



section \<open>A client from start to end\<close>

lemma run_client_loop_sends: "run_client_loop fs nick es c = Some (c', sent) \<Longrightarrow> list_all good_packet sent"
proof (induction es arbitrary: c c' sent)
  case (Cons e es)
  show ?case
  proof (cases "running c")
    case False
    with Cons.prems show ?thesis by simp
  next
    case running: True
    show ?thesis
    proof (cases e)
      case (PollReady srv inp)
      obtain on out where io: "(case inp of Some (line, junk) \<Rightarrow> process_user_input fs nick junk line | None \<Rightarrow> (True, [])) = (on, out)"
        by (metis surj_pair)
      have "list_all good_packet out" using io by (auto split: option.splits dest: good_input)
      then show ?thesis
        using Cons.prems running io unfolding PollReady
        by (auto split: Option.bind_splits prod.splits if_splits dest!: Cons.IH)
    qed (use Cons.prems running in simp_all)
  qed
qed simp

text \<open>A client that ends normally has sent whole packets, of which the first says that it joins and the last that it
  leaves, and has closed its socket; one that cannot connect has sent nothing and keeps no socket.\<close>
theorem client_session:
  assumes "chat_client_main fs argv sock addr_ok connect_ok es = Some (Some status, fds, sent)"
  shows "fds = {} \<and> list_all good_packet sent \<and> (sent = [] \<or> hd sent = make_packet MSG_JOIN (argv ! 3) None None 0
    \<and> last sent = make_packet MSG_LEAVE (argv ! 3) None None 0 \<and> status = 0)"
  using assms run_client_loop_sends
  by (auto simp: chat_client_main_def init_client_socket_def Let_def good_make_packet split: if_splits Option.bind_splits)

theorem client_session_witness:
  "\<exists>fds sent. chat_client_main (\<lambda>_. None) [''client'', ''10.0.0.1'', ''8080'', ''ann''] 3 True True [PollEintr] = Some (Some 0, fds, sent)
    \<and> fds = {} \<and> list_all good_packet sent"
proof -
  obtain fds sent where r: "chat_client_main (\<lambda>_. None) [''client'', ''10.0.0.1'', ''8080'', ''ann''] 3 True True [PollEintr]
      = Some (Some 0, fds, sent)"
    by (simp add: chat_client_main_def init_client_socket_def loop_left_def Let_def)
  with client_session [OF r] show ?thesis by blast
qed

end
