(* ===== verification/UdpChat.thy ===== *)
theory UdpChat
  imports CScan Mem
begin

text \<open>
  The UDP broadcast chat of \<^verbatim>\<open>module3/task06\<close> (\<^verbatim>\<open>chat.c\<close>, \<^verbatim>\<open>main.c\<close>). A packet is the 552 bytes of
  \<open>ChatPacket\<close>. What \<open>recvfrom\<close>, \<open>fgets\<close> and \<open>select\<close> return is input, and so are the bytes
  that the packet on the stack holds before \<open>recvfrom\<close> (\<open>junk\<close>).
\<close>

section \<open>Packets\<close>

definition NICK_LEN :: nat where "NICK_LEN = 32"
definition TEXT_LEN :: nat where "TEXT_LEN = 512"
definition CHAT_PACKET_SIZE :: nat where "CHAT_PACKET_SIZE = 4 + 4 + NICK_LEN + TEXT_LEN"

datatype chat_msg = CHAT_JOIN | CHAT_TEXT | CHAT_LEAVE

fun chat_code :: "chat_msg \<Rightarrow> int" where
  "chat_code CHAT_JOIN = 1"
| "chat_code CHAT_TEXT = 2"
| "chat_code CHAT_LEAVE = 3"

text \<open>The packet of \<open>send_packet\<close>; \<open>None\<close> is a null pointer for the text.\<close>

definition chat_packet :: "int \<Rightarrow> chat_msg \<Rightarrow> string \<Rightarrow> string option \<Rightarrow> byte list" where
  "chat_packet pid t nickname content =
     enc_int32 (chat_code t) @ enc_int32 pid @ strncpy_field NICK_LEN (NICK_LEN - 1) nickname
     @ strncpy_field TEXT_LEN (TEXT_LEN - 1) (case content of Some s \<Rightarrow> s | None \<Rightarrow> [])"

definition cp_type :: "byte list \<Rightarrow> int" where "cp_type p = dec_int32 (take 4 p)"
definition cp_pid :: "byte list \<Rightarrow> int" where "cp_pid p = dec_int32 (take 4 (drop 4 p))"
definition cp_nickname :: "byte list \<Rightarrow> byte list" where "cp_nickname p = take NICK_LEN (drop 8 p)"
definition cp_text :: "byte list \<Rightarrow> byte list" where "cp_text p = take TEXT_LEN (drop 40 p)"

section \<open>Receiving\<close>

datatype chat_line = Joined string int | Said string string | Left string int | Own string | Prompt_only

text \<open>
  \<open>handle_incoming_packet\<close>: \<open>recvfrom\<close> stores what fits of a datagram over the packet (\<open>None\<close>: it
  failed). The result is the line shown, or nothing at all.
\<close>

definition handle_incoming_packet :: "int \<Rightarrow> byte list option \<Rightarrow> byte list \<Rightarrow> chat_line option" where
  "handle_incoming_packet own_pid datagram junk =
     (case datagram of
        None \<Rightarrow> None
      | Some d \<Rightarrow>
          let got = take CHAT_PACKET_SIZE d; p = got @ drop (length got) junk in
          if cp_pid p = own_pid then None
          else let nick = cstr (take (NICK_LEN - 1) (cp_nickname p)); content = cstr (take (TEXT_LEN - 1) (cp_text p)) in
            if cp_type p = chat_code CHAT_JOIN then Some (Joined nick (cp_pid p))
            else if cp_type p = chat_code CHAT_TEXT then Some (Said nick content)
            else if cp_type p = chat_code CHAT_LEAVE then Some (Left nick (cp_pid p))
            else Some Prompt_only)"

section \<open>Sending\<close>

text \<open>
  What \<open>fgets\<close> read (\<open>None\<close>: end of the input); the result is whether the chat goes on, what is
  shown, and the packets sent.
\<close>

definition handle_user_input :: "int \<Rightarrow> string \<Rightarrow> string option \<Rightarrow> bool \<times> chat_line list \<times> byte list list" where
  "handle_user_input pid nick line =
     (case line of
        None \<Rightarrow> (True, [], [])
      | Some l \<Rightarrow>
          let s = cstr l; b = (if s \<noteq> [] \<and> last s = CHR 0x0A then butlast s else s) in
          if b = [] then (True, [Prompt_only], [])
          else if b = ''exit'' \<or> b = ''quit'' then (False, [], [])
          else (True, [Own b], [chat_packet pid CHAT_TEXT nick (Some b)]))"

text \<open>
  What \<open>select\<close> reports: a failure (SIGINT included), or the socket with a datagram, the keyboard with
  a line, or both.
\<close>

datatype select_result = SelectFailed | SelectReady "(byte list option \<times> byte list) option" "string option option"

text \<open>The loop of \<open>main\<close>; the list ends when the loop test finds that SIGINT came.\<close>

fun chat_loop :: "int \<Rightarrow> string \<Rightarrow> select_result list \<Rightarrow> byte list list \<times> chat_line list" where
  "chat_loop pid nick [] = ([], [])"
| "chat_loop pid nick (SelectFailed # es) = ([], [])"
| "chat_loop pid nick (SelectReady sock key # es) =
     (let shown = (case sock of None \<Rightarrow> []
            | Some (d, junk) \<Rightarrow> (case handle_incoming_packet pid d junk of None \<Rightarrow> [] | Some l \<Rightarrow> [l]));
          (on, own, sent) = (case key of None \<Rightarrow> (True, [], []) | Some line \<Rightarrow> handle_user_input pid nick line);
          (sent', shown') = (if on then chat_loop pid nick es else ([], []))
      in (sent @ sent', shown @ own @ shown'))"

text \<open>
  \<open>setup_broadcast_socket\<close>: failing options are only reported; the socket is closed when it cannot be
  bound. The result is whether there is a socket, and whether one is left open.
\<close>

definition setup_broadcast_socket :: "bool \<Rightarrow> bool \<Rightarrow> bool \<times> bool" where
  "setup_broadcast_socket socket_ok bind_ok =
     (if \<not> socket_ok then (False, False) else if \<not> bind_ok then (False, False) else (True, True))"

text \<open>
  \<open>main\<close>: too few arguments, a wrong address or a socket that cannot be bound end it with 1 (\<open>Inl\<close>)
  and without a packet. Otherwise the result is what it sent and showed.
\<close>

definition udp_chat_main ::
  "string list \<Rightarrow> (string \<Rightarrow> bool) \<Rightarrow> bool \<times> bool \<Rightarrow> int \<Rightarrow> select_result list \<Rightarrow> int + (byte list list \<times> chat_line list)" where
  "udp_chat_main argv inet_pton_ok sock pid es =
     (if length argv < 4 then Inl 1
      else let nickname = argv ! 3 in
        if \<not> inet_pton_ok (argv ! 1) then Inl 1
        else if \<not> fst (setup_broadcast_socket (fst sock) (snd sock)) then Inl 1
        else let (sent, shown) = chat_loop pid nickname es in
          Inr (chat_packet pid CHAT_JOIN nickname None # sent @ [chat_packet pid CHAT_LEAVE nickname None],
               Prompt_only # shown))"

section \<open>The fields of a packet\<close>

lemmas chat_sizes = NICK_LEN_def TEXT_LEN_def CHAT_PACKET_SIZE_def

lemma length_chat_packet [simp]: "length (chat_packet pid t n c) = CHAT_PACKET_SIZE"
  by (simp add: chat_packet_def chat_sizes)

lemma chat_packet_type [simp]: "cp_type (chat_packet pid t n c) = chat_code t"
  by (cases t) (simp_all add: chat_packet_def cp_type_def dec_enc_int32)

lemma chat_packet_fields:
  "cp_pid (chat_packet pid t n c) = to_int32 pid"
  "cp_nickname (chat_packet pid t n c) = strncpy_field 32 31 n"
  "cp_text (chat_packet pid t n c) = strncpy_field 512 511 (case c of Some x \<Rightarrow> x | None \<Rightarrow> [])"
  by (simp_all add: chat_packet_def cp_pid_def cp_nickname_def cp_text_def chat_sizes dec_enc_int32)

lemma chat_code_eq [simp]: "chat_code s = chat_code t \<longleftrightarrow> s = t"
  by (cases s; cases t) simp_all

lemma strncpy_field_shown: "no_nul s \<Longrightarrow> length s \<le> n \<Longrightarrow> cstr (take n (strncpy_field (Suc n) n s)) = s"
proof -
  assume s: "no_nul s" "length s \<le> n"
  then have "take n (strncpy_field (Suc n) n s) = s @ replicate (n - length s) NUL"
    by (simp add: strncpy_field_def Let_def cstr_no_nul min_def)
  with s show ?thesis by (simp add: cstr_replicate_nul)
qed

lemma chat_packet_shown:
  assumes "no_nul nick" "length nick \<le> 31" "no_nul s" "length s \<le> 511"
  shows "cstr (take 31 (cp_nickname (chat_packet pid t nick (Some s)))) = nick
    \<and> cstr (take 511 (cp_text (chat_packet pid t nick (Some s)))) = s"
  using strncpy_field_shown [of nick 31] strncpy_field_shown [of s 511] assms by (simp add: chat_packet_fields)

lemma input_texts: "m \<in> set (snd (snd (handle_user_input pid nick line))) \<Longrightarrow> cp_type m = chat_code CHAT_TEXT"
  by (auto simp: handle_user_input_def Let_def split: option.splits if_splits simp del: chat_code.simps)

lemma chat_loop_texts: "m \<in> set (fst (chat_loop pid nick es)) \<Longrightarrow> cp_type m = chat_code CHAT_TEXT"
proof (induction pid nick es rule: chat_loop.induct)
  case (3 p n sock key es)
  show ?case
  proof (cases key)
    case None
    with 3 show ?thesis by (auto simp: Let_def split: prod.splits simp del: chat_code.simps)
  next
    case (Some line)
    obtain on own sent where h: "handle_user_input p n line = (on, own, sent)" by (metis prod_cases3)
    then have "k \<in> set sent \<Longrightarrow> cp_type k = chat_code CHAT_TEXT" for k using input_texts [of k p n line] by simp
    with 3 h Some show ?thesis by (auto simp: Let_def split: prod.splits if_splits simp del: chat_code.simps)
  qed
qed simp_all

section \<open>Properties\<close>

text \<open>A line typed by one member is broadcast as one packet; every process with another pid that receives it
  shows the nickname and the line, and the sender ignores its own copy.\<close>
theorem chat_line_broadcast:
  assumes "no_nul nick" "length nick \<le> 31" "no_nul s" "length s \<le> 510" "s \<noteq> []" "s \<noteq> ''exit''" "s \<noteq> ''quit''"
    and "is_int32 pid" "other \<noteq> pid"
  shows "\<exists>p. handle_user_input pid nick (Some (s @ [CHR 0x0A])) = (True, [Own s], [p])
    \<and> handle_incoming_packet other (Some p) junk = Some (Said nick s)
    \<and> handle_incoming_packet pid (Some p) junk = None"
proof -
  let ?p = "chat_packet pid CHAT_TEXT nick (Some s)"
  have "cstr (s @ [CHR 0x0A]) = s @ [CHR 0x0A]" using assms(3) by (intro cstr_no_nul) (simp add: no_nul_def)
  then have typed: "handle_user_input pid nick (Some (s @ [CHR 0x0A])) = (True, [Own s], [?p])"
    using assms(5-7) by (simp add: handle_user_input_def Let_def)
  moreover have pid: "cp_pid (take CHAT_PACKET_SIZE ?p @ drop CHAT_PACKET_SIZE junk) = pid"
    using assms(8) by (simp add: cp_pid_def chat_packet_def chat_sizes dec_enc_int32 is_int32_def)
  moreover have rest: "cp_type (?p @ z) = chat_code CHAT_TEXT" "cp_nickname (?p @ z) = cp_nickname ?p"
    "cp_text (?p @ z) = cp_text ?p" for z
    using chat_packet_type [of pid CHAT_TEXT nick "Some s"]
    by (simp_all add: cp_type_def cp_nickname_def cp_text_def chat_sizes del: chat_packet_type)
  moreover have "cstr (take 31 (cp_nickname ?p)) = nick" "cstr (take 511 (cp_text ?p)) = s"
    using chat_packet_shown [OF assms(1-3)] assms(4) by simp_all
  ultimately have "handle_incoming_packet other (Some ?p) junk = Some (Said nick s)"
    "handle_incoming_packet pid (Some ?p) junk = None"
    using assms(9) by (auto simp: handle_incoming_packet_def Let_def NICK_LEN_def TEXT_LEN_def simp del: chat_code.simps)
  with typed show ?thesis by blast
qed

theorem chat_line_broadcast_witness:
  "\<exists>p. handle_user_input 100 ''ann'' (Some (''hi'' @ [CHR 0x0A])) = (True, [Own ''hi''], [p])
    \<and> handle_incoming_packet 200 (Some p) [] = Some (Said ''ann'' ''hi'')
    \<and> handle_incoming_packet 100 (Some p) [] = None"
  by (rule chat_line_broadcast) (simp_all add: is_int32_def)

text \<open>A member announces itself once, first, and takes its leave once, last, whatever happens in between.\<close>
theorem join_first_leave_last:
  assumes "length argv \<ge> 4" "ok (argv ! 1)"
  shows "\<exists>chats shown. udp_chat_main argv ok (True, True) pid es =
        Inr (chat_packet pid CHAT_JOIN (argv ! 3) None # chats @ [chat_packet pid CHAT_LEAVE (argv ! 3) None], shown)
    \<and> cp_type ` set chats \<subseteq> {chat_code CHAT_TEXT}"
proof -
  have "\<forall>m \<in> set (fst (chat_loop pid (argv ! 3) es)). cp_type m = chat_code CHAT_TEXT"
    using chat_loop_texts by blast
  with assms show ?thesis
    by (auto simp: udp_chat_main_def setup_broadcast_socket_def Let_def split: prod.split simp del: chat_code.simps)
qed

theorem join_first_leave_last_witness:
  "\<exists>chats shown. udp_chat_main [''chat'', ''255.255.255.255'', ''55555'', ''Ivan''] (\<lambda>a. a = ''255.255.255.255'') (True, True) 7
       [SelectReady None (Some (Some ''hi'')), SelectFailed] =
        Inr (chat_packet 7 CHAT_JOIN ''Ivan'' None # chats @ [chat_packet 7 CHAT_LEAVE ''Ivan'' None], shown)
    \<and> cp_type ` set chats \<subseteq> {chat_code CHAT_TEXT}"
  using join_first_leave_last [of "[''chat'', ''255.255.255.255'', ''55555'', ''Ivan'']" "\<lambda>a. a = ''255.255.255.255''" 7
    "[SelectReady None (Some (Some ''hi'')), SelectFailed]"] by simp

text \<open>A datagram that is shorter than a packet is not rejected: a chat message without its text is shown with
  the text that an earlier packet left on the stack.\<close>
theorem short_datagram_shows_old_text:
  assumes "no_nul nick" "length nick \<le> 31" "is_int32 pid" "other \<noteq> pid" "length junk = CHAT_PACKET_SIZE"
  shows "handle_incoming_packet other (Some (take 40 (chat_packet pid CHAT_TEXT nick None))) junk
    = Some (Said nick (cstr (take 511 (cp_text junk))))"
proof -
  let ?d = "take 40 (chat_packet pid CHAT_TEXT nick None)"
  have d: "length ?d = 40" "take CHAT_PACKET_SIZE ?d = ?d" by (simp_all add: chat_sizes)
  have f: "cp_type (?d @ z) = chat_code CHAT_TEXT" "cp_pid (?d @ z) = pid"
    "cstr (take 31 (cp_nickname (?d @ z))) = nick" for z
    using assms(1-3) strncpy_field_shown [of nick 31]
    by (simp_all add: cp_type_def cp_pid_def cp_nickname_def chat_packet_def chat_sizes dec_enc_int32 is_int32_def)
  have "cp_text (?d @ drop 40 junk) = cp_text junk" using assms(5) by (simp add: cp_text_def chat_sizes)
  with d f assms(4) show ?thesis
    by (simp add: handle_incoming_packet_def Let_def NICK_LEN_def TEXT_LEN_def del: chat_code.simps)
qed

theorem short_datagram_shows_old_text_witness:
  "handle_incoming_packet 200 (Some (take 40 (chat_packet 100 CHAT_TEXT ''bob'' None))) (chat_packet 300 CHAT_TEXT ''ann'' (Some ''secret''))
    = Some (Said ''bob'' ''secret'')"
proof -
  have "cstr (take 511 (cp_text (chat_packet 300 CHAT_TEXT ''ann'' (Some ''secret'')))) = ''secret''"
    using chat_packet_shown [of "''ann''" "''secret''" 300 CHAT_TEXT] by simp
  with short_datagram_shows_old_text [of "''bob''" 100 200 "chat_packet 300 CHAT_TEXT ''ann'' (Some ''secret'')"]
  show ?thesis by (simp add: is_int32_def)
qed

end
