(* ===== verification/KernelIO.thy ===== *)
theory KernelIO
  imports CScan Mem
begin

text \<open>
  What the kernel modules of \<^verbatim>\<open>module5\<close> share: error numbers, \<open>simple_read_from_buffer\<close>, the
  textual form of addresses (\<open>%pI4\<close>), and the contract of a file that is read sequentially. A
  reader who calls \<open>read\<close> until it returns nothing gets the whole content, however it chooses the
  sizes; this is proved once, in \<open>seq_reader\<close>, and each module's \<open>read\<close> that keeps the contract
  interprets it.
\<close>

datatype errno = EINVAL | ENOMEM | EFAULT | EBUSY | ENODEV | ERegister

text \<open>A read: the bytes and the new position, or an error.\<close>

type_synonym read_fun = "nat \<Rightarrow> nat \<Rightarrow> errno + byte list \<times> nat"

definition simple_read_from_buffer :: "nat \<Rightarrow> nat \<Rightarrow> byte list \<Rightarrow> byte list \<times> nat" where
  "simple_read_from_buffer count pos content =
     (if length content \<le> pos \<or> count = 0 then ([], pos)
      else let n = min count (length content - pos) in (take n (drop pos content), pos + n))"

text \<open>\<open>%pI4\<close>: the four bytes of an address in memory order, in decimal.\<close>

definition pI4 :: "nat \<Rightarrow> string" where
  "pI4 ip = dec_nat (ip mod 256) @ ''.'' @ dec_nat (ip div 256 mod 256) @ ''.''
     @ dec_nat (ip div 256 ^ 2 mod 256) @ ''.'' @ dec_nat (ip div 256 ^ 3 mod 256)"

text \<open>A program that reads with the given sizes until it gets nothing or an error.\<close>

fun reads :: "read_fun \<Rightarrow> nat \<Rightarrow> nat list \<Rightarrow> byte list" where
  "reads rd pos [] = []"
| "reads rd pos (n # ns) =
     (case rd n pos of
        Inl _ \<Rightarrow> []
      | Inr (bs, pos') \<Rightarrow> if bs = [] then [] else bs @ reads rd pos' ns)"

locale seq_reader =
  fixes rd :: read_fun
    and content :: "byte list"
  assumes rd_inside: "pos < length content \<Longrightarrow> 0 < n \<Longrightarrow>
      \<exists>k. 0 < k \<and> k \<le> n \<and> pos + k \<le> length content \<and> (k = n \<or> pos + k = length content)
        \<and> rd n pos = Inr (take k (drop pos content), pos + k)"
    and rd_end: "\<exists>p. rd n (length content) = Inr ([], p)"
begin

lemma reads_from:
  "pos \<le> length content \<Longrightarrow> \<forall>n \<in> set ns. 0 < n \<Longrightarrow> reads rd pos ns = take (sum_list ns) (drop pos content)"
proof (induction ns arbitrary: pos)
  case Nil
  then show ?case by simp
next
  case (Cons n ns)
  show ?case
  proof (cases "pos = length content")
    case True
    with rd_end [of n] show ?thesis by auto
  next
    case False
    then obtain k where k: "0 < k" "k \<le> n" "pos + k \<le> length content" "k = n \<or> pos + k = length content"
      "rd n pos = Inr (take k (drop pos content), pos + k)"
      using rd_inside [of pos n] Cons.prems by auto
    then have "reads rd pos (n # ns) = take k (drop pos content) @ reads rd (pos + k) ns"
      by auto
    also have "\<dots> = take k (drop pos content) @ take (sum_list ns) (drop (pos + k) content)"
      using Cons.IH [of "pos + k"] Cons.prems k(3) by simp
    also have "\<dots> = take (n + sum_list ns) (drop pos content)"
    proof (cases "k = n")
      case True
      then show ?thesis by (simp add: take_add add.commute)
    next
      case False
      then have "pos + k = length content" using k(4) by simp
      then show ?thesis using k(2) by simp
    qed
    finally show ?thesis by simp
  qed
qed

text \<open>Enough reads, of any sizes, return the whole content.\<close>

lemma reads_all:
  "\<forall>n \<in> set ns. 0 < n \<Longrightarrow> length content \<le> sum_list ns \<Longrightarrow> reads rd 0 ns = content"
  using reads_from [of 0 ns] by simp

end

lemma length_pI4: "length (pI4 ip) \<le> 15"
proof -
  have "length (dec_nat (n mod 256)) \<le> 3" for n
  proof (rule length_dec_nat)
    have "n mod 256 < 256" by simp
    then show "n mod 256 < 10 ^ 3" by simp
  qed simp
  from this [of ip] this [of "ip div 256"] this [of "ip div 256 ^ 2"] this [of "ip div 256 ^ 3"]
  show ?thesis by (simp add: pI4_def)
qed

end
