(* ===== verification/Sniffer.thy ===== *)
theory Sniffer
  imports RawEchoProofs UdpChat KernelIO
begin

text \<open>
  The UDP sniffer of \<^verbatim>\<open>module3/task08\<close>: parsing a frame (\<^verbatim>\<open>packet_processor.c\<close>), the filters
  (\<^verbatim>\<open>filter.c\<close>), what is printed, the capture loop and \<open>main\<close> with the promiscuous mode
  (\<^verbatim>\<open>sniffer.c\<close>, \<^verbatim>\<open>main.c\<close>). A frame lies at the start of a buffer with older bytes behind it;
  an access outside the buffer is \<open>None\<close>. The packets of the chat are those of \<^verbatim>\<open>UdpChat\<close>, IP and
  UDP headers those of the raw echo.
\<close>

section \<open>Parsing\<close>

definition ETH_P_IP :: nat where "ETH_P_IP = 0x0800"
definition ETH_P_VLAN :: nat where "ETH_P_VLAN = 0x8100"
definition IP_HDR :: nat where "IP_HDR = 20"

text \<open>The payload is a pointer into the buffer: an offset, or none for \<open>NULL\<close>.\<close>

record parsed_packet =
  src_mac :: "byte list"
  dest_mac :: "byte list"
  src_ip :: nat
  dest_ip :: nat
  src_port :: nat
  dest_port :: nat
  payload :: "nat option"
  payload_len :: int

text \<open>The link layer: where the IP header starts, and the two MAC addresses; no result for another protocol.\<close>

definition link_layer :: "mem \<Rightarrow> nat \<Rightarrow> (nat \<times> byte list \<times> byte list) option option" where
  "link_layer buffer packet_size = do {
     eth_proto \<leftarrow> u16_at buffer 12;
     if eth_proto = ETH_P_IP then do {
       s \<leftarrow> load buffer 6 6; d \<leftarrow> load buffer 0 6; Some (Some (14, s, d)) }
     else if eth_proto = ETH_P_VLAN then
       if packet_size < 18 then Some None
       else do {
         inner \<leftarrow> u16_at buffer 16;
         if inner \<noteq> ETH_P_IP then Some None
         else do { s \<leftarrow> load buffer 6 6; d \<leftarrow> load buffer 0 6; Some (Some (18, s, d)) } }
     else do {
       b \<leftarrow> byte_at buffer 0;
       if b div 16 = 4 then Some (Some (0, replicate 6 NUL, replicate 6 NUL)) else Some None } }"

definition parse_udp_packet :: "mem \<Rightarrow> nat \<Rightarrow> parsed_packet option option" where
  "parse_udp_packet buffer packet_size =
     (if packet_size < 14 then Some None
      else do {
        l2 \<leftarrow> link_layer buffer packet_size;
        case l2 of
          None \<Rightarrow> Some None
        | Some (ip_offset, s, d) \<Rightarrow>
            if packet_size < ip_offset + IP_HDR then Some None
            else do {
              protocol \<leftarrow> byte_at buffer (ip_offset + 9);
              if protocol \<noteq> IPPROTO_UDP then Some None
              else do {
                b \<leftarrow> byte_at buffer ip_offset;
                let udp_offset = ip_offset + b mod 16 * 4;
                if packet_size < udp_offset + UDP_HDR then Some None
                else do {
                  saddr \<leftarrow> u32_at buffer (ip_offset + 12);
                  daddr \<leftarrow> u32_at buffer (ip_offset + 16);
                  source \<leftarrow> u16_at buffer udp_offset;
                  dest \<leftarrow> u16_at buffer (udp_offset + 2);
                  len \<leftarrow> u16_at buffer (udp_offset + 4);
                  let payload_offset = udp_offset + UDP_HDR;
                  let n = int len - int UDP_HDR;
                  let there = (0 < n \<and> int payload_offset + n \<le> int packet_size);
                  Some (Some \<lparr>src_mac = s, dest_mac = d, src_ip = saddr, dest_ip = daddr,
                    src_port = source, dest_port = dest,
                    payload = (if there then Some payload_offset else None),
                    payload_len = (if there then n else 0)\<rparr>) } } } })"

section \<open>Filters\<close>

definition filter_chat_task6 :: "parsed_packet \<Rightarrow> int \<Rightarrow> bool" where
  "filter_chat_task6 pkt chat_port \<longleftrightarrow> int (src_port pkt) = chat_port \<or> int (dest_port pkt) = chat_port"

definition filter_dns :: "parsed_packet \<Rightarrow> bool" where
  "filter_dns pkt \<longleftrightarrow> src_port pkt = 53 \<or> dest_port pkt = 53"

section \<open>Printing\<close>

definition hex_digit :: "nat \<Rightarrow> char" where
  "hex_digit n = (if n < 10 then char_of (48 + n) else char_of (87 + n))"

text \<open>\<open>%02x\<close>\<close>

definition hex2 :: "byte \<Rightarrow> string" where
  "hex2 c = [hex_digit (of_char c div 16), hex_digit (of_char c mod 16)]"

definition format_mac :: "byte list \<Rightarrow> string" where
  "format_mac mac = hex2 (mac ! 0) @ '':'' @ hex2 (mac ! 1) @ '':'' @ hex2 (mac ! 2) @ '':''
     @ hex2 (mac ! 3) @ '':'' @ hex2 (mac ! 4) @ '':'' @ hex2 (mac ! 5)"

text \<open>\<open>inet_ntoa\<close> prints as the kernel's \<open>%pI4\<close> does. Bytes from 128 on are negative as a \<open>char\<close>.\<close>

definition out_char :: "byte \<Rightarrow> char" where
  "out_char c =
     (let n = (of_char c :: nat) in
      if 32 \<le> n \<and> n \<le> 126 then c
      else if c = CHR 0x0A \<or> c = CHR 0x0D \<or> c = CHR 0x09 then CHR '' '' else CHR ''.'')"

fun hex_lines :: "nat \<Rightarrow> byte list \<Rightarrow> string" where
  "hex_lines i [] = []"
| "hex_lines i (b # bs) =
     hex2 b @ '' '' @ (if (i + 1) mod 16 = 0 \<and> bs \<noteq> [] then CHR 0x0A # replicate 9 (CHR '' '') else [])
     @ hex_lines (i + 1) bs"

definition print_payload :: "byte list \<Rightarrow> string" where
  "print_payload p = ''Payload ('' @ fmt_d (int (length p)) @ '' bytes):'' @ [CHR 0x0A] @ ''  ASCII: ''
     @ map out_char p @ [CHR 0x0A] @ ''  HEX:   '' @ hex_lines 0 p @ [CHR 0x0A]"

text \<open>The string of \<open>%s\<close> at an address: it goes on to the first NUL, which has to come inside the buffer.\<close>

definition cstring_at :: "mem \<Rightarrow> nat \<Rightarrow> string option" where
  "cstring_at m a = (if NUL \<in> set (drop a m) then Some (cstr (drop a m)) else None)"

datatype log_line =
    Time string | Mac string string | Ip string string | Udp nat nat
  | ChatEvent int string | ChatType "chat_msg option" | ChatText string | Payload string | EmptyPayload

definition event_type :: "int \<Rightarrow> chat_msg option" where
  "event_type t = (if t = 1 then Some CHAT_JOIN else if t = 2 then Some CHAT_TEXT else if t = 3 then Some CHAT_LEAVE else None)"

text \<open>What goes to the screen and to the log file.\<close>

definition process_and_log_packet :: "mem \<Rightarrow> parsed_packet \<Rightarrow> string \<Rightarrow> int \<Rightarrow> log_line list option" where
  "process_and_log_packet buffer pkt elapsed choice = do {
     let head = [Time elapsed, Mac (format_mac (src_mac pkt)) (format_mac (dest_mac pkt)),
                 Ip (pI4 (src_ip pkt)) (pI4 (dest_ip pkt)), Udp (src_port pkt) (dest_port pkt)];
     if choice = 1 \<and> payload_len pkt = int CHAT_PACKET_SIZE then do {
       chat \<leftarrow> payload pkt;
       pid \<leftarrow> load_int buffer (chat + 4);
       nickname \<leftarrow> cstring_at buffer (chat + 8);
       t \<leftarrow> load_int buffer chat;
       if t = chat_code CHAT_TEXT then do {
         content \<leftarrow> cstring_at buffer (chat + 40);
         Some (head @ [ChatEvent pid nickname, ChatType (event_type t), ChatText content]) }
       else Some (head @ [ChatEvent pid nickname, ChatType (event_type t)]) }
     else case payload pkt of
         Some a \<Rightarrow> if 0 < payload_len pkt then do { p \<leftarrow> load buffer a (nat (payload_len pkt)); Some (head @ [Payload (print_payload p)]) }
                   else Some (head @ [EmptyPayload])
       | None \<Rightarrow> Some (head @ [EmptyPayload]) }"

section \<open>The capture\<close>

text \<open>\<open>prompt_filter_choice\<close>: -1 for anything but 1 and 2, and the input that is left.\<close>

definition prompt_filter_choice :: "string \<Rightarrow> int \<times> string" where
  "prompt_filter_choice inp =
     (case scan_d inp of
        None \<Rightarrow> (-1, inp)
      | Some (choice, r) \<Rightarrow> if choice \<noteq> 1 \<and> choice \<noteq> 2 then (-1, r) else (choice, r))"

text \<open>What \<open>recv\<close> gives: a frame at a time since the start, or a failure, after which SIGINT may have come.\<close>

datatype capture = Frame "byte list" string | RecvFailed bool

text \<open>One frame: the lines logged for it.\<close>

definition capture_frame :: "mem \<Rightarrow> nat \<Rightarrow> string \<Rightarrow> int \<Rightarrow> int \<Rightarrow> log_line list option" where
  "capture_frame buffer packet_size elapsed choice chat_port = do {
     parsed \<leftarrow> parse_udp_packet buffer packet_size;
     case parsed of
       None \<Rightarrow> Some []
     | Some pkt \<Rightarrow>
         if (choice = 1 \<and> filter_chat_task6 pkt chat_port) \<or> (choice = 2 \<and> filter_dns pkt)
         then process_and_log_packet buffer pkt elapsed choice else Some [] }"

text \<open>The loop; the list ends when \<open>keep_running\<close> is 0 at the test.\<close>

fun run_sniffer_loop :: "int \<Rightarrow> int \<Rightarrow> mem \<Rightarrow> capture list \<Rightarrow> log_line list option" where
  "run_sniffer_loop choice chat_port buffer [] = Some []"
| "run_sniffer_loop choice chat_port buffer (RecvFailed stopped # cs) =
     (if stopped then Some [] else run_sniffer_loop choice chat_port buffer cs)"
| "run_sniffer_loop choice chat_port buffer (Frame f elapsed # cs) = do {
     let buffer = recv_into buffer f;
     out \<leftarrow> capture_frame buffer (min BUFFER_SIZE (length f)) elapsed choice chat_port;
     rest \<leftarrow> run_sniffer_loop choice chat_port buffer cs;
     Some (out @ rest) }"

section \<open>Socket and main\<close>

datatype sock_op = OpenSock | BindSock | Promisc bool | CloseSock | OpenLog | CloseLog

record sniffer_env =
  sock_ok :: bool
  if_nametoindex :: "string \<Rightarrow> nat"
  bind_ok :: bool
  setsockopt_ok :: "bool \<Rightarrow> bool"
  fopen_ok :: bool

definition IFNAMSIZ :: nat where "IFNAMSIZ = 16"

text \<open>The result (0 stands for the descriptor) and what was done.\<close>

definition init_raw_socket :: "sniffer_env \<Rightarrow> string \<Rightarrow> int \<times> sock_op list" where
  "init_raw_socket env device =
     (if \<not> sock_ok env then (-1, [])
      else if if_nametoindex env device = 0 then (-2, [OpenSock, CloseSock])
      else if \<not> bind_ok env then (-3, [OpenSock, CloseSock])
      else (0, [OpenSock, BindSock]))"

definition set_promisc_mode :: "sniffer_env \<Rightarrow> string \<Rightarrow> bool \<Rightarrow> int \<times> sock_op list" where
  "set_promisc_mode env device enable =
     (if if_nametoindex env device = 0 then (-1, [])
      else if \<not> setsockopt_ok env enable then (-2, [])
      else (0, [Promisc enable]))"

text \<open>
  \<open>main\<close>: the exit code, what was done to the socket and the log file, and the lines logged. The
  name of the device is cut to 15 characters (\<open>global_device\<close> is zeroed); the input of both prompts
  is one string. The result is \<open>None\<close> when the capture accesses memory outside a buffer.
\<close>

definition sniffer_main ::
  "sniffer_env \<Rightarrow> string list \<Rightarrow> string \<Rightarrow> mem \<Rightarrow> capture list \<Rightarrow> (int \<times> sock_op list \<times> log_line list) option" where
  "sniffer_main env argv inp buffer cs =
     (if length argv < 2 then Some (1, [], [])
      else
        let device = take (IFNAMSIZ - 1) (cstr (argv ! 1)); (sock, ops) = init_raw_socket env device in
        if sock < 0 then Some (1, ops, [])
        else
          let ops = ops @ snd (set_promisc_mode env device True);
              finish = snd (set_promisc_mode env device False) @ [CloseSock];
              (choice, inp) = prompt_filter_choice inp in
          if choice < 0 then Some (1, ops @ finish, [])
          else
            case (if choice = 1 then map_option fst (scan_d inp) else Some 0) of
              None \<Rightarrow> Some (1, ops @ finish, [])
            | Some chat_port \<Rightarrow>
                if choice = 1 \<and> (chat_port \<le> 0 \<or> 65535 < chat_port) then Some (1, ops @ finish, [])
                else map_option (\<lambda>out.
                    (0, ops @ (if fopen_ok env then [OpenLog] else []) @ finish @ (if fopen_ok env then [CloseLog] else []), out))
                  (run_sniffer_loop choice chat_port buffer cs))"

end
