(* ===== verification/SnifferProofs.thy ===== *)
theory SnifferProofs
  imports Sniffer
begin

text \<open>
  The sniffer reads only the bytes of a frame, takes well-formed frames apart correctly, shows the
  messages of the chat, prints payloads without loss, and leaves the promiscuous mode on every exit.
\<close>

section \<open>Reading inside a frame\<close>

lemma load_cut: "a + n \<le> length f \<Longrightarrow> load (f @ j) a n = load f a n"
  by (simp add: load_def)

lemma byte_at_cut: "a < length f \<Longrightarrow> byte_at (f @ j) a = byte_at f a"
  using load_cut [of a 1 f j] by (simp add: byte_at_def del: load_prefix)

lemma u16_at_cut: "a + 2 \<le> length f \<Longrightarrow> u16_at (f @ j) a = u16_at f a"
  unfolding u16_at_def by (simp only: load_cut)

lemma u32_at_cut: "a + 4 \<le> length f \<Longrightarrow> u32_at (f @ j) a = u32_at f a"
  unfolding u32_at_def by (simp only: load_cut)

lemma byte_at_Some: "a < length f \<Longrightarrow> \<exists>b. byte_at f a = Some b"
  by (simp add: byte_at_def load_def)

lemma u16_at_Some: "a + 2 \<le> length f \<Longrightarrow> \<exists>b. u16_at f a = Some b"
  by (simp add: u16_at_def load_def)

lemma u32_at_Some: "a + 4 \<le> length f \<Longrightarrow> \<exists>b. u32_at f a = Some b"
  by (simp add: u32_at_def load_def)

lemma load_Some: "a + n \<le> length f \<Longrightarrow> \<exists>b. load f a n = Some b"
  by (simp add: load_def)

lemma link_layer_safe:
  assumes "14 \<le> length f"
  shows "link_layer (f @ j) (length f) = link_layer f (length f) \<and> (\<exists>r. link_layer f (length f) = Some r
    \<and> (case r of None \<Rightarrow> True | Some (i, _) \<Rightarrow> i \<le> 18))"
proof -
  obtain e where e: "u16_at f 12 = Some e" using u16_at_Some [of 12 f] assms by auto
  obtain b where b: "byte_at f 0 = Some b" using byte_at_Some [of 0 f] assms by fastforce
  have cut: "u16_at (f @ j) 12 = u16_at f 12" "byte_at (f @ j) 0 = byte_at f 0"
    "load (f @ j) 6 6 = load f 6 6" "load (f @ j) 0 6 = load f 0 6"
    using assms u16_at_cut [of 12 f j] byte_at_cut [of 0 f j] load_cut [of 6 6 f j] load_cut [of 0 6 f j] by linarith+
  have mac: "load f 6 6 = Some (take 6 (drop 6 f))" "load f 0 6 = Some (take 6 f)"
    using assms by (simp_all add: load_def)
  show ?thesis
  proof (cases "e = ETH_P_VLAN \<and> 18 \<le> length f")
    case True
    then obtain i where i: "u16_at f 16 = Some i" using u16_at_Some [of 16 f] by auto
    have "u16_at (f @ j) 16 = u16_at f 16" using True by (intro u16_at_cut) simp
    with True i show ?thesis by (simp add: link_layer_def e cut mac)
  next
    case False
    then show ?thesis by (auto simp: link_layer_def e b cut mac)
  qed
qed

lemma parse_safe:
  "\<exists>r. parse_udp_packet f (length f) = Some r \<and> parse_udp_packet (f @ junk) (length f) = Some r
    \<and> (case r of None \<Rightarrow> True
       | Some pkt \<Rightarrow> (case payload pkt of None \<Rightarrow> payload_len pkt = 0
           | Some a \<Rightarrow> 0 < payload_len pkt \<and> int a + payload_len pkt \<le> int (length f)))"
proof (cases "length f < 14")
  case True
  then show ?thesis by (simp add: parse_udp_packet_def)
next
  case False
  then obtain r where r: "link_layer f (length f) = Some r" and cut: "link_layer (f @ junk) (length f) = Some r"
    using link_layer_safe [of f junk] by auto
  show ?thesis
  proof (cases r)
    case None
    with False r cut show ?thesis by (simp add: parse_udp_packet_def)
  next
    case (Some l2)
    obtain i s d where l2: "l2 = (i, s, d)" by (cases l2)
    show ?thesis
    proof (cases "length f < i + IP_HDR")
      case True
      with False r cut Some l2 show ?thesis by (simp add: parse_udp_packet_def)
    next
      case fits: False
      then have "i + 20 \<le> length f" by (simp add: IP_HDR_def)
      then obtain p b sa da where ip: "byte_at f (i + 9) = Some p" "byte_at f i = Some b"
          "u32_at f (i + 12) = Some sa" "u32_at f (i + 16) = Some da"
        and ipj: "byte_at (f @ junk) (i + 9) = Some p" "byte_at (f @ junk) i = Some b"
          "u32_at (f @ junk) (i + 12) = Some sa" "u32_at (f @ junk) (i + 16) = Some da"
        using byte_at_Some [of "i + 9" f] byte_at_Some [of i f] u32_at_Some [of "i + 12" f] u32_at_Some [of "i + 16" f]
        by (auto simp: byte_at_cut u32_at_cut)
      let ?u = "i + b mod 16 * 4"
      show ?thesis
      proof (cases "length f < ?u + UDP_HDR")
        case True
        with False r cut Some l2 fits ip(1,2) ipj(1,2) show ?thesis by (simp add: parse_udp_packet_def Let_def)
      next
        case udp: False
        then have "?u + 8 \<le> length f" by (simp add: UDP_HDR_def)
        then obtain sp dp n where u: "u16_at f ?u = Some sp" "u16_at f (?u + 2) = Some dp" "u16_at f (?u + 4) = Some n"
          and uj: "u16_at (f @ junk) ?u = Some sp" "u16_at (f @ junk) (?u + 2) = Some dp" "u16_at (f @ junk) (?u + 4) = Some n"
          using u16_at_Some [of ?u f] u16_at_Some [of "?u + 2" f] u16_at_Some [of "?u + 4" f]
          by (auto simp: u16_at_cut simp del: add_2_eq_Suc')
        from False r cut Some l2 fits ip ipj udp u uj show ?thesis
          by (simp add: parse_udp_packet_def Let_def del: add_2_eq_Suc')
      qed
    qed
  qed
qed

text \<open>C31: Parsing looks at nothing but the bytes of the frame: it never accesses memory outside it, older bytes
  behind it do not matter, and the payload it reports lies inside the frame.\<close>
theorem parse_stays_in_frame:
  "\<exists>r. parse_udp_packet f (length f) = Some r \<and> parse_udp_packet (f @ junk) (length f) = Some r
    \<and> (case r of None \<Rightarrow> True
       | Some pkt \<Rightarrow> (case payload pkt of None \<Rightarrow> payload_len pkt = 0
           | Some a \<Rightarrow> 0 < payload_len pkt \<and> int a + payload_len pkt \<le> int (length f)))"
  by (rule parse_safe)

text \<open>With the DNS filter no sequence of frames makes the sniffer access memory outside its buffer.\<close>
theorem dns_capture_safe: "run_sniffer_loop 2 chat_port buffer cs \<noteq> None"
proof (induction cs arbitrary: buffer)
  case (Cons e cs)
  show ?case
  proof (cases e)
    case (Frame f t)
    let ?f = "take BUFFER_SIZE f"
    have buf: "recv_into buffer f = ?f @ drop (length ?f) buffer" and n: "min BUFFER_SIZE (length f) = length ?f"
      by (simp_all add: recv_into_def Let_def)
    obtain r where r: "parse_udp_packet (?f @ drop (length ?f) buffer) (length ?f) = Some r"
      and inside: "case r of None \<Rightarrow> True
       | Some pkt \<Rightarrow> (case payload pkt of None \<Rightarrow> payload_len pkt = 0
           | Some a \<Rightarrow> 0 < payload_len pkt \<and> int a + payload_len pkt \<le> int (length ?f))"
      using parse_safe [of ?f "drop (length ?f) buffer"] by blast
    have "\<exists>out. capture_frame (recv_into buffer f) (min BUFFER_SIZE (length f)) t 2 chat_port = Some out"
    proof (cases r)
      case (Some pkt)
      have "\<exists>out. process_and_log_packet (?f @ drop (length ?f) buffer) pkt t 2 = Some out"
      proof (cases "payload pkt")
        case None
        then show ?thesis by (simp add: process_and_log_packet_def Let_def)
      next
        case a: (Some a)
        with inside Some have "0 < payload_len pkt" "int a + payload_len pkt \<le> int (length ?f)" by simp_all
        then have "a + nat (payload_len pkt) \<le> length ?f" by linarith
        then have "a + nat (payload_len pkt) \<le> length (?f @ drop (length ?f) buffer)"
          unfolding length_append by (rule trans_le_add1)
        then have "\<exists>p. load (?f @ drop (length ?f) buffer) a (nat (payload_len pkt)) = Some p" by (rule load_Some)
        with a show ?thesis by (auto simp: process_and_log_packet_def Let_def)
      qed
      with r Some show ?thesis by (simp add: capture_frame_def buf n)
    qed (use r in \<open>simp add: capture_frame_def buf n\<close>)
    then obtain out where "capture_frame (recv_into buffer f) (min BUFFER_SIZE (length f)) t 2 chat_port = Some out" by blast
    moreover obtain rest where "run_sniffer_loop 2 chat_port (recv_into buffer f) cs = Some rest" using Cons.IH by blast
    ultimately show ?thesis using Frame by simp
  qed (use Cons.IH in simp)
qed simp

section \<open>Well-formed frames\<close>

text \<open>The link header: Ethernet, with or without an 802.1Q tag.\<close>

definition eth_header :: "byte list \<Rightarrow> byte list \<Rightarrow> nat option \<Rightarrow> byte list" where
  "eth_header dmac smac vlan =
     dmac @ smac @ (case vlan of None \<Rightarrow> [] | Some tag \<Rightarrow> htons ETH_P_VLAN @ htons tag) @ htons ETH_P_IP"

lemma length_eth_header:
  "length d = 6 \<Longrightarrow> length s = 6 \<Longrightarrow> length (eth_header d s v) = (case v of None \<Rightarrow> 14 | Some _ \<Rightarrow> 18)"
  by (simp add: eth_header_def htons_def split: option.split)

lemma link_layer_eth:
  assumes "length d = 6" "length s = 6" "length (eth_header d s v) \<le> n"
  shows "link_layer (eth_header d s v @ r) n = Some (Some (length (eth_header d s v), s, d))"
  using assms
  by (cases v) (simp_all add: link_layer_def eth_header_def u16_at_def load_def htons_def ntohs_def dec_enc_be
      ETH_P_IP_def ETH_P_VLAN_def)

lemma at_skip:
  "byte_at (xs @ ys) (length xs + a) = byte_at ys a"
  "u16_at (xs @ ys) (length xs + a) = u16_at ys a"
  "u32_at (xs @ ys) (length xs + a) = u32_at ys a"
  by (simp_all add: byte_at_def u16_at_def u32_at_def)

lemma header_first_byte:
  assumes "ip_header hdr src dst"
  shows "\<exists>b. byte_at (hdr @ r) 0 = Some b \<and> b mod 16 * 4 = length hdr"
  using header_fields(1) [OF assms, of r] by (auto simp: ip_hdr_len_def)

definition udp_frame ::
  "byte list \<Rightarrow> byte list \<Rightarrow> nat option \<Rightarrow> byte list \<Rightarrow> nat \<Rightarrow> nat \<Rightarrow> nat \<Rightarrow> byte list \<Rightarrow> byte list" where
  "udp_frame d s v hdr sp dp c p = eth_header d s v @ hdr @ udp_header sp dp (UDP_HDR + length p) c @ p"

text \<open>What the sniffer should find in such a frame.\<close>

definition frame_info ::
  "byte list \<Rightarrow> byte list \<Rightarrow> nat option \<Rightarrow> byte list \<Rightarrow> nat \<Rightarrow> nat \<Rightarrow> nat \<Rightarrow> nat \<Rightarrow> byte list \<Rightarrow> parsed_packet" where
  "frame_info d s v hdr src dst sp dp p =
     \<lparr>src_mac = s, dest_mac = d, src_ip = src, dest_ip = dst, src_port = sp, dest_port = dp,
      payload = (if p = [] then None else Some (length (eth_header d s v @ hdr) + UDP_HDR)),
      payload_len = int (length p)\<rparr>"

lemma parse_frame:
  assumes "length d = 6" "length s = 6" "ip_header hdr src dst" "sp < 65536" "dp < 65536"
    "UDP_HDR + length p < 65536" "length (udp_frame d s v hdr sp dp c p) \<le> n"
  shows "parse_udp_packet (udp_frame d s v hdr sp dp c p @ r) n = Some (Some (frame_info d s v hdr src dst sp dp p))"
proof -
  let ?e = "eth_header d s v" and ?rest = "hdr @ udp_header sp dp (UDP_HDR + length p) c @ p @ r"
  have m: "udp_frame d s v hdr sp dp c p @ r = ?e @ ?rest" by (simp add: udp_frame_def)
  have n: "length ?e + length hdr + UDP_HDR + length p \<le> n" using assms(7) by (simp add: udp_frame_def)
  have hdr: "20 \<le> length hdr" using assms(3) by (simp add: ip_header_def)
  obtain b where b: "byte_at ?rest 0 = Some b" "b mod 16 * 4 = length hdr"
    using header_first_byte [OF assms(3)] by blast
  have e: "14 \<le> length ?e" using length_eth_header [OF assms(1,2), of v] by (cases v) simp_all
  have link: "link_layer (?e @ ?rest) n = Some (Some (length ?e, s, d))"
    using n by (intro link_layer_eth [OF assms(1,2)]) simp
  have b0: "byte_at (?e @ ?rest) (length ?e) = Some b" using at_skip(1) [of ?e ?rest 0] b(1) by simp
  have u: "u16_at (?e @ ?rest) (length ?e + length hdr) = Some sp"
    "u16_at (?e @ ?rest) (length ?e + length hdr + 2) = Some dp"
    "u16_at (?e @ ?rest) (length ?e + length hdr + 4) = Some (UDP_HDR + length p)"
    using udp_fields [OF assms(4-6), of hdr] by (simp_all add: at_skip add.assoc del: add_2_eq_Suc')
  show ?thesis
    unfolding m parse_udp_packet_def
    using n hdr e
    by (simp add: link b0 b(2) at_skip(1,3) header_fields [OF assms(3)] u [unfolded add.assoc] u frame_info_def IP_HDR_def
        del: add_2_eq_Suc')
qed

text \<open>Of every Ethernet frame with or without a VLAN tag, any IP options and any padding behind it, the sniffer
  finds the addresses, the ports and the payload.\<close>
theorem frame_taken_apart:
  assumes "length d = 6" "length s = 6" "ip_header hdr src dst" "sp < 65536" "dp < 65536" "UDP_HDR + length p < 65536"
  shows "\<exists>pkt. parse_udp_packet (udp_frame d s v hdr sp dp c p @ pad) (length (udp_frame d s v hdr sp dp c p @ pad)) = Some (Some pkt)
    \<and> src_mac pkt = s \<and> dest_mac pkt = d \<and> src_ip pkt = src \<and> dest_ip pkt = dst \<and> src_port pkt = sp \<and> dest_port pkt = dp
    \<and> payload_len pkt = int (length p)
    \<and> (case payload pkt of None \<Rightarrow> p = [] | Some a \<Rightarrow> load (udp_frame d s v hdr sp dp c p @ pad) a (length p) = Some p)"
proof -
  have "load (udp_frame d s v hdr sp dp c p @ pad) (length (eth_header d s v @ hdr) + UDP_HDR) (length p) = Some p"
    using load_skip0 [of "eth_header d s v @ hdr @ udp_header sp dp (UDP_HDR + length p) c" "p @ pad" "length p"]
    by (simp add: udp_frame_def add.assoc)
  then show ?thesis
    using parse_frame [OF assms, of v c "length (udp_frame d s v hdr sp dp c p @ pad)" pad] by (simp add: frame_info_def)
qed

theorem frame_taken_apart_witness:
  "\<exists>pkt. parse_udp_packet (udp_frame ''abcdef'' ''ghijkl'' (Some 5) (example_header 1 2) 5000 53 0 ''hi'' @ ''xx'')
      (length (udp_frame ''abcdef'' ''ghijkl'' (Some 5) (example_header 1 2) 5000 53 0 ''hi'' @ ''xx'')) = Some (Some pkt)
    \<and> src_mac pkt = ''ghijkl'' \<and> dest_mac pkt = ''abcdef'' \<and> src_ip pkt = 1 \<and> dest_ip pkt = 2 \<and> src_port pkt = 5000 \<and> dest_port pkt = 53
    \<and> payload_len pkt = int (length ''hi'')
    \<and> (case payload pkt of None \<Rightarrow> ''hi'' = [] | Some a \<Rightarrow>
        load (udp_frame ''abcdef'' ''ghijkl'' (Some 5) (example_header 1 2) 5000 53 0 ''hi'' @ ''xx'') a (length ''hi'') = Some ''hi'')"
  by (rule frame_taken_apart [OF _ _ example_header_ok]) (simp_all add: UDP_HDR_def)

text \<open>A frame of another protocol whose destination starts with the half byte 4 and whose sender's fourth byte
  is 17 is read as an IP packet without link header.\<close>

text \<open>Frames of protocols other than IPv4 are not always ignored: one to a MAC address that starts with 44, from
  one whose fourth byte is 17, is taken for a UDP packet and its link header for an IP header.\<close>
theorem other_protocols_misread:
  assumes "u16_at f 12 = Some proto" "proto \<noteq> ETH_P_IP" "proto \<noteq> ETH_P_VLAN"
    "byte_at f 0 = Some 0x44" "byte_at f 9 = Some IPPROTO_UDP" "24 \<le> length f"
  shows "\<exists>pkt. parse_udp_packet f (length f) = Some (Some pkt) \<and> src_mac pkt = replicate 6 NUL
    \<and> u16_at f 16 = Some (src_port pkt) \<and> u16_at f 18 = Some (dest_port pkt)"
proof -
  obtain sa da sp dp n where u: "u32_at f 12 = Some sa" "u32_at f 16 = Some da" "u16_at f 16 = Some sp"
    "u16_at f 18 = Some dp" "u16_at f 20 = Some n"
    using assms(6) u32_at_Some [of 12 f] u32_at_Some [of 16 f] u16_at_Some [of 16 f] u16_at_Some [of 18 f] u16_at_Some [of 20 f]
    by auto
  with assms show ?thesis
    by (simp add: parse_udp_packet_def link_layer_def IP_HDR_def UDP_HDR_def Let_def)
qed

definition arp_frame :: "byte list" where
  "arp_frame = char_of (68::nat) # replicate 5 NUL @ replicate 3 NUL @ [char_of IPPROTO_UDP] @ replicate 2 NUL @ htons 0x0806 @ replicate 28 NUL"

theorem other_protocols_misread_witness:
  "\<exists>pkt. parse_udp_packet arp_frame (length arp_frame) = Some (Some pkt) \<and> src_mac pkt = replicate 6 NUL
    \<and> u16_at arp_frame 16 = Some (src_port pkt) \<and> u16_at arp_frame 18 = Some (dest_port pkt)"
proof -
  have "u16_at arp_frame 12 = Some 0x0806" "byte_at arp_frame 0 = Some 0x44" "byte_at arp_frame 9 = Some IPPROTO_UDP"
    "24 \<le> length arp_frame"
    by (simp_all add: arp_frame_def u16_at_def byte_at_def load_def htons_def ntohs_def dec_enc_be IPPROTO_UDP_def)
  then show ?thesis
    using other_protocols_misread [of arp_frame] by (simp add: ETH_P_IP_def ETH_P_VLAN_def)
qed

section \<open>The messages of the chat\<close>

lemma cstring_at_field: "NUL \<in> set x \<Longrightarrow> cstring_at (xs @ x @ y) (length xs) = Some (cstr x)"
  by (simp add: cstring_at_def cstr_append)

lemma chat_in_buffer:
  assumes "length p = CHAT_PACKET_SIZE"
  shows "load_int (xs @ p @ y) (length xs) = Some (cp_type p)"
    and "load_int (xs @ p @ y) (length xs + 4) = Some (cp_pid p)"
    and "NUL \<in> set (cp_text p) \<Longrightarrow> cstring_at (xs @ p @ y) (length xs + 8) =
        Some (if NUL \<in> set (cp_nickname p) then cstr (cp_nickname p) else cp_nickname p @ cstr (cp_text p))"
    and "NUL \<in> set (cp_text p) \<Longrightarrow> cstring_at (xs @ p @ y) (length xs + 40) = Some (cstr (cp_text p))"
proof -
  show "load_int (xs @ p @ y) (length xs) = Some (cp_type p)"
    "load_int (xs @ p @ y) (length xs + 4) = Some (cp_pid p)"
    using assms by (simp_all add: load_int_def cp_type_def cp_pid_def chat_sizes)
  have "drop 8 p = cp_nickname p @ drop 40 p"
    using append_take_drop_id [of 32 "drop 8 p"] by (simp add: cp_nickname_def chat_sizes)
  moreover have rest: "drop 40 p = cp_text p" using assms by (simp add: cp_text_def chat_sizes)
  ultimately have d: "drop (length xs + 8) (xs @ p @ y) = cp_nickname p @ cp_text p @ y"
    "drop (length xs + 40) (xs @ p @ y) = cp_text p @ y"
    using assms by (simp_all add: chat_sizes)
  assume "NUL \<in> set (cp_text p)"
  then show "cstring_at (xs @ p @ y) (length xs + 8) =
      Some (if NUL \<in> set (cp_nickname p) then cstr (cp_nickname p) else cp_nickname p @ cstr (cp_text p))"
    "cstring_at (xs @ p @ y) (length xs + 40) = Some (cstr (cp_text p))"
    unfolding cstring_at_def d by (simp_all add: cstr_append)
qed

lemma log_chat:
  assumes "length p = CHAT_PACKET_SIZE" "NUL \<in> set (cp_text p)" "cp_type p = chat_code CHAT_TEXT"
    and "payload pkt = Some (length xs)" "payload_len pkt = int (length p)"
  shows "process_and_log_packet (xs @ p @ y) pkt t 1 =
    Some [Time t, Mac (format_mac (src_mac pkt)) (format_mac (dest_mac pkt)), Ip (pI4 (src_ip pkt)) (pI4 (dest_ip pkt)),
      Udp (src_port pkt) (dest_port pkt),
      ChatEvent (cp_pid p) (if NUL \<in> set (cp_nickname p) then cstr (cp_nickname p) else cp_nickname p @ cstr (cp_text p)),
      ChatType (Some CHAT_TEXT), ChatText (cstr (cp_text p))]"
  unfolding process_and_log_packet_def assms(4,5)
  using assms(3) by (simp add: chat_in_buffer [OF assms(1)] assms(1,2) event_type_def)

text \<open>A frame with a packet of the chat to or from its port.\<close>

lemma chat_frame_logged:
  assumes f: "length d = 6" "length s = 6" "ip_header hdr src dst" "sp < 65536" "port < 65536"
    and p: "length p = CHAT_PACKET_SIZE" "NUL \<in> set (cp_text p)" "cp_type p = chat_code CHAT_TEXT"
  shows "run_sniffer_loop 1 (int port) buf [Frame (udp_frame d s v hdr sp port c p) t] =
    Some [Time t, Mac (format_mac s) (format_mac d), Ip (pI4 src) (pI4 dst), Udp sp port,
      ChatEvent (cp_pid p) (if NUL \<in> set (cp_nickname p) then cstr (cp_nickname p) else cp_nickname p @ cstr (cp_text p)),
      ChatType (Some CHAT_TEXT), ChatText (cstr (cp_text p))]"
proof -
  let ?f = "udp_frame d s v hdr sp port c p" and ?pre = "eth_header d s v @ hdr @ udp_header sp port (UDP_HDR + length p) c"
  have len: "UDP_HDR + length p < 65536" using p(1) by (simp add: UDP_HDR_def chat_sizes)
  have "length (eth_header d s v) \<le> 18" using length_eth_header [OF f(1,2), of v] by (cases v) simp_all
  then have "length ?f \<le> BUFFER_SIZE"
    using ihl_bound [OF f(3)] p(1) by (simp add: udp_frame_def BUFFER_SIZE_def UDP_HDR_def chat_sizes)
  then have buf: "recv_into buf ?f = ?f @ drop (length ?f) buf" and n: "min BUFFER_SIZE (length ?f) = length ?f"
    by (simp_all add: recv_into_append)
  let ?y = "drop (length ?f) buf" and ?pkt = "frame_info d s v hdr src dst sp port p"
  have parsed: "parse_udp_packet (?f @ ?y) (length ?f) = Some (Some ?pkt)"
    by (rule parse_frame [OF f len order.refl])
  have "payload ?pkt = Some (length ?pre)" "payload_len ?pkt = int (length p)"
    using p(1) by (auto simp: frame_info_def chat_sizes)
  then have log: "process_and_log_packet (?pre @ p @ ?y) ?pkt t 1 =
    Some [Time t, Mac (format_mac s) (format_mac d), Ip (pI4 src) (pI4 dst), Udp sp port,
      ChatEvent (cp_pid p) (if NUL \<in> set (cp_nickname p) then cstr (cp_nickname p) else cp_nickname p @ cstr (cp_text p)),
      ChatType (Some CHAT_TEXT), ChatText (cstr (cp_text p))]"
    by (subst log_chat [OF p]) (simp_all add: frame_info_def)
  have m: "?f @ ?y = ?pre @ p @ ?y" by (simp add: udp_frame_def)
  have "filter_chat_task6 ?pkt (int port)" by (simp add: filter_chat_task6_def frame_info_def)
  then have cap: "capture_frame (?f @ ?y) (length ?f) t 1 (int port) = process_and_log_packet (?f @ ?y) ?pkt t 1"
    by (simp add: capture_frame_def parsed)
  show ?thesis
    unfolding run_sniffer_loop.simps Let_def buf n cap log [folded m] by simp
qed

lemma strncpy_field_NUL: "NUL \<in> set (strncpy_field (Suc n) n s)"
  by (simp add: strncpy_field_def Let_def)

text \<open>C7: A line typed in the chat is intercepted: whatever link header and IP options the packet gets on its way to
  the chat's port, the sniffer reports the addresses and shows pid, nickname and text of the sender.\<close>
theorem sniffer_shows_chat:
  assumes "no_nul nick" "length nick \<le> 31" "no_nul s" "length s \<le> 510" "s \<noteq> []" "s \<noteq> ''exit''" "s \<noteq> ''quit''"
    and "is_int32 pid" "length dm = 6" "length sm = 6" "ip_header hdr src dst" "sp < 65536" "port < 65536"
  shows "\<exists>p. handle_user_input pid nick (Some (s @ [CHR 0x0A])) = (True, [Own s], [p])
    \<and> run_sniffer_loop 1 (int port) buf [Frame (udp_frame dm sm v hdr sp port c p) t] =
        Some [Time t, Mac (format_mac sm) (format_mac dm), Ip (pI4 src) (pI4 dst), Udp sp port,
          ChatEvent pid nick, ChatType (Some CHAT_TEXT), ChatText s]"
proof -
  let ?p = "chat_packet pid CHAT_TEXT nick (Some s)"
  have "cstr (s @ [CHR 0x0A]) = s @ [CHR 0x0A]" using assms(3) by (intro cstr_no_nul) (simp add: no_nul_def)
  then have "handle_user_input pid nick (Some (s @ [CHR 0x0A])) = (True, [Own s], [?p])"
    using assms(5-7) by (simp add: handle_user_input_def Let_def)
  moreover have "NUL \<in> set (cp_text ?p)" "NUL \<in> set (cp_nickname ?p)"
    using strncpy_field_NUL [of 511 s] strncpy_field_NUL [of 31 nick] by (simp_all add: chat_packet_fields)
  moreover have "cstr (cp_text ?p) = s" "cstr (cp_nickname ?p) = nick" "cp_pid ?p = pid"
    using assms(1-4,8) by (simp_all add: chat_packet_fields cstr_strncpy_field cstr_no_nul is_int32_def)
  ultimately show ?thesis
    using chat_frame_logged [OF assms(9-13), of ?p buf v c t] by (auto simp del: chat_code.simps)
qed

theorem sniffer_shows_chat_witness:
  "\<exists>p. handle_user_input 100 ''ann'' (Some (''hi'' @ [CHR 0x0A])) = (True, [Own ''hi''], [p])
    \<and> run_sniffer_loop 1 (int 55555) [] [Frame (udp_frame ''abcdef'' ''ghijkl'' None (example_header 1 2) 55555 55555 0 p) ''0.5''] =
        Some [Time ''0.5'', Mac (format_mac ''ghijkl'') (format_mac ''abcdef''), Ip (pI4 1) (pI4 2), Udp 55555 55555,
          ChatEvent 100 ''ann'', ChatType (Some CHAT_TEXT), ChatText ''hi'']"
  by (rule sniffer_shows_chat [OF _ _ _ _ _ _ _ _ _ _ example_header_ok]) (simp_all add: is_int32_def)

text \<open>The sniffer, unlike the chat, does not terminate the strings of a packet: a nickname that fills its field is
  shown together with the text, where the chat shows its first 31 characters.\<close>
theorem unterminated_nickname_runs_on:
  assumes "length p = CHAT_PACKET_SIZE" "no_nul (cp_nickname p)" "NUL \<in> set (cp_text p)" "cp_type p = chat_code CHAT_TEXT"
    and "length dm = 6" "length sm = 6" "ip_header hdr src dst" "sp < 65536" "port < 65536" "cp_pid p \<noteq> own"
  shows "(\<exists>out. run_sniffer_loop 1 (int port) buf [Frame (udp_frame dm sm v hdr sp port c p) t] = Some out
      \<and> ChatEvent (cp_pid p) (cp_nickname p @ cstr (cp_text p)) \<in> set out)
    \<and> (\<exists>x. handle_incoming_packet own (Some p) junk = Some (Said (take 31 (cp_nickname p)) x))"
proof
  show "\<exists>out. run_sniffer_loop 1 (int port) buf [Frame (udp_frame dm sm v hdr sp port c p) t] = Some out
      \<and> ChatEvent (cp_pid p) (cp_nickname p @ cstr (cp_text p)) \<in> set out"
    using chat_frame_logged [OF assms(5-9,1,3,4), of buf v c t] assms(2) by (auto simp: no_nul_def)
  have "take CHAT_PACKET_SIZE p @ z = p @ z" "cp_pid (p @ z) = cp_pid p" "cp_type (p @ z) = cp_type p"
    "cp_nickname (p @ z) = cp_nickname p" for z
    using assms(1) by (simp_all add: cp_pid_def cp_type_def cp_nickname_def chat_sizes)
  then show "\<exists>x. handle_incoming_packet own (Some p) junk = Some (Said (take 31 (cp_nickname p)) x)"
    using assms(1,2,4,10) by (simp add: handle_incoming_packet_def Let_def NICK_LEN_def cstr_no_nul del: chat_code.simps)
qed

theorem unterminated_nickname_runs_on_witness:
  "(\<exists>out. run_sniffer_loop 1 (int 7) [] [Frame (udp_frame ''abcdef'' ''ghijkl'' None (example_header 1 2) 7 7 0
        (enc_int32 2 @ enc_int32 9 @ replicate 32 CHR ''n'' @ replicate 512 NUL)) ''0.5''] = Some out
      \<and> ChatEvent (cp_pid (enc_int32 2 @ enc_int32 9 @ replicate 32 CHR ''n'' @ replicate 512 NUL))
          (cp_nickname (enc_int32 2 @ enc_int32 9 @ replicate 32 CHR ''n'' @ replicate 512 NUL)
           @ cstr (cp_text (enc_int32 2 @ enc_int32 9 @ replicate 32 CHR ''n'' @ replicate 512 NUL))) \<in> set out)
    \<and> (\<exists>x. handle_incoming_packet 8 (Some (enc_int32 2 @ enc_int32 9 @ replicate 32 CHR ''n'' @ replicate 512 NUL)) []
        = Some (Said (take 31 (cp_nickname (enc_int32 2 @ enc_int32 9 @ replicate 32 CHR ''n'' @ replicate 512 NUL))) x))"
  by (rule unterminated_nickname_runs_on [OF _ _ _ _ _ _ example_header_ok])
    (simp_all add: chat_sizes cp_nickname_def cp_text_def cp_type_def cp_pid_def dec_enc_int32 no_nul_def)

section \<open>The hex dump\<close>

text \<open>Reading a hex dump back: the hex digits, two by two.\<close>

definition hex_value :: "char \<Rightarrow> nat option" where
  "hex_value c = (if isdigit c then Some (digit_val c)
     else if 97 \<le> (of_char c :: nat) \<and> (of_char c :: nat) \<le> 102 then Some (of_char c - 87) else None)"

fun hex_pairs :: "nat list \<Rightarrow> byte list" where
  "hex_pairs (h # l # hs) = char_of (16 * h + l) # hex_pairs hs"
| "hex_pairs _ = []"

definition read_hex :: "string \<Rightarrow> byte list" where
  "read_hex s = hex_pairs (List.map_filter hex_value s)"

definition printable :: "char \<Rightarrow> bool" where
  "printable c \<longleftrightarrow> 32 \<le> (of_char c :: nat) \<and> (of_char c :: nat) \<le> 126"

lemma hex_value_digit: "n < 16 \<Longrightarrow> hex_value (hex_digit n) = Some n"
  by (auto simp: hex_value_def hex_digit_def isdigit_def digit_val_def)

lemma hex_value_hex2: "List.map_filter hex_value (hex2 c @ s) = [of_char c div 16, of_char c mod 16] @ List.map_filter hex_value s"
proof -
  have "(of_char c :: nat) div 16 < 16" using of_char_less [of c] by (simp add: less_mult_imp_div_less del: of_char_less)
  then show ?thesis by (simp add: hex2_def map_filter_simps hex_value_digit)
qed

lemma hex_value_blank [simp]: "hex_value (CHR '' '') = None" "hex_value (CHR 0x0A) = None"
  by (simp_all add: hex_value_def isdigit_def)

lemma hex_value_gap: "List.map_filter hex_value (replicate n (CHR '' '') @ s) = List.map_filter hex_value s"
  by (induction n) (simp_all add: map_filter_simps)

lemma read_hex_lines: "read_hex (hex_lines i bs) = bs"
proof (induction bs arbitrary: i)
  case (Cons b bs)
  have "List.map_filter hex_value (hex_lines i (b # bs)) = [of_char b div 16, of_char b mod 16] @ List.map_filter hex_value (hex_lines (i + 1) bs)"
    by (simp add: hex_value_hex2 map_filter_simps hex_value_gap del: replicate.simps)
  with Cons [of "i + 1"] show ?case by (simp add: read_hex_def)
qed (simp add: read_hex_def map_filter_simps)

lemma printable_out_char: "printable (out_char c)"
  by (auto simp: out_char_def printable_def Let_def)

text \<open>The dump of a payload has one printable character per byte, and its hexadecimal part loses nothing: read
  back, it gives the payload.\<close>
theorem payload_dump_lossless:
  "\<exists>ascii hex. print_payload p = ''Payload ('' @ fmt_d (int (length p)) @ '' bytes):'' @ [CHR 0x0A] @ ''  ASCII: '' @ ascii
      @ [CHR 0x0A] @ ''  HEX:   '' @ hex @ [CHR 0x0A]
    \<and> length ascii = length p \<and> list_all printable ascii \<and> read_hex hex = p"
proof (intro exI conjI)
  show "print_payload p = ''Payload ('' @ fmt_d (int (length p)) @ '' bytes):'' @ [CHR 0x0A] @ ''  ASCII: '' @ map out_char p
      @ [CHR 0x0A] @ ''  HEX:   '' @ hex_lines 0 p @ [CHR 0x0A]"
    by (simp only: print_payload_def)
  show "length (map out_char p) = length p" by simp
  show "list_all printable (map out_char p)" by (simp add: list_all_iff printable_out_char)
  show "read_hex (hex_lines 0 p) = p" by (rule read_hex_lines)
qed

section \<open>Leaving\<close>

text \<open>What is open after a sequence of operations: the socket, the promiscuous mode, the log file.\<close>

fun after_op :: "sock_op \<Rightarrow> bool \<times> bool \<times> bool \<Rightarrow> bool \<times> bool \<times> bool" where
  "after_op OpenSock (s, p, l) = (True, p, l)"
| "after_op BindSock x = x"
| "after_op (Promisc b) (s, p, l) = (s, b, l)"
| "after_op CloseSock (s, p, l) = (False, p, l)"
| "after_op OpenLog (s, p, l) = (s, p, True)"
| "after_op CloseLog (s, p, l) = (s, p, False)"

text \<open>However the sniffer ends, it has closed its socket and its log and, if the kernel lets it, has switched the
  promiscuous mode off before that.\<close>
theorem sniffer_cleans_up:
  assumes "sniffer_main env argv inp buffer cs = Some (code, ops, out)" "setsockopt_ok env False"
  shows "fold after_op ops (False, False, False) = (False, False, False)"
  using assms by (auto simp: sniffer_main_def init_raw_socket_def set_promisc_mode_def Let_def
      split: if_splits prod.splits option.splits)

theorem sniffer_cleans_up_witness:
  "fold after_op [OpenSock, BindSock, Promisc True, OpenLog, Promisc False, CloseSock, CloseLog] (False, False, False) = (False, False, False)"
  by (rule sniffer_cleans_up [of "\<lparr>sock_ok = True, if_nametoindex = (\<lambda>d. if d = ''eth0'' then 2 else 0), bind_ok = True,
      setsockopt_ok = (\<lambda>_. True), fopen_ok = True\<rparr>" "[''sniffer'', ''eth0'']" "''2''" "[]" "[]" 0 _ "[]"])
    (simp_all add: sniffer_main_def init_raw_socket_def set_promisc_mode_def prompt_filter_choice_def IFNAMSIZ_def cstr_def
      scan_d_def scan_int_def scan_digits_def isspace_def isdigit_def digit_val_def sat64_def)

end
