(* ===== verification/UdpRoom.thy ===== *)
theory UdpRoom
  imports UdpChat StepSystem
begin

text \<open>
  Any number of members of the UDP chat on one network. A member is a run of \<open>main\<close>: its pid, its nickname and
  what \<open>select\<close> has brought so far. The network may lose, repeat and reorder datagrams: a datagram received is any
  that some member has sent.
\<close>

section \<open>Members\<close>

record member =
  m_pid :: int
  m_nick :: string
  m_events :: "select_result list"

text \<open>Whether the loop of \<open>main\<close> has ended; what the member has sent and shown so far.\<close>

fun chat_ended :: "int \<Rightarrow> string \<Rightarrow> select_result list \<Rightarrow> bool" where
  "chat_ended pid nick [] = False"
| "chat_ended pid nick (SelectFailed # es) = True"
| "chat_ended pid nick (SelectReady sock key # es) =
     ((case key of None \<Rightarrow> False | Some line \<Rightarrow> \<not> fst (handle_user_input pid nick line)) \<or> chat_ended pid nick es)"

definition ended :: "member \<Rightarrow> bool" where
  "ended m = chat_ended (m_pid m) (m_nick m) (m_events m)"

definition packets :: "member \<Rightarrow> byte list list" where
  "packets m = chat_packet (m_pid m) CHAT_JOIN (m_nick m) None # fst (chat_loop (m_pid m) (m_nick m) (m_events m))
     @ (if ended m then [chat_packet (m_pid m) CHAT_LEAVE (m_nick m) None] else [])"

definition screen :: "member \<Rightarrow> chat_line list" where
  "screen m = snd (chat_loop (m_pid m) (m_nick m) (m_events m))"

text \<open>A member whose loop has ended is a finished run of \<open>main\<close>.\<close>

lemma member_is_main:
  assumes "length argv \<ge> 4" "ok (argv ! 1)" "m_nick m = argv ! 3" "ended m"
  shows "udp_chat_main argv ok (True, True) (m_pid m) (m_events m) = Inr (packets m, Prompt_only # screen m)"
  using assms by (simp add: udp_chat_main_def setup_broadcast_socket_def packets_def screen_def Let_def split: prod.split)

section \<open>The network\<close>

type_synonym lan = "member list"

text \<open>What \<open>select\<close> can bring a member: a datagram that somebody sent, a line that fits \<open>buffer\<close>.\<close>

definition possible :: "lan \<Rightarrow> select_result \<Rightarrow> bool" where
  "possible ms e \<longleftrightarrow>
     (case e of
        SelectFailed \<Rightarrow> True
      | SelectReady sock key \<Rightarrow>
          (case sock of Some (Some d, junk) \<Rightarrow> (\<exists>m \<in> set ms. d \<in> set (packets m)) | _ \<Rightarrow> True)
          \<and> (case key of Some (Some l) \<Rightarrow> length l < TEXT_LEN | _ \<Rightarrow> True))"

inductive lan_step :: "lan \<Rightarrow> lan \<Rightarrow> bool" where
  enter: "is_int32 pid \<Longrightarrow> no_nul nick \<Longrightarrow> lan_step ms (ms @ [\<lparr>m_pid = pid, m_nick = nick, m_events = []\<rparr>])"
| event: "i < length ms \<Longrightarrow> possible ms e \<Longrightarrow> lan_step ms (ms[i := (ms ! i)\<lparr>m_events := m_events (ms ! i) @ [e]\<rparr>])"

text \<open>Where a line on the screen of \<open>m\<close> comes from.\<close>

fun explained :: "lan \<Rightarrow> member \<Rightarrow> chat_line \<Rightarrow> bool" where
  "explained ms m (Said n t) = (\<exists>a \<in> set ms. m_pid a \<noteq> m_pid m \<and> n = take 31 (m_nick a) \<and> Own t \<in> set (screen a))"
| "explained ms m (Joined n p) = (\<exists>a \<in> set ms. m_pid a = p \<and> p \<noteq> m_pid m \<and> n = take 31 (m_nick a))"
| "explained ms m (Left n p) = (\<exists>a \<in> set ms. m_pid a = p \<and> p \<noteq> m_pid m \<and> n = take 31 (m_nick a) \<and> ended a)"
| "explained ms m _ = True"

definition honest :: "member \<Rightarrow> bool" where
  "honest m \<longleftrightarrow> is_int32 (m_pid m) \<and> no_nul (m_nick m)
     \<and> (\<forall>d \<in> set (fst (chat_loop (m_pid m) (m_nick m) (m_events m))).
          \<exists>b. d = chat_packet (m_pid m) CHAT_TEXT (m_nick m) (Some b) \<and> no_nul b \<and> length b < TEXT_LEN \<and> Own b \<in> set (screen m))"

definition lan_inv :: "lan \<Rightarrow> bool" where
  "lan_inv ms \<longleftrightarrow> (\<forall>m \<in> set ms. honest m \<and> (\<forall>l \<in> set (screen m). explained ms m l))"

section \<open>One more event\<close>

lemma chat_loop_snoc:
  "chat_loop pid nick (es @ [e]) =
     (if chat_ended pid nick es then chat_loop pid nick es
      else (fst (chat_loop pid nick es) @ fst (chat_loop pid nick [e]), snd (chat_loop pid nick es) @ snd (chat_loop pid nick [e])))"
  by (induction pid nick es rule: chat_loop.induct) (auto simp: Let_def split: prod.splits option.splits if_splits)

lemma chat_ended_snoc: "chat_ended pid nick es \<Longrightarrow> chat_ended pid nick (es @ [e])"
  by (induction pid nick es rule: chat_ended.induct) auto

text \<open>What a datagram of a member becomes on the screen of another.\<close>

lemma shown_text: "no_nul s \<Longrightarrow> cstr (take n (strncpy_field (Suc n) n s)) = take n s"
proof -
  assume "no_nul s"
  then have "take n (strncpy_field (Suc n) n s) = take n s @ replicate (n - length s) NUL"
    by (simp add: strncpy_field_def Let_def cstr_no_nul min_def)
  with \<open>no_nul s\<close> show ?thesis by (simp add: cstr_replicate_nul)
qed

lemma packet_shown:
  assumes "is_int32 pid" "no_nul nick" "no_nul (case c of Some s \<Rightarrow> s | None \<Rightarrow> [])"
  shows "handle_incoming_packet own (Some (chat_packet pid t nick c)) junk =
    (if pid = own then None
     else Some (case t of CHAT_JOIN \<Rightarrow> Joined (take 31 nick) pid
       | CHAT_TEXT \<Rightarrow> Said (take 31 nick) (take 511 (case c of Some s \<Rightarrow> s | None \<Rightarrow> []))
       | CHAT_LEAVE \<Rightarrow> Left (take 31 nick) pid))"
proof -
  have f: "cp_type (chat_packet pid t nick c @ z) = cp_type (chat_packet pid t nick c)" "cp_pid (chat_packet pid t nick c @ z) = cp_pid (chat_packet pid t nick c)"
    "cp_nickname (chat_packet pid t nick c @ z) = cp_nickname (chat_packet pid t nick c)"
    "cp_text (chat_packet pid t nick c @ z) = cp_text (chat_packet pid t nick c)" for t z
    by (simp_all add: cp_type_def cp_pid_def cp_nickname_def cp_text_def chat_sizes)
  have "to_int32 pid = pid" using assms(1) by (simp add: is_int32_def)
  then show ?thesis
    using shown_text [OF assms(2), of 31] shown_text [OF assms(3), of 511]
    by (cases t) (simp_all add: handle_incoming_packet_def Let_def f NICK_LEN_def TEXT_LEN_def chat_packet_fields
      del: chat_code.simps)
qed

lemma input_sent:
  assumes "handle_user_input pid nick line = (on, own, sent)" "d \<in> set sent" "\<And>l. line = Some l \<Longrightarrow> length l < TEXT_LEN"
  shows "\<exists>b. d = chat_packet pid CHAT_TEXT nick (Some b) \<and> no_nul b \<and> length b < TEXT_LEN \<and> Own b \<in> set own"
proof -
  obtain l where l: "line = Some l" using assms(1,2) by (cases line) (auto simp: handle_user_input_def)
  define b where "b = (if cstr l \<noteq> [] \<and> last (cstr l) = CHR 0x0A then butlast (cstr l) else cstr l)"
  have "length b \<le> length (cstr l)" "length (cstr l) \<le> length l" by (simp_all add: b_def cstr_def length_takeWhile_le)
  moreover have "no_nul b" using no_nul_cstr [of l] by (auto simp: b_def no_nul_def dest: in_set_butlastD)
  moreover have "sent = [chat_packet pid CHAT_TEXT nick (Some b)] \<and> own = [Own b]"
    using assms(1,2) unfolding handle_user_input_def l b_def Let_def by (auto split: if_splits)
  ultimately show ?thesis using assms(2) assms(3) [OF l] by auto
qed

lemma input_shown: "handle_user_input pid nick line = (on, own, sent) \<Longrightarrow> l \<in> set own \<Longrightarrow> l = Prompt_only \<or> (\<exists>b. l = Own b)"
  by (auto simp: handle_user_input_def Let_def split: option.splits if_splits)

lemma event_sent:
  assumes "possible ms e" "d \<in> set (fst (chat_loop pid nick [e]))"
  shows "\<exists>b. d = chat_packet pid CHAT_TEXT nick (Some b) \<and> no_nul b \<and> length b < TEXT_LEN
    \<and> Own b \<in> set (snd (chat_loop pid nick [e]))"
proof (cases e)
  case (SelectReady sock key)
  with assms(2) obtain line where key: "key = Some line" by (cases key) (auto simp: Let_def)
  obtain on own sent where h: "handle_user_input pid nick line = (on, own, sent)" by (metis prod_cases3)
  have "d \<in> set sent" using assms(2) SelectReady key h by (auto simp: Let_def split: if_splits)
  moreover have "length l < TEXT_LEN" if "line = Some l" for l using assms(1) SelectReady key that by (simp add: possible_def)
  ultimately obtain b where "d = chat_packet pid CHAT_TEXT nick (Some b)" "no_nul b" "length b < TEXT_LEN" "Own b \<in> set own"
    using input_sent [OF h] by blast
  then show ?thesis using SelectReady key h by (auto simp: Let_def)
qed (use assms in simp)

lemma member_packets:
  assumes "honest a" "d \<in> set (packets a)"
  obtains "d = chat_packet (m_pid a) CHAT_JOIN (m_nick a) None"
  | b where "d = chat_packet (m_pid a) CHAT_TEXT (m_nick a) (Some b)" "no_nul b" "length b < TEXT_LEN" "Own b \<in> set (screen a)"
  | "d = chat_packet (m_pid a) CHAT_LEAVE (m_nick a) None" "ended a"
  using assms by (auto simp: packets_def honest_def split: if_splits)

lemma incoming_explained:
  assumes "lan_inv ms" "a \<in> set ms" "d \<in> set (packets a)" "handle_incoming_packet (m_pid m) (Some d) junk = Some l"
  shows "explained ms m l"
proof -
  have a: "honest a" "is_int32 (m_pid a)" "no_nul (m_nick a)" using assms(1,2) by (auto simp: lan_inv_def honest_def)
  note shown = packet_shown [OF a(2,3)]
  show ?thesis using a(1) assms(3)
  proof (cases rule: member_packets)
    case 1
    with assms(2,4) shown [of None] show ?thesis by (auto split: if_splits)
  next
    case (2 b)
    then have "l = Said (take 31 (m_nick a)) b" "m_pid a \<noteq> m_pid m"
      using assms(4) shown [of "Some b"] by (auto simp: TEXT_LEN_def split: if_splits)
    with assms(2) 2(4) show ?thesis by auto
  next
    case 3
    with assms(2,4) shown [of None] show ?thesis by (auto split: if_splits)
  qed
qed

lemma event_shown:
  assumes "lan_inv ms" "possible ms e" "l \<in> set (snd (chat_loop (m_pid m) (m_nick m) [e]))"
  shows "explained ms m l"
proof (cases e)
  case (SelectReady sock key)
  let ?shown = "case sock of None \<Rightarrow> [] | Some (d, junk) \<Rightarrow> (case handle_incoming_packet (m_pid m) d junk of None \<Rightarrow> [] | Some l \<Rightarrow> [l])"
  let ?key = "case key of None \<Rightarrow> (True, [], []) | Some line \<Rightarrow> handle_user_input (m_pid m) (m_nick m) line"
  obtain on own sent where h: "?key = (on, own, sent)" by (metis prod_cases3)
  have "l \<in> set ?shown \<or> l \<in> set own" using assms(3) SelectReady h by (auto simp: Let_def split: if_splits)
  then show ?thesis
  proof
    assume "l \<in> set ?shown"
    then obtain d junk where s: "sock = Some (d, junk)" "handle_incoming_packet (m_pid m) d junk = Some l"
      by (auto split: option.splits)
    then obtain p where p: "d = Some p" by (cases d) (auto simp: handle_incoming_packet_def)
    with assms(2) SelectReady s obtain a where "a \<in> set ms" "p \<in> set (packets a)" by (auto simp: possible_def)
    with s p assms(1) show ?thesis by (auto intro: incoming_explained)
  next
    assume "l \<in> set own"
    then have "l = Prompt_only \<or> (\<exists>b. l = Own b)" using h input_shown by (auto split: option.splits)
    then show ?thesis by auto
  qed
qed (use assms in simp)

section \<open>The invariant\<close>

text \<open>Nothing that explains a line ever goes away.\<close>

definition grows :: "member \<Rightarrow> member \<Rightarrow> bool" where
  "grows a b \<longleftrightarrow> m_pid b = m_pid a \<and> m_nick b = m_nick a \<and> set (screen a) \<subseteq> set (screen b) \<and> (ended a \<longrightarrow> ended b)"

lemma explained_mono:
  assumes "explained ms m l" "\<And>a. a \<in> set ms \<Longrightarrow> \<exists>b \<in> set ms'. grows a b" "m_pid m' = m_pid m"
  shows "explained ms' m' l"
proof (cases l)
  case (Said n t)
  with assms(1) obtain a where a: "a \<in> set ms" "m_pid a \<noteq> m_pid m" "n = take 31 (m_nick a)" "Own t \<in> set (screen a)" by auto
  with assms(2) obtain b where "b \<in> set ms'" "grows a b" by blast
  with a Said assms(3) show ?thesis by (auto simp: grows_def intro!: bexI [of _ b])
next
  case (Joined n p)
  with assms(1) obtain a where a: "a \<in> set ms" "m_pid a = p" "p \<noteq> m_pid m" "n = take 31 (m_nick a)" by auto
  with assms(2) obtain b where "b \<in> set ms'" "grows a b" by blast
  with a Joined assms(3) show ?thesis by (auto simp: grows_def intro!: bexI [of _ b])
next
  case (Left n p)
  with assms(1) obtain a where a: "a \<in> set ms" "m_pid a = p" "p \<noteq> m_pid m" "n = take 31 (m_nick a)" "ended a" by auto
  with assms(2) obtain b where "b \<in> set ms'" "grows a b" by blast
  with a Left assms(3) show ?thesis by (auto simp: grows_def intro!: bexI [of _ b])
qed simp_all

lemma grows_refl: "grows a a"
  by (simp add: grows_def)

abbreviation one_more :: "member \<Rightarrow> select_result \<Rightarrow> member" where
  "one_more m e \<equiv> m\<lparr>m_events := m_events m @ [e]\<rparr>"

lemma one_more_grows: "grows m (one_more m e)"
  by (auto simp: grows_def screen_def ended_def chat_loop_snoc chat_ended_snoc)

lemma one_more_screen:
  "l \<in> set (screen (one_more m e)) \<Longrightarrow> l \<in> set (screen m) \<or> l \<in> set (snd (chat_loop (m_pid m) (m_nick m) [e]))"
  by (auto simp: screen_def chat_loop_snoc split: if_splits)

lemma one_more_honest:
  assumes "honest m" "possible ms e"
  shows "honest (one_more m e)"
proof -
  have "\<exists>b. d = chat_packet (m_pid m) CHAT_TEXT (m_nick m) (Some b) \<and> no_nul b \<and> length b < TEXT_LEN
      \<and> Own b \<in> set (screen (one_more m e))"
    if "d \<in> set (fst (chat_loop (m_pid m) (m_nick m) (m_events m @ [e])))" for d
  proof (cases "d \<in> set (fst (chat_loop (m_pid m) (m_nick m) (m_events m)))")
    case True
    with assms(1) one_more_grows [of m e] show ?thesis unfolding honest_def grows_def by blast
  next
    case False
    with that have "d \<in> set (fst (chat_loop (m_pid m) (m_nick m) [e]))" and "\<not> chat_ended (m_pid m) (m_nick m) (m_events m)"
      by (auto simp: chat_loop_snoc split: if_splits)
    with event_sent [OF assms(2) this(1)] show ?thesis by (auto simp: screen_def chat_loop_snoc)
  qed
  with assms(1) show ?thesis by (simp add: honest_def)
qed

lemma lan_step_inv: "lan_step ms ms' \<Longrightarrow> lan_inv ms \<Longrightarrow> lan_inv ms'"
proof (induction rule: lan_step.induct)
  case (enter pid nick ms)
  let ?m = "\<lparr>m_pid = pid, m_nick = nick, m_events = []\<rparr>"
  have "explained (ms @ [?m]) m l" if "m \<in> set ms" "l \<in> set (screen m)" for m l
  proof (rule explained_mono [OF _ _ refl])
    show "explained ms m l" using enter.prems that by (simp add: lan_inv_def)
    show "\<exists>b \<in> set (ms @ [?m]). grows a b" if "a \<in> set ms" for a using that grows_refl by auto
  qed
  then show ?case using enter by (auto simp: lan_inv_def honest_def screen_def)
next
  case (event i ms e)
  let ?m = "one_more (ms ! i) e" and ?ms = "ms[i := one_more (ms ! i) e]"
  have grow: "\<exists>b \<in> set ?ms. grows a b" if a: "a \<in> set ms" for a
  proof -
    from a obtain j where "j < length ms" "a = ms ! j" by (metis in_set_conv_nth)
    then have "grows a (?ms ! j)" using one_more_grows [of "ms ! i" e] grows_refl by (cases "j = i") simp_all
    moreover have "?ms ! j \<in> set ?ms" using \<open>j < length ms\<close> by (intro nth_mem) simp
    ultimately show ?thesis by blast
  qed
  have old: "honest m" "\<And>l. l \<in> set (screen m) \<Longrightarrow> explained ?ms m l" if "m \<in> set ms" for m
    using event.prems that explained_mono [of ms m _ ?ms m] grow by (simp_all add: lan_inv_def)
  have i: "ms ! i \<in> set ms" using event.hyps(1) by simp
  have "explained ?ms ?m l" if "l \<in> set (screen ?m)" for l
    using one_more_screen [OF that]
  proof
    assume "l \<in> set (screen (ms ! i))"
    then show ?thesis
      using grows_refl by (intro explained_mono [of ?ms "ms ! i" l, OF old(2) [OF i]]) auto
  next
    assume "l \<in> set (snd (chat_loop (m_pid (ms ! i)) (m_nick (ms ! i)) [e]))"
    with event_shown [OF event.prems event.hyps(2)] have "explained ms (ms ! i) l" by blast
    then show ?thesis by (rule explained_mono) (simp_all add: grow)
  qed
  moreover have "honest ?m" by (rule one_more_honest [OF old(1) [OF i] event.hyps(2)])
  ultimately show ?case using old set_update_subset_insert [of ms i ?m] by (auto simp: lan_inv_def)
qed

interpretation lan: step_system lan_step "\<lambda>ms. ms = []" lan_inv
  by unfold_locales (simp add: lan_inv_def, rule lan_step_inv)

lemma lan_explains: "lan_step\<^sup>*\<^sup>* [] ms \<Longrightarrow> m \<in> set ms \<Longrightarrow> l \<in> set (screen m) \<Longrightarrow> explained ms m l"
  using lan.inv_reachable [OF refl, of ms] by (auto simp: lan_inv_def)

section \<open>Properties\<close>

text \<open>C14: However the network loses, repeats and reorders datagrams, and whatever the members do, no line on a screen is
  made up: a message was typed by a member with another pid, whose own screen shows it, under the first 31 characters
  of its nickname; who is said to have come or gone has that pid and that nickname, and who is said to have gone has
  ended.\<close>
theorem lan_lines_are_genuine:
  assumes "lan_step\<^sup>*\<^sup>* [] ms" "m \<in> set ms" "l \<in> set (screen m)"
  shows "explained ms m l"
  using assms by (rule lan_explains)

text \<open>Ann comes and types a line, Bob receives it.\<close>

definition ann :: member where
  "ann = \<lparr>m_pid = 100, m_nick = ''ann'', m_events = [SelectReady None (Some (Some (''hi'' @ [CHR 0x0A])))]\<rparr>"

definition bob :: member where
  "bob = \<lparr>m_pid = 200, m_nick = ''bob'',
     m_events = [SelectReady (Some (Some (chat_packet 100 CHAT_TEXT ''ann'' (Some ''hi'')), [])) None]\<rparr>"

lemma ann_types: "handle_user_input 100 ''ann'' (Some (''hi'' @ [CHR 0x0A])) = (True, [Own ''hi''], [chat_packet 100 CHAT_TEXT ''ann'' (Some ''hi'')])"
  by (simp add: handle_user_input_def cstr_def Let_def)

lemma ann_and_bob: "lan_step\<^sup>*\<^sup>* [] [ann, bob]"
proof -
  let ?a = "\<lparr>m_pid = 100, m_nick = ''ann'', m_events = []\<rparr>" and ?b = "\<lparr>m_pid = 200, m_nick = ''bob'', m_events = []\<rparr>"
  have "lan_step [] [?a]" "lan_step [?a] [?a, ?b]"
    using lan_step.enter [of 100 "''ann''" "[]"] lan_step.enter [of 200 "''bob''" "[?a]"] by (simp_all add: is_int32_def)
  moreover have "lan_step [?a, ?b] [ann, ?b]"
    using lan_step.event [of 0 "[?a, ?b]" "SelectReady None (Some (Some (''hi'' @ [CHR 0x0A])))"]
    by (simp add: possible_def TEXT_LEN_def ann_def)
  moreover have "chat_packet 100 CHAT_TEXT ''ann'' (Some ''hi'') \<in> set (packets ann)"
    using ann_types by (simp add: packets_def ann_def Let_def)
  then have "lan_step [ann, ?b] [ann, bob]"
    using lan_step.event [of 1 "[ann, ?b]" "SelectReady (Some (Some (chat_packet 100 CHAT_TEXT ''ann'' (Some ''hi'')), [])) None"]
    by (simp add: possible_def bob_def)
  ultimately show ?thesis by (meson rtranclp.rtrancl_refl rtranclp.rtrancl_into_rtrancl)
qed

lemma bob_reads: "Said ''ann'' ''hi'' \<in> set (screen bob)"
  using packet_shown [of 100 "''ann''" "Some ''hi''" 200 CHAT_TEXT "[]"]
  by (simp add: screen_def bob_def Let_def is_int32_def)

theorem lan_lines_are_genuine_witness: "explained [ann, bob] bob (Said ''ann'' ''hi'')"
  by (rule lan_lines_are_genuine [OF ann_and_bob _ bob_reads]) simp

text \<open>The test for the own pid, which is to drop a member's own datagrams, drops those of every process with that pid,
  also on other hosts: a member among members with its pid never sees anybody, however long they chat.\<close>
theorem equal_pids_never_meet:
  assumes "lan_step\<^sup>*\<^sup>* [] ms" "m \<in> set ms" "m_pid ` set ms = {m_pid m}" "l \<in> set (screen m)"
  shows "l = Prompt_only \<or> (\<exists>b. l = Own b)"
proof -
  have "m_pid a = m_pid m" if "a \<in> set ms" for a using assms(3) that by blast
  with lan_explains [OF assms(1,2,4)] show ?thesis by (cases l) auto
qed

text \<open>Ann and a member of another host with the same pid.\<close>

definition cid :: member where
  "cid = \<lparr>m_pid = 100, m_nick = ''cid'', m_events = [SelectReady (Some (Some (chat_packet 100 CHAT_TEXT ''ann'' (Some ''hi'')), []))
     (Some (Some (''ho'' @ [CHR 0x0A])))]\<rparr>"

lemma ann_and_cid: "lan_step\<^sup>*\<^sup>* [] [ann, cid]"
proof -
  let ?a = "\<lparr>m_pid = 100, m_nick = ''ann'', m_events = []\<rparr>" and ?c = "\<lparr>m_pid = 100, m_nick = ''cid'', m_events = []\<rparr>"
  have "lan_step [] [?a]" "lan_step [?a] [?a, ?c]"
    using lan_step.enter [of 100 "''ann''" "[]"] lan_step.enter [of 100 "''cid''" "[?a]"] by (simp_all add: is_int32_def)
  moreover have "lan_step [?a, ?c] [ann, ?c]"
    using lan_step.event [of 0 "[?a, ?c]" "SelectReady None (Some (Some (''hi'' @ [CHR 0x0A])))"]
    by (simp add: possible_def TEXT_LEN_def ann_def)
  moreover have "chat_packet 100 CHAT_TEXT ''ann'' (Some ''hi'') \<in> set (packets ann)"
    using ann_types by (simp add: packets_def ann_def Let_def)
  then have "lan_step [ann, ?c] [ann, cid]"
    using lan_step.event [of 1 "[ann, ?c]" "SelectReady (Some (Some (chat_packet 100 CHAT_TEXT ''ann'' (Some ''hi'')), []))
      (Some (Some (''ho'' @ [CHR 0x0A])))"]
    by (simp add: possible_def cid_def TEXT_LEN_def)
  ultimately show ?thesis by (meson rtranclp.rtrancl_refl rtranclp.rtrancl_into_rtrancl)
qed

lemma cid_types: "Own ''ho'' \<in> set (screen cid)"
  by (auto simp: screen_def cid_def handle_user_input_def cstr_def Let_def)

theorem equal_pids_never_meet_witness: "Own ''ho'' = Prompt_only \<or> (\<exists>b. Own ''ho'' = Own b)"
  by (rule equal_pids_never_meet [OF ann_and_cid _ _ cid_types]) (simp_all add: ann_def cid_def)

end
