(* ===== verification/Taxi.thy ===== *)
theory Taxi
  imports CScan Registry
begin

text \<open>
  The taxi dispatcher of \<^verbatim>\<open>module3/task10\<close>: drivers (\<^verbatim>\<open>driver.c\<close>) are processes with a kernel
  timer that take tasks and answer questions, the server (\<^verbatim>\<open>server.c\<close>) turns the commands of a
  terminal into messages and shows the answers. Each driver has two FIFOs. Times are nanoseconds;
  \<open>cap\<close> is the number of messages a FIFO can hold, beyond which the kernel refuses a write.
\<close>

section \<open>Messages\<close>

text \<open>\<open>Unknown_type\<close> stands for the values from \<open>MSG_COUNT\<close> on.\<close>

datatype msg_type = MSG_TASK | MSG_STATUS_REQ | MSG_STATUS_RSP | MSG_ACK | MSG_BUSY | Unknown_type

record ipc_msg =
  m_type :: msg_type
  m_payload :: int
  m_driver_pid :: int

section \<open>Driver\<close>

definition SECOND :: nat where "SECOND = 1000000000"

text \<open>The remaining time of the timer as whole seconds and the rest, as \<open>timerfd_gettime\<close> gives it.\<close>

definition check_timer_state :: "nat \<Rightarrow> bool \<times> int" where
  "check_timer_state rem =
     (let tv_sec = rem div SECOND; tv_nsec = rem mod SECOND in
      (0 < tv_sec \<or> 0 < tv_nsec, to_int32 (int tv_sec + (if 0 < tv_nsec then 1 else 0))))"

text \<open>\<open>timerfd_settime\<close>: a negative time is refused, 0 disarms the timer.\<close>

definition timerfd_settime :: "int \<Rightarrow> nat \<Rightarrow> nat" where
  "timerfd_settime tv_sec rem = (if tv_sec < 0 then rem else nat tv_sec * SECOND)"

definition handle_task_cmd :: "int \<Rightarrow> nat \<Rightarrow> ipc_msg \<Rightarrow> nat \<times> ipc_msg" where
  "handle_task_cmd pid rem msg =
     (let (is_busy, rem_time) = check_timer_state rem in
      if is_busy then (rem, \<lparr>m_type = MSG_BUSY, m_payload = rem_time, m_driver_pid = pid\<rparr>)
      else (timerfd_settime (m_payload msg) rem, \<lparr>m_type = MSG_ACK, m_payload = 0, m_driver_pid = pid\<rparr>))"

definition handle_status_req_cmd :: "int \<Rightarrow> nat \<Rightarrow> ipc_msg \<Rightarrow> nat \<times> ipc_msg" where
  "handle_status_req_cmd pid rem msg =
     (let (is_busy, rem_time) = check_timer_state rem in
      (rem, \<lparr>m_type = MSG_STATUS_RSP, m_payload = (if is_busy then rem_time else 0), m_driver_pid = pid\<rparr>))"

text \<open>The dispatch table.\<close>

fun driver_handlers :: "msg_type \<Rightarrow> (int \<Rightarrow> nat \<Rightarrow> ipc_msg \<Rightarrow> nat \<times> ipc_msg) option" where
  "driver_handlers MSG_TASK = Some handle_task_cmd"
| "driver_handlers MSG_STATUS_REQ = Some handle_status_req_cmd"
| "driver_handlers _ = None"

definition driver_message :: "int \<Rightarrow> nat \<Rightarrow> ipc_msg \<Rightarrow> nat \<times> ipc_msg list" where
  "driver_message pid rem msg =
     (case driver_handlers (m_type msg) of
        None \<Rightarrow> (rem, [])
      | Some h \<Rightarrow> (let (rem, reply) = h pid rem msg in (rem, [reply])))"

text \<open>
  What happens to a driver: time passes, \<open>select\<close> reports a message (\<open>None\<close>: the read gave nothing)
  or the expiry of the timer, or it fails. The result is the replies and whether the loop goes on.
\<close>

datatype driver_event = Elapse nat | Request "ipc_msg option" | Expired | Select_error

fun driver_run :: "int \<Rightarrow> nat \<Rightarrow> driver_event list \<Rightarrow> ipc_msg list \<times> bool" where
  "driver_run pid rem [] = ([], True)"
| "driver_run pid rem (Elapse dt # es) = driver_run pid (rem - dt) es"
| "driver_run pid rem (Request None # es) = ([], False)"
| "driver_run pid rem (Request (Some msg) # es) =
     (let (rem, replies) = driver_message pid rem msg; (more, on) = driver_run pid rem es in (replies @ more, on))"
| "driver_run pid rem (Expired # es) = driver_run pid rem es"
| "driver_run pid rem (Select_error # es) = ([], False)"

section \<open>Server\<close>

definition MAX_DRIVERS :: nat where "MAX_DRIVERS = 100"

record driver_info =
  d_pid :: int
  req_fd :: int
  rsp_fd :: int

text \<open>The FIFOs, by the number in their names.\<close>

datatype fifo = Req nat | Rsp nat

datatype taxi_line =
    Created int | Fork_failed | Accepted int | Busy int int | Available int | Not_found int
  | No_drivers | Usage_task | Usage_status | Unknown_command

text \<open>The whole system: the server's table and descriptors, the FIFOs, the drivers' timers, the terminal.\<close>

record taxi =
  drivers :: "driver_info list"
  files :: "int \<Rightarrow> fifo option"
  fifos :: "fifo \<Rightarrow> ipc_msg list"
  timers :: "nat \<Rightarrow> nat"
  out :: "taxi_line list"
  exited :: bool

definition init_taxi :: taxi where
  "init_taxi = \<lparr>drivers = [], files = (\<lambda>_. None), fifos = (\<lambda>_. []), timers = (\<lambda>_. 0), out = [], exited = False\<rparr>"

definition print_line :: "taxi_line \<Rightarrow> taxi \<Rightarrow> taxi" where
  "print_line l st = st\<lparr>out := out st @ [l]\<rparr>"

definition fifo_write :: "nat \<Rightarrow> int \<Rightarrow> ipc_msg \<Rightarrow> taxi \<Rightarrow> taxi" where
  "fifo_write cap fd msg st =
     (case files st fd of
        None \<Rightarrow> st
      | Some q \<Rightarrow> if length (fifos st q) < cap then st\<lparr>fifos := (fifos st)(q := fifos st q @ [msg])\<rparr> else st)"

fun find_driver :: "driver_info list \<Rightarrow> int \<Rightarrow> driver_info option" where
  "find_driver [] pid = None"
| "find_driver (d # ds) pid = (if d_pid d = pid then Some d else find_driver ds pid)"

text \<open>\<open>fork\<close> gives the pid of the driver, and the two \<open>open\<close>s the descriptors, or it fails.\<close>

definition handle_create_driver :: "(int \<times> int \<times> int) option \<Rightarrow> taxi \<Rightarrow> taxi" where
  "handle_create_driver fork st =
     (let num_drivers = length (drivers st) in
      if MAX_DRIVERS \<le> num_drivers then st
      else case fork of
          None \<Rightarrow> print_line Fork_failed st
        | Some (pid, rq, rs) \<Rightarrow>
            print_line (Created pid)
              (st\<lparr>drivers := drivers st @ [\<lparr>d_pid = pid, req_fd = rq, rsp_fd = rs\<rparr>],
                 files := (files st)(rq \<mapsto> Req num_drivers, rs \<mapsto> Rsp num_drivers),
                 timers := (timers st)(num_drivers := 0)\<rparr>))"

definition handle_send_task :: "nat \<Rightarrow> int \<Rightarrow> int \<Rightarrow> taxi \<Rightarrow> taxi" where
  "handle_send_task cap pid timer st =
     (case find_driver (drivers st) pid of
        None \<Rightarrow> print_line (Not_found pid) st
      | Some drv \<Rightarrow> fifo_write cap (req_fd drv) \<lparr>m_type = MSG_TASK, m_payload = timer, m_driver_pid = 0\<rparr> st)"

definition handle_get_status :: "nat \<Rightarrow> int \<Rightarrow> taxi \<Rightarrow> taxi" where
  "handle_get_status cap pid st =
     (case find_driver (drivers st) pid of
        None \<Rightarrow> print_line (Not_found pid) st
      | Some drv \<Rightarrow> fifo_write cap (req_fd drv) \<lparr>m_type = MSG_STATUS_REQ, m_payload = 0, m_driver_pid = 0\<rparr> st)"

definition handle_get_drivers :: "nat \<Rightarrow> taxi \<Rightarrow> taxi" where
  "handle_get_drivers cap st =
     (if drivers st = [] then print_line No_drivers st
      else fold (\<lambda>d. fifo_write cap (req_fd d) \<lparr>m_type = MSG_STATUS_REQ, m_payload = 0, m_driver_pid = 0\<rparr>) (drivers st) st)"

text \<open>\<open>%*s\<close>: a word is skipped.\<close>

definition skip_word :: "string \<Rightarrow> string option" where
  "skip_word s = (let t = dropWhile isspace s in if t = [] then None else Some (dropWhile (\<lambda>c. \<not> isspace c) t))"

definition scan_pid_timer :: "string \<Rightarrow> (int \<times> int) option" where
  "scan_pid_timer s =
     Option.bind (skip_word s) (\<lambda>r. Option.bind (scan_d r) (\<lambda>(pid, r). map_option (\<lambda>(timer, _). (pid, timer)) (scan_d r)))"

definition scan_pid :: "string \<Rightarrow> int option" where
  "scan_pid s = Option.bind (skip_word s) (\<lambda>r. map_option fst (scan_d r))"

text \<open>\<open>process_cli_input\<close> on the line that \<open>fgets\<close> gave, or at the end of the input (\<open>None\<close>).\<close>

definition process_cli_input :: "nat \<Rightarrow> (int \<times> int \<times> int) option \<Rightarrow> string option \<Rightarrow> taxi \<Rightarrow> taxi" where
  "process_cli_input cap fork line st =
     (case line of
        None \<Rightarrow> st
      | Some l \<Rightarrow>
          let buf = cstr l in
          case scan_s 63 buf of
            None \<Rightarrow> st
          | Some (cmd, _) \<Rightarrow>
              if cmd = ''create_driver'' then handle_create_driver fork st
              else if cmd = ''send_task'' then
                (case scan_pid_timer buf of
                   Some (pid, timer) \<Rightarrow> handle_send_task cap pid timer st
                 | None \<Rightarrow> print_line Usage_task st)
              else if cmd = ''get_status'' then
                (case scan_pid buf of
                   Some pid \<Rightarrow> handle_get_status cap pid st
                 | None \<Rightarrow> print_line Usage_status st)
              else if cmd = ''get_drivers'' then handle_get_drivers cap st
              else if cmd = ''exit'' then st\<lparr>exited := True\<rparr>
              else print_line Unknown_command st)"

definition handle_status_rsp :: "int \<Rightarrow> int \<Rightarrow> taxi_line" where
  "handle_status_rsp pid pl = (if 0 < pl then Busy pid pl else Available pid)"

fun resp_handlers :: "msg_type \<Rightarrow> (int \<Rightarrow> int \<Rightarrow> taxi_line) option" where
  "resp_handlers MSG_ACK = Some (\<lambda>pid _. Accepted pid)"
| "resp_handlers MSG_BUSY = Some Busy"
| "resp_handlers MSG_STATUS_RSP = Some handle_status_rsp"
| "resp_handlers _ = None"

text \<open>The pid of the last driver with this descriptor, -1 without one.\<close>

definition pid_of_fd :: "driver_info list \<Rightarrow> int \<Rightarrow> int" where
  "pid_of_fd ds fd = foldl (\<lambda>pid d. if rsp_fd d = fd then d_pid d else pid) (-1) ds"

definition process_driver_message :: "int \<Rightarrow> taxi \<Rightarrow> taxi" where
  "process_driver_message fd st =
     (case files st fd of
        None \<Rightarrow> st
      | Some q \<Rightarrow>
          (case fifos st q of
             [] \<Rightarrow> st
           | msg # ms \<Rightarrow>
               let st = st\<lparr>fifos := (fifos st)(q := ms)\<rparr> in
               case resp_handlers (m_type msg) of
                 None \<Rightarrow> st
               | Some h \<Rightarrow> print_line (h (pid_of_fd (drivers st) fd) (m_payload msg)) st))"

text \<open>
  One round of the loop of \<open>server_run\<close>: whether \<open>select\<close> found a line (with the outcome of a
  \<open>fork\<close>, should it ask for one), and the descriptors it found readable.
\<close>

definition server_round ::
  "nat \<Rightarrow> (string option \<times> (int \<times> int \<times> int) option) option \<Rightarrow> (int \<Rightarrow> bool) \<Rightarrow> taxi \<Rightarrow> taxi" where
  "server_round cap stdin ready st =
     (let st = (case stdin of None \<Rightarrow> st | Some (line, fork) \<Rightarrow> process_cli_input cap fork line st) in
      if exited st then st
      else fold (\<lambda>d st. if ready (rsp_fd d) then process_driver_message (rsp_fd d) st else st) (drivers st) st)"

text \<open>The driver with number \<open>k\<close> takes the next message of its FIFO.\<close>

definition driver_round :: "nat \<Rightarrow> nat \<Rightarrow> taxi \<Rightarrow> taxi" where
  "driver_round cap k st =
     (case fifos st (Req k) of
        [] \<Rightarrow> st
      | msg # ms \<Rightarrow>
          let (rem, replies) = driver_message (d_pid (drivers st ! k)) (timers st k) msg;
              st = st\<lparr>timers := (timers st)(k := rem), fifos := (fifos st)(Req k := ms)\<rparr>
          in if length (fifos st (Rsp k)) < cap
             then st\<lparr>fifos := (fifos st)(Rsp k := fifos st (Rsp k) @ replies)\<rparr> else st)"

definition elapse :: "nat \<Rightarrow> taxi \<Rightarrow> taxi" where
  "elapse dt st = st\<lparr>timers := (\<lambda>k. timers st k - dt)\<rparr>"

text \<open>The kernel gives a new process a pid of its own and a new file two free descriptors.\<close>

definition fresh :: "taxi \<Rightarrow> (int \<times> int \<times> int) option \<Rightarrow> bool" where
  "fresh st fork = (case fork of None \<Rightarrow> True | Some (pid, rq, rs) \<Rightarrow>
     0 < pid \<and> pid \<notin> d_pid ` set (drivers st) \<and> files st rq = None \<and> files st rs = None \<and> rq \<noteq> rs)"

inductive taxi_step :: "nat \<Rightarrow> taxi \<Rightarrow> taxi \<Rightarrow> bool" for cap where
  server: "\<not> exited st \<Longrightarrow> (case stdin of None \<Rightarrow> True | Some (_, fork) \<Rightarrow> fresh st fork) \<Longrightarrow>
    taxi_step cap st (server_round cap stdin ready st)"
| driver: "k < length (drivers st) \<Longrightarrow> taxi_step cap st (driver_round cap k st)"
| time: "taxi_step cap st (elapse dt st)"

abbreviation taxi_reach :: "nat \<Rightarrow> taxi \<Rightarrow> bool" where
  "taxi_reach cap \<equiv> (taxi_step cap)\<^sup>*\<^sup>* init_taxi"

end
