(* ===== verification/TaxiProofs.thy ===== *)
theory TaxiProofs
  imports Taxi StepSystem
begin

text \<open>
  A driver keeps the book of its abstract specification (the time from which it is free); the
  invariant of the whole system of server, FIFOs and drivers; commands of the terminal reach the
  driver and come back as the lines shown.
\<close>

section \<open>A driver and its book\<close>

text \<open>The specification: absolute times instead of a timer that counts down; seconds are rounded up.\<close>

definition seconds_up :: "nat \<Rightarrow> int" where
  "seconds_up n = int ((n + SECOND - 1) div SECOND)"

fun book :: "int \<Rightarrow> nat \<Rightarrow> nat \<Rightarrow> (nat \<times> ipc_msg) list \<Rightarrow> ipc_msg list" where
  "book pid now free_at [] = []"
| "book pid now free_at ((dt, msg) # rs) =
     (let t = now + dt; left = seconds_up (free_at - t) in
      if m_type msg = MSG_TASK then
        (if t < free_at then \<lparr>m_type = MSG_BUSY, m_payload = left, m_driver_pid = pid\<rparr> # book pid t free_at rs
         else \<lparr>m_type = MSG_ACK, m_payload = 0, m_driver_pid = pid\<rparr> # book pid t (t + nat (m_payload msg) * SECOND) rs)
      else if m_type msg = MSG_STATUS_REQ then
        \<lparr>m_type = MSG_STATUS_RSP, m_payload = left, m_driver_pid = pid\<rparr> # book pid t free_at rs
      else book pid t free_at rs)"

definition timed_requests :: "(nat \<times> ipc_msg) list \<Rightarrow> driver_event list" where
  "timed_requests rs = concat (map (\<lambda>(dt, msg). [Elapse dt, Request (Some msg)]) rs)"

lemma SECOND_pos [simp]: "0 < SECOND" by (simp add: SECOND_def)

lemma split_second: "\<exists>q r. n = r + q * SECOND \<and> r < SECOND \<and> n div SECOND = q \<and> n mod SECOND = r"
  using mod_less_divisor [OF SECOND_pos, of n] by (intro exI [of _ "n div SECOND"] exI [of _ "n mod SECOND"]) simp

lemma seconds_up_split: "seconds_up n = int (n div SECOND) + (if 0 < n mod SECOND then 1 else 0)"
proof -
  obtain q r where n: "n = r + q * SECOND" "r < SECOND" and d: "n div SECOND = q" "n mod SECOND = r"
    using split_second by blast
  show ?thesis
  proof (cases "0 < r")
    case True
    then have "n + SECOND - 1 = (r - 1) + (q + 1) * SECOND" "(r - 1) div SECOND = 0" using n by simp_all
    moreover have "((r - 1) + (q + 1) * SECOND) div SECOND = (q + 1) + (r - 1) div SECOND"
      by (rule div_mult_self1) simp
    ultimately have "(n + SECOND - 1) div SECOND = q + 1" by (simp only: add_0_right)
    with True d show ?thesis by (simp add: seconds_up_def)
  next
    case False
    then have "n + SECOND - 1 = (SECOND - 1) + q * SECOND" using n SECOND_pos by linarith
    moreover have "((SECOND - 1) + q * SECOND) div SECOND = q + (SECOND - 1) div SECOND" by (rule div_mult_self1) simp
    ultimately have "(n + SECOND - 1) div SECOND = q" by simp
    with False d show ?thesis by (simp add: seconds_up_def)
  qed
qed

lemma second_parts: "0 < n \<longleftrightarrow> 0 < n div SECOND \<or> 0 < n mod SECOND"
  using split_second [of n] by (cases "n = 0") auto

lemma seconds_up_pos: "0 < seconds_up n \<longleftrightarrow> 0 < n"
  using second_parts [of n] by (auto simp: seconds_up_split)

definition short :: "nat \<Rightarrow> bool" where "short n \<longleftrightarrow> n \<le> (2 ^ 31 - 1) * SECOND"

lemma short_mono: "short m \<Longrightarrow> n \<le> m \<Longrightarrow> short n"
  by (simp add: short_def)

lemma seconds_up_short:
  assumes "short n"
  shows "to_int32 (seconds_up n) = seconds_up n"
proof -
  have "n + SECOND - 1 < 2 ^ 31 * SECOND" using assms by (simp add: short_def SECOND_def)
  then have "(n + SECOND - 1) div SECOND < 2 ^ 31" by (simp add: less_mult_imp_div_less)
  then show ?thesis by (simp add: seconds_up_def)
qed

lemma check_timer_state_eq: "check_timer_state rem = (0 < rem, to_int32 (seconds_up rem))"
  unfolding check_timer_state_def Let_def seconds_up_split second_parts [of rem] ..

lemma driver_message_book:
  "driver_message pid rem msg =
     (if m_type msg = MSG_TASK then
        (if 0 < rem then (rem, [\<lparr>m_type = MSG_BUSY, m_payload = to_int32 (seconds_up rem), m_driver_pid = pid\<rparr>])
         else (nat (m_payload msg) * SECOND, [\<lparr>m_type = MSG_ACK, m_payload = 0, m_driver_pid = pid\<rparr>]))
      else if m_type msg = MSG_STATUS_REQ then
        (rem, [\<lparr>m_type = MSG_STATUS_RSP, m_payload = to_int32 (seconds_up rem), m_driver_pid = pid\<rparr>])
      else (rem, []))"
proof -
  have "seconds_up 0 = 0" by (simp add: seconds_up_def SECOND_def)
  then show ?thesis
    by (cases "m_type msg") (simp_all add: driver_message_def handle_task_cmd_def handle_status_req_cmd_def check_timer_state_eq
      timerfd_settime_def)
qed

lemma driver_refines_book:
  assumes "list_all (\<lambda>(dt, msg). is_int32 (m_payload msg)) rs" "short (free_at - now)"
  shows "driver_run pid (free_at - now) (timed_requests rs) = (book pid now free_at rs, True)"
  using assms
proof (induction rs arbitrary: now free_at)
  case Nil
  then show ?case by (simp add: timed_requests_def)
next
  case (Cons r rs)
  obtain dt msg where r: "r = (dt, msg)" by (cases r)
  let ?t = "now + dt"
  have left: "free_at - now - dt = free_at - ?t" by simp
  have short: "short (free_at - ?t)" using Cons.prems(2) by (rule short_mono) simp
  have "nat (m_payload msg) \<le> 2 ^ 31 - 1" using Cons.prems(1) by (auto simp: r is_int32_def)
  then have new: "short (?t + nat (m_payload msg) * SECOND - ?t)" by (simp add: short_def)
  have ih: "driver_run pid (f - ?t) (timed_requests rs) = (book pid ?t f rs, True)" if "short (f - ?t)" for f
    using Cons.IH [of f ?t] Cons.prems(1) that by (simp add: r)
  show ?case
    using ih [OF short] ih [OF new] seconds_up_short [OF short]
    by (simp add: r timed_requests_def driver_message_book left Let_def)
qed

text \<open>C5: A driver answers any timed history of requests as its specification does, which only keeps the time from
  which the driver is free: a task is accepted exactly when the previous one is over, and otherwise refused with the
  remaining seconds, rounded up.\<close>
theorem driver_keeps_its_book:
  assumes "list_all (\<lambda>(dt, msg). is_int32 (m_payload msg)) rs"
  shows "driver_run pid 0 (timed_requests rs) = (book pid 0 0 rs, True)"
  using driver_refines_book [OF assms, of 0 0] by (simp add: short_def)

theorem driver_keeps_its_book_witness:
  "driver_run 7 0 (timed_requests [(5, \<lparr>m_type = MSG_TASK, m_payload = 60, m_driver_pid = 0\<rparr>),
      (1500000000, \<lparr>m_type = MSG_TASK, m_payload = 10, m_driver_pid = 0\<rparr>)])
   = (book 7 0 0 [(5, \<lparr>m_type = MSG_TASK, m_payload = 60, m_driver_pid = 0\<rparr>),
      (1500000000, \<lparr>m_type = MSG_TASK, m_payload = 10, m_driver_pid = 0\<rparr>)], True)"
  by (rule driver_keeps_its_book) (simp add: is_int32_def)

text \<open>A task of no or of negative length is acknowledged by a free driver, which stays available.\<close>
theorem empty_task_acknowledged:
  assumes "t \<le> 0"
  shows "driver_run pid 0 [Request (Some \<lparr>m_type = MSG_TASK, m_payload = t, m_driver_pid = 0\<rparr>),
      Request (Some \<lparr>m_type = MSG_STATUS_REQ, m_payload = 0, m_driver_pid = 0\<rparr>)]
    = ([\<lparr>m_type = MSG_ACK, m_payload = 0, m_driver_pid = pid\<rparr>, \<lparr>m_type = MSG_STATUS_RSP, m_payload = 0, m_driver_pid = pid\<rparr>], True)"
proof -
  have "seconds_up 0 = 0" by (simp add: seconds_up_def SECOND_def)
  with assms show ?thesis by (simp add: driver_message_book)
qed

theorem empty_task_acknowledged_witness:
  "driver_run 7 0 [Request (Some \<lparr>m_type = MSG_TASK, m_payload = - 5, m_driver_pid = 0\<rparr>),
      Request (Some \<lparr>m_type = MSG_STATUS_REQ, m_payload = 0, m_driver_pid = 0\<rparr>)]
    = ([\<lparr>m_type = MSG_ACK, m_payload = 0, m_driver_pid = 7\<rparr>, \<lparr>m_type = MSG_STATUS_RSP, m_payload = 0, m_driver_pid = 7\<rparr>], True)"
  by (rule empty_task_acknowledged) simp

section \<open>The invariant of the system\<close>

definition request :: "ipc_msg \<Rightarrow> bool" where
  "request msg \<longleftrightarrow> m_type msg \<in> {MSG_TASK, MSG_STATUS_REQ}"

definition answer :: "int \<Rightarrow> ipc_msg \<Rightarrow> bool" where
  "answer pid msg \<longleftrightarrow> m_type msg \<in> {MSG_ACK, MSG_BUSY, MSG_STATUS_RSP} \<and> m_driver_pid msg = pid"

text \<open>What may lie in a FIFO; one without a driver is empty.\<close>

fun fits :: "taxi \<Rightarrow> fifo \<Rightarrow> ipc_msg \<Rightarrow> bool" where
  "fits st (Req k) msg = (k < length (drivers st) \<and> request msg)"
| "fits st (Rsp k) msg = (k < length (drivers st) \<and> answer (d_pid (drivers st ! k)) msg)"

definition taxi_inv :: "taxi \<Rightarrow> bool" where
  "taxi_inv st \<longleftrightarrow>
     length (drivers st) \<le> MAX_DRIVERS \<and> distinct (map d_pid (drivers st)) \<and> (\<forall>d \<in> set (drivers st). 0 < d_pid d)
     \<and> (\<forall>k < length (drivers st). files st (req_fd (drivers st ! k)) = Some (Req k)
          \<and> files st (rsp_fd (drivers st ! k)) = Some (Rsp k))
     \<and> (\<forall>q. list_all (fits st q) (fifos st q))"

interpretation taxi_table: bounded_table "\<lambda>pid. handle_create_driver (Some (pid, rq, rs))" "\<lambda>st. map d_pid (drivers st)"
    MAX_DRIVERS "\<lambda>_. True" for rq rs
  by unfold_locales (simp_all add: handle_create_driver_def print_line_def Let_def)

lemma fits_cong: "drivers st = drivers st' \<Longrightarrow> fits st = fits st'"
proof (intro ext)
  fix q msg
  assume "drivers st = drivers st'"
  then show "fits st q msg = fits st' q msg" by (cases q) simp_all
qed

lemma fits_upd [simp]: "fits (st\<lparr>fifos := f\<rparr>) = fits st" "fits (st\<lparr>timers := t\<rparr>) = fits st"
  "fits (st\<lparr>out := l\<rparr>) = fits st" "fits (st\<lparr>exited := b\<rparr>) = fits st"
  by (rule fits_cong, simp)+

lemma print_line_inv [simp]: "taxi_inv (print_line l st) = taxi_inv st"
  by (simp add: taxi_inv_def print_line_def)

lemma inv_fifos:
  assumes "taxi_inv st" "list_all (fits st q) ms"
  shows "taxi_inv (st\<lparr>fifos := (fifos st)(q := ms)\<rparr>)"
  using assms by (simp add: taxi_inv_def)

lemma inv_timers [simp]: "taxi_inv (st\<lparr>timers := t\<rparr>) = taxi_inv st"
  by (simp add: taxi_inv_def)

lemma inv_fifo: "taxi_inv st \<Longrightarrow> list_all (fits st q) (fifos st q)"
  by (simp add: taxi_inv_def)

lemma inv_write:
  assumes "taxi_inv st" "k < length (drivers st)" "request msg"
  shows "taxi_inv (fifo_write cap (req_fd (drivers st ! k)) msg st)"
proof -
  have "files st (req_fd (drivers st ! k)) = Some (Req k)" using assms by (simp add: taxi_inv_def)
  moreover have "list_all (fits st (Req k)) (fifos st (Req k) @ [msg])"
    using inv_fifo [OF assms(1), of "Req k"] assms(2,3) by simp
  ultimately show ?thesis using inv_fifos [OF assms(1)] assms(1) by (simp add: fifo_write_def)
qed

lemma fifo_write_drivers [simp]: "drivers (fifo_write cap fd msg st) = drivers st"
  by (simp add: fifo_write_def split: option.split)

lemma find_driver_Some: "find_driver ds pid = Some d \<Longrightarrow> d \<in> set ds \<and> d_pid d = pid"
  by (induction ds) (auto split: if_splits)

lemma find_driver_nth: "distinct (map d_pid ds) \<Longrightarrow> k < length ds \<Longrightarrow> find_driver ds (d_pid (ds ! k)) = Some (ds ! k)"
proof (induction ds arbitrary: k)
  case (Cons d ds)
  then show ?case by (cases k) auto
qed simp

lemma inv_write_found:
  assumes "taxi_inv st" "d \<in> set (drivers st)" "request msg"
  shows "taxi_inv (fifo_write cap (req_fd d) msg st)"
  using inv_write [OF assms(1) _ assms(3)] assms(2) by (metis in_set_conv_nth)

lemma inv_write_all:
  assumes "taxi_inv st" "set ds \<subseteq> set (drivers st)" "request msg"
  shows "taxi_inv (fold (\<lambda>d. fifo_write cap (req_fd d) msg) ds st)"
  using assms(1,2)
proof (induction ds arbitrary: st)
  case (Cons d ds)
  then show ?case using inv_write_found [of st d msg cap] assms(3) by simp
qed simp

lemma inv_create:
  assumes "taxi_inv st" "fresh st fork"
  shows "taxi_inv (handle_create_driver fork st)"
proof (cases fork)
  case None
  with assms show ?thesis by (simp add: handle_create_driver_def Let_def)
next
  case (Some f)
  obtain pid rq rs where f: "f = (pid, rq, rs)" by (cases f)
  let ?n = "length (drivers st)"
  let ?st = "st\<lparr>drivers := drivers st @ [\<lparr>d_pid = pid, req_fd = rq, rsp_fd = rs\<rparr>],
    files := (files st)(rq \<mapsto> Req ?n, rs \<mapsto> Rsp ?n), timers := (timers st)(?n := 0)\<rparr>"
  have new: "0 < pid" "pid \<notin> d_pid ` set (drivers st)" "files st rq = None" "files st rs = None" "rq \<noteq> rs"
    using assms(2) Some f by (simp_all add: fresh_def)
  show ?thesis
  proof (cases "MAX_DRIVERS \<le> ?n")
    case True
    with assms show ?thesis by (simp add: handle_create_driver_def Let_def)
  next
    case False
    have "files ?st (req_fd (drivers ?st ! k)) = Some (Req k) \<and> files ?st (rsp_fd (drivers ?st ! k)) = Some (Rsp k)"
      if "k < length (drivers ?st)" for k
    proof (cases "k < ?n")
      case True
      then have old: "files st (req_fd (drivers st ! k)) = Some (Req k)" "files st (rsp_fd (drivers st ! k)) = Some (Rsp k)"
        using assms(1) by (simp_all add: taxi_inv_def)
      with new have "req_fd (drivers st ! k) \<notin> {rq, rs}" "rsp_fd (drivers st ! k) \<notin> {rq, rs}" by auto
      with old True show ?thesis by (simp add: nth_append)
    next
      case False
      with that have "k = ?n" by simp
      with new show ?thesis by simp
    qed
    moreover have "list_all (fits ?st q) (fifos ?st q)" for q
      using inv_fifo [OF assms(1), of q] by (cases q) (auto simp: list_all_iff nth_append)
    moreover have "distinct (map d_pid (drivers ?st))" "length (drivers ?st) \<le> MAX_DRIVERS" "\<forall>d \<in> set (drivers ?st). 0 < d_pid d"
      using assms(1) new False by (auto simp: taxi_inv_def)
    ultimately have "taxi_inv ?st" unfolding taxi_inv_def by blast
    with False Some f show ?thesis by (simp add: handle_create_driver_def Let_def)
  qed
qed

lemma inv_cli:
  assumes "taxi_inv st" "fresh st fork"
  shows "taxi_inv (process_cli_input cap fork line st)"
proof -
  have "taxi_inv (handle_send_task cap pid t st)" "taxi_inv (handle_get_status cap pid st)" for pid t
    using assms(1) by (auto simp: handle_send_task_def handle_get_status_def request_def split: option.split
        dest!: find_driver_Some intro!: inv_write_found)
  moreover have "taxi_inv (handle_get_drivers cap st)"
    using assms(1) inv_write_all [of st "drivers st"] by (simp add: handle_get_drivers_def request_def)
  moreover have "taxi_inv (st\<lparr>exited := True\<rparr>)" using assms(1) by (simp add: taxi_inv_def)
  ultimately show ?thesis
    using assms inv_create [OF assms] by (simp add: process_cli_input_def Let_def split: option.split)
qed

lemma inv_answer_shown:
  assumes "taxi_inv st"
  shows "taxi_inv (process_driver_message fd st)"
proof (cases "files st fd")
  case (Some q)
  show ?thesis
  proof (cases "fifos st q")
    case (Cons msg ms)
    then have "list_all (fits st q) ms" using inv_fifo [OF assms, of q] by simp
    then have "taxi_inv (st\<lparr>fifos := (fifos st)(q := ms)\<rparr>)" by (rule inv_fifos [OF assms])
    with Some Cons show ?thesis by (simp add: process_driver_message_def Let_def split: option.split)
  qed (use assms Some in \<open>simp add: process_driver_message_def\<close>)
qed (use assms in \<open>simp add: process_driver_message_def\<close>)

lemma inv_driver:
  assumes "taxi_inv st" "k < length (drivers st)"
  shows "taxi_inv (driver_round cap k st)"
proof (cases "fifos st (Req k)")
  case (Cons msg ms)
  obtain rem rs where d: "driver_message (d_pid (drivers st ! k)) (timers st k) msg = (rem, rs)" by fastforce
  have rs: "list_all (fits st (Rsp k)) rs"
    using d assms(2) by (auto simp: driver_message_book answer_def split: if_splits)
  have "list_all (fits st (Req k)) ms" using inv_fifo [OF assms(1), of "Req k"] Cons by simp
  then have i: "taxi_inv (st\<lparr>fifos := (fifos st)(Req k := ms)\<rparr>)" by (rule inv_fifos [OF assms(1)])
  then have "taxi_inv (st\<lparr>fifos := (fifos st)(Req k := ms, Rsp k := fifos st (Rsp k) @ rs)\<rparr>)"
    using inv_fifos [OF i, of "Rsp k" "fifos st (Rsp k) @ rs"] rs inv_fifo [OF assms(1), of "Rsp k"] by simp
  with i Cons d show ?thesis by (simp add: driver_round_def Let_def taxi_inv_def)
qed (use assms in \<open>simp add: driver_round_def\<close>)

lemma inv_fold:
  "taxi_inv st \<Longrightarrow> taxi_inv (fold (\<lambda>d st. if ready (rsp_fd d) then process_driver_message (rsp_fd d) st else st) ds st)"
  by (induction ds arbitrary: st) (simp_all add: inv_answer_shown)

lemma taxi_step_inv: "taxi_step cap st st' \<Longrightarrow> taxi_inv st \<Longrightarrow> taxi_inv st'"
proof (induction rule: taxi_step.induct)
  case (server st stdin ready)
  then have "taxi_inv (case stdin of None \<Rightarrow> st | Some (line, fork) \<Rightarrow> process_cli_input cap fork line st)"
    by (auto intro: inv_cli split: option.splits)
  then show ?case by (simp add: server_round_def Let_def inv_fold)
next
  case (driver k st)
  then show ?case by (simp add: inv_driver)
next
  case (time st dt)
  then show ?case by (simp add: elapse_def)
qed

interpretation taxis: step_system "taxi_step cap" "\<lambda>st. st = init_taxi" taxi_inv for cap
  by unfold_locales (simp_all add: taxi_step_inv, simp add: taxi_inv_def init_taxi_def)

lemma inv_reach: "taxi_reach cap st \<Longrightarrow> taxi_inv st"
  by (rule taxis.inv_reachable [OF refl])

text \<open>Whatever the system has gone through, it ends with a good state; the first driver as an example.\<close>

definition one_driver :: taxi where
  "one_driver = server_round 10 (Some (Some ''create_driver'', Some (100, 5, 6))) (\<lambda>_. False) init_taxi"

lemma one_driver_reach: "taxi_reach 10 one_driver"
proof -
  have "taxi_step 10 init_taxi one_driver"
    unfolding one_driver_def by (rule taxi_step.server) (simp_all add: init_taxi_def fresh_def)
  then show ?thesis by (rule r_into_rtranclp)
qed

text \<open>C23: In every state the system reaches there are at most 100 drivers with pids of their own, the descriptors of
  each lead to its own FIFOs, and these hold only requests to it, and answers of it, that the handlers know.\<close>
theorem taxi_reachable_inv: "taxi_reach cap st \<Longrightarrow> taxi_inv st"
  by (rule inv_reach)

theorem taxi_reachable_inv_witness: "taxi_inv one_driver"
  by (rule taxi_reachable_inv [OF one_driver_reach])

section \<open>Commands\<close>

lemma scan_d_space: "isspace c \<Longrightarrow> scan_d (c # s) = scan_d s"
  by (simp add: scan_d_def scan_int_def)

lemma isspace_blank [simp]: "isspace (CHR '' '')" "isspace (CHR 0x0A)"
  by (simp_all add: isspace_def)

definition word :: "string \<Rightarrow> bool" where
  "word w \<longleftrightarrow> w \<noteq> [] \<and> length w \<le> 63 \<and> list_all (\<lambda>c. \<not> isspace c) w"

lemma word_scanned:
  assumes "word w"
  shows "\<exists>r'. scan_s 63 (w @ CHR '' '' # r) = Some (w, r')" "skip_word (w @ CHR '' '' # r) = Some (CHR '' '' # r)"
proof -
  have w: "w \<noteq> []" "\<forall>c \<in> set w. \<not> isspace c" "length w \<le> 63" using assms by (simp_all add: word_def list_all_iff)
  then show "\<exists>r'. scan_s 63 (w @ CHR '' '' # r) = Some (w, r')"
    using scan_s_blank [OF w(1,2), of "CHR '' ''" 63 r] by simp
  have "dropWhile isspace (w @ CHR '' '' # r) = w @ CHR '' '' # r" using w by (cases w) simp_all
  then show "skip_word (w @ CHR '' '' # r) = Some (CHR '' '' # r)"
    using w by (simp add: skip_word_def Let_def dropWhile_append)
qed

lemma not_digit_blank: "\<not> isdigit (CHR '' '')" "\<not> isdigit (CHR 0x0A)"
  by (simp_all add: isdigit_def)

definition send_task_line :: "int \<Rightarrow> int \<Rightarrow> string" where
  "send_task_line pid timer = ''send_task'' @ CHR '' '' # fmt_d pid @ CHR '' '' # fmt_d timer @ [CHR 0x0A]"

definition get_status_line :: "int \<Rightarrow> string" where
  "get_status_line pid = ''get_status'' @ CHR '' '' # fmt_d pid @ [CHR 0x0A]"

lemma send_task_read:
  assumes "is_int32 pid" "is_int32 timer"
  shows "process_cli_input cap fork (Some (send_task_line pid timer)) st = handle_send_task cap pid timer st"
proof -
  let ?r = "fmt_d pid @ CHR '' '' # fmt_d timer @ [CHR 0x0A]"
  have w: "word ''send_task''" by (simp add: word_def isspace_def)
  have "scan_pid_timer (''send_task'' @ CHR '' '' # ?r) = Some (pid, timer)"
    unfolding scan_pid_timer_def word_scanned(2) [OF w]
    by (simp add: scan_d_space scan_d_fmt_d assms not_digit_blank)
  moreover have "cstr (''send_task'' @ CHR '' '' # ?r) = ''send_task'' @ CHR '' '' # ?r" by (rule cstr_no_nul) simp
  moreover obtain r' where "scan_s 63 (''send_task'' @ CHR '' '' # ?r) = Some (''send_task'', r')"
    using word_scanned(1) [OF w] by blast
  ultimately show ?thesis unfolding process_cli_input_def send_task_line_def by (simp add: Let_def)
qed

lemma get_status_read:
  assumes "is_int32 pid"
  shows "process_cli_input cap fork (Some (get_status_line pid)) st = handle_get_status cap pid st"
proof -
  let ?r = "fmt_d pid @ [CHR 0x0A]"
  have w: "word ''get_status''" by (simp add: word_def isspace_def)
  have "scan_pid (''get_status'' @ CHR '' '' # ?r) = Some pid"
    unfolding scan_pid_def word_scanned(2) [OF w]
    by (simp add: scan_d_space scan_d_fmt_d assms not_digit_blank)
  moreover have "cstr (''get_status'' @ CHR '' '' # ?r) = ''get_status'' @ CHR '' '' # ?r" by (rule cstr_no_nul) simp
  moreover obtain r' where "scan_s 63 (''get_status'' @ CHR '' '' # ?r) = Some (''get_status'', r')"
    using word_scanned(1) [OF w] by blast
  ultimately show ?thesis unfolding process_cli_input_def get_status_line_def by (simp add: Let_def)
qed

text \<open>One command, the driver's turn, and the round in which the server reads the answer.\<close>

definition command_cycle :: "nat \<Rightarrow> nat \<Rightarrow> string \<Rightarrow> taxi \<Rightarrow> taxi" where
  "command_cycle cap k line st =
     server_round cap None (\<lambda>fd. fd = rsp_fd (drivers st ! k))
       (driver_round cap k (server_round cap (Some (Some line, None)) (\<lambda>_. False) st))"

lemma fold_unready: "(\<And>d. d \<in> set ds \<Longrightarrow> \<not> P d) \<Longrightarrow> fold (\<lambda>d st. if P d then f d st else st) ds st = st"
  by (induction ds) simp_all

lemma inv_rsp_inj:
  assumes "taxi_inv st" "j < length (drivers st)" "k < length (drivers st)" "rsp_fd (drivers st ! j) = rsp_fd (drivers st ! k)"
  shows "j = k"
proof -
  have "files st (rsp_fd (drivers st ! j)) = Some (Rsp j)" "files st (rsp_fd (drivers st ! k)) = Some (Rsp k)"
    using assms(1-3) by (simp_all add: taxi_inv_def)
  then have "Some (Rsp j) = Some (Rsp k)" by (simp only: assms(4))
  then show ?thesis by simp
qed

lemma split_drivers:
  assumes "taxi_inv st" "k < length (drivers st)"
  shows "\<exists>xs ys. drivers st = xs @ drivers st ! k # ys
    \<and> (\<forall>d \<in> set xs \<union> set ys. rsp_fd d \<noteq> rsp_fd (drivers st ! k))"
proof (intro exI conjI)
  show "drivers st = take k (drivers st) @ drivers st ! k # drop (Suc k) (drivers st)" using assms(2) by (rule id_take_nth_drop)
  have "rsp_fd d \<noteq> rsp_fd (drivers st ! k)" if "j < length (drivers st)" "j \<noteq> k" "d = drivers st ! j" for d j
    using inv_rsp_inj [OF assms(1) that(1) assms(2)] that by auto
  then show "\<forall>d \<in> set (take k (drivers st)) \<union> set (drop (Suc k) (drivers st)). rsp_fd d \<noteq> rsp_fd (drivers st ! k)"
    using assms(2) by (fastforce simp: in_set_conv_nth)
qed

lemma fold_same [simp]: "fold (\<lambda>d st. st) ds st = st"
  by (induction ds) simp_all

lemma pid_of_other: "(\<forall>d \<in> set ds. rsp_fd d \<noteq> fd) \<Longrightarrow> foldl (\<lambda>pid d. if rsp_fd d = fd then d_pid d else pid) p ds = p"
  by (induction ds arbitrary: p) auto

lemma one_ready:
  assumes "taxi_inv st" "k < length (drivers st)" "\<not> exited st"
  shows "server_round cap None (\<lambda>fd. fd = rsp_fd (drivers st ! k)) st = process_driver_message (rsp_fd (drivers st ! k)) st"
    and "pid_of_fd (drivers st) (rsp_fd (drivers st ! k)) = d_pid (drivers st ! k)"
proof -
  obtain xs ys where ds: "drivers st = xs @ drivers st ! k # ys"
    and other: "\<forall>d \<in> set xs \<union> set ys. rsp_fd d \<noteq> rsp_fd (drivers st ! k)"
    using split_drivers [OF assms(1,2)] by blast
  let ?d = "drivers st ! k"
  have "fold (\<lambda>d st. if rsp_fd d = rsp_fd ?d then process_driver_message (rsp_fd d) st else st) (xs @ ?d # ys) st
      = process_driver_message (rsp_fd ?d) st"
    using other by (simp add: fold_unready)
  then show "server_round cap None (\<lambda>fd. fd = rsp_fd ?d) st = process_driver_message (rsp_fd ?d) st"
    using assms(3) ds by (simp add: server_round_def)
  have "pid_of_fd (xs @ ?d # ys) (rsp_fd ?d) = d_pid ?d"
    using other by (simp add: pid_of_fd_def pid_of_other)
  then show "pid_of_fd (drivers st) (rsp_fd ?d) = d_pid ?d" using ds by simp
qed

lemma request_cycle:
  assumes i: "taxi_inv st" "k < length (drivers st)" "\<not> exited st" "0 < cap"
    and idle: "fifos st (Req k) = []" "fifos st (Rsp k) = []"
    and cli: "process_cli_input cap None (Some line) st = fifo_write cap (req_fd (drivers st ! k)) msg st"
    and drv: "driver_message (d_pid (drivers st ! k)) (timers st k) msg = (rem, [reply])"
    and shown: "resp_handlers (m_type reply) = Some h"
  shows "command_cycle cap k line st =
    print_line (h (d_pid (drivers st ! k)) (m_payload reply)) (st\<lparr>timers := (timers st)(k := rem)\<rparr>)"
proof -
  have files: "files st (req_fd (drivers st ! k)) = Some (Req k)" "files st (rsp_fd (drivers st ! k)) = Some (Rsp k)"
    using i(1,2) by (simp_all add: taxi_inv_def)
  let ?s1 = "st\<lparr>fifos := (fifos st)(Req k := [msg])\<rparr>"
  let ?s2 = "st\<lparr>timers := (timers st)(k := rem), fifos := (fifos st)(Rsp k := [reply])\<rparr>"
  have s1: "server_round cap (Some (Some line, None)) (\<lambda>_. False) st = ?s1"
    using files(1) i(3,4) idle(1) by (simp add: server_round_def cli fifo_write_def fold_unready)
  have req: "(fifos st)(Req k := []) = fifos st" and rsp: "(fifos st)(Rsp k := []) = fifos st"
    using idle by (simp_all add: fun_upd_idem)
  have s2: "driver_round cap k ?s1 = ?s2"
    using i(4) idle drv req by (simp add: driver_round_def Let_def)
  have inv2: "taxi_inv ?s2 \<longleftrightarrow> taxi_inv (st\<lparr>fifos := (fifos st)(Rsp k := [reply])\<rparr>)"
    by (simp add: taxi_inv_def)
  have ok: "list_all (fits st (Rsp k)) [reply]"
    using drv i(2) by (auto simp: driver_message_book answer_def split: if_splits)
  have i2: "taxi_inv ?s2" unfolding inv2 by (rule inv_fifos [OF i(1) ok])
  have p: "pid_of_fd (drivers st) (rsp_fd (drivers st ! k)) = d_pid (drivers st ! k)"
    by (rule one_ready(2) [OF i(1,2,3)])
  have "server_round cap None (\<lambda>fd. fd = rsp_fd (drivers st ! k)) ?s2 = process_driver_message (rsp_fd (drivers st ! k)) ?s2"
    using one_ready(1) [OF i2, of k cap] i(2,3) by simp
  also have "\<dots> = print_line (h (d_pid (drivers st ! k)) (m_payload reply)) (st\<lparr>timers := (timers st)(k := rem)\<rparr>)"
    using files(2) shown p rsp by (simp add: process_driver_message_def Let_def print_line_def)
  finally show ?thesis by (simp add: command_cycle_def s1 s2)
qed

text \<open>C21: The command to send a task, typed with the pid of an idle driver, occupies that driver for the seconds asked
  for (a negative time counts as none) and shows that it accepted, or shows it as busy with the seconds left when it
  is still on a task; nothing else changes.\<close>
theorem send_task_occupies:
  assumes "taxi_reach cap st" "k < length (drivers st)" "\<not> exited st" "0 < cap"
    and "fifos st (Req k) = []" "fifos st (Rsp k) = []" "short (timers st k)"
    and "pid = d_pid (drivers st ! k)" "is_int32 pid" "is_int32 t"
  shows "command_cycle cap k (send_task_line pid t) st =
    (if timers st k = 0 then print_line (Accepted pid) (st\<lparr>timers := (timers st)(k := nat t * SECOND)\<rparr>)
     else print_line (Busy pid (seconds_up (timers st k))) st)"
proof -
  have i: "taxi_inv st" using assms(1) by (rule inv_reach)
  then have "find_driver (drivers st) pid = Some (drivers st ! k)"
    using find_driver_nth [of "drivers st" k] assms(2,8) by (simp add: taxi_inv_def)
  then have "process_cli_input cap None (Some (send_task_line pid t)) st
      = fifo_write cap (req_fd (drivers st ! k)) \<lparr>m_type = MSG_TASK, m_payload = t, m_driver_pid = 0\<rparr> st"
    using send_task_read [OF assms(9,10)] by (simp add: handle_send_task_def)
  note cycle = request_cycle [OF i assms(2-6) this]
  show ?thesis
  proof (cases "timers st k = 0")
    case True
    then show ?thesis using cycle [of "nat t * SECOND" _ "\<lambda>pid _. Accepted pid"] assms(8)
      by (simp add: driver_message_book)
  next
    case False
    then show ?thesis using cycle [of "timers st k" _ Busy] assms(7,8)
      by (simp add: driver_message_book seconds_up_short)
  qed
qed

lemma one_driver_facts:
  "drivers one_driver = [\<lparr>d_pid = 100, req_fd = 5, rsp_fd = 6\<rparr>]" "fifos one_driver = (\<lambda>_. [])" "timers one_driver = (\<lambda>_. 0)"
  "\<not> exited one_driver"
proof -
  have w: "word ''create_driver''" by (simp add: word_def isspace_def)
  have "scan_s 63 ''create_driver'' = Some (''create_driver'', [])"
    by (subst scan_s_word) (simp_all add: isspace_def)
  moreover have "cstr ''create_driver'' = ''create_driver''" by (rule cstr_no_nul) simp
  ultimately have one: "one_driver = print_line (Created 100) (init_taxi\<lparr>drivers := [\<lparr>d_pid = 100, req_fd = 5, rsp_fd = 6\<rparr>],
      files := (\<lambda>_. None)(5 \<mapsto> Req 0, 6 \<mapsto> Rsp 0), timers := (\<lambda>_. 0)\<rparr>)"
    by (simp add: fun_upd_idem one_driver_def server_round_def process_cli_input_def handle_create_driver_def init_taxi_def
        print_line_def MAX_DRIVERS_def Let_def)
  show "drivers one_driver = [\<lparr>d_pid = 100, req_fd = 5, rsp_fd = 6\<rparr>]" "fifos one_driver = (\<lambda>_. [])" "timers one_driver = (\<lambda>_. 0)"
    "\<not> exited one_driver"
    by (simp_all add: one print_line_def init_taxi_def)
qed

theorem send_task_occupies_witness:
  "command_cycle 10 0 (send_task_line 100 30) one_driver =
    (if timers one_driver 0 = 0 then print_line (Accepted 100) (one_driver\<lparr>timers := (timers one_driver)(0 := nat 30 * SECOND)\<rparr>)
     else print_line (Busy 100 (seconds_up (timers one_driver 0))) one_driver)"
  by (rule send_task_occupies [OF one_driver_reach]) (simp_all add: one_driver_facts short_def is_int32_def)

text \<open>Asked for its status some time after it took a task, a driver is shown as busy with the seconds left, rounded
  up, before the time is over, and as available from then on.\<close>
theorem status_follows_time:
  assumes "taxi_reach cap st" "k < length (drivers st)" "\<not> exited st" "0 < cap"
    and "fifos st (Req k) = []" "fifos st (Rsp k) = []" "short (timers st k)"
    and "pid = d_pid (drivers st ! k)" "is_int32 pid"
  shows "out (command_cycle cap k (get_status_line pid) (elapse dt st)) = out st @
    [if dt < timers st k then Busy pid (seconds_up (timers st k - dt)) else Available pid]"
proof -
  have i: "taxi_inv (elapse dt st)" using inv_reach [OF assms(1)] by (simp add: elapse_def)
  let ?rem = "timers st k - dt"
  have "short ?rem" using assms(7) by (rule short_mono) simp
  then have s: "to_int32 (seconds_up ?rem) = seconds_up ?rem" by (rule seconds_up_short)
  have find: "find_driver (drivers st) pid = Some (drivers st ! k)"
    using find_driver_nth [of "drivers st" k] assms(2,8) inv_reach [OF assms(1)] by (simp add: taxi_inv_def)
  have "process_cli_input cap None (Some (get_status_line pid)) (elapse dt st)
      = fifo_write cap (req_fd (drivers (elapse dt st) ! k)) \<lparr>m_type = MSG_STATUS_REQ, m_payload = 0, m_driver_pid = 0\<rparr> (elapse dt st)"
    using get_status_read [OF assms(9)] find by (simp add: handle_get_status_def elapse_def)
  from request_cycle [OF i _ _ assms(4) _ _ this, of ?rem _ handle_status_rsp]
  have "command_cycle cap k (get_status_line pid) (elapse dt st)
      = print_line (handle_status_rsp pid (seconds_up ?rem)) ((elapse dt st)\<lparr>timers := (timers (elapse dt st))(k := ?rem)\<rparr>)"
    using assms(2,3,5,6,8) s by (simp add: elapse_def driver_message_book)
  then show ?thesis using seconds_up_pos [of ?rem] by (simp add: print_line_def elapse_def handle_status_rsp_def)
qed

theorem status_follows_time_witness:
  "out (command_cycle 10 0 (get_status_line 100) (elapse 5 one_driver)) = out one_driver @
    [if 5 < timers one_driver 0 then Busy 100 (seconds_up (timers one_driver 0 - 5)) else Available 100]"
  by (rule status_follows_time [OF one_driver_reach]) (simp_all add: one_driver_facts short_def is_int32_def)

end
