(* ===== verification/TaxiSystem.thy ===== *)
theory TaxiSystem
  imports TaxiProofs
begin

text \<open>
  The taxi dispatcher as a whole can always come to rest: whatever requests and answers lie in the FIFOs, drivers
  and server can take turns such that every request is answered and every answer is shown, to the driver it
  belongs to.
\<close>

section \<open>What is on its way\<close>

fun answers_for :: "int \<Rightarrow> taxi_line \<Rightarrow> bool" where
  "answers_for pid (Accepted p) \<longleftrightarrow> p = pid"
| "answers_for pid (Busy p s) \<longleftrightarrow> p = pid"
| "answers_for pid (Available p) \<longleftrightarrow> p = pid"
| "answers_for pid _ \<longleftrightarrow> False"

definition answers_shown :: "taxi \<Rightarrow> nat \<Rightarrow> nat" where
  "answers_shown st k = length (filter (answers_for (d_pid (drivers st ! k))) (out st))"

definition on_the_way :: "taxi \<Rightarrow> nat \<Rightarrow> nat" where
  "on_the_way st k = length (fifos st (Req k)) + length (fifos st (Rsp k))"

text \<open>What the steps towards rest keep: that the server runs, the drivers, and for each of them the answers shown or still to come.\<close>

definition account :: "taxi \<Rightarrow> bool \<times> driver_info list \<times> (nat \<Rightarrow> nat)" where
  "account st = (exited st, drivers st, \<lambda>k. if k < length (drivers st) then answers_shown st k + on_the_way st k else 0)"

definition settled :: "nat \<Rightarrow> taxi \<Rightarrow> bool" where
  "settled cap st \<longleftrightarrow> cap = 0 \<or> exited st \<or> (\<forall>k < length (drivers st). fifos st (Req k) = [] \<and> fifos st (Rsp k) = [])"

definition workload :: "taxi \<Rightarrow> nat \<times> nat" where
  "workload st = (\<Sum>k < length (drivers st). length (fifos st (Req k)), \<Sum>k < length (drivers st). length (fifos st (Rsp k)))"

section \<open>Steps towards rest\<close>

lemma sum_upd_less:
  fixes f g :: "nat \<Rightarrow> nat"
  assumes "k < n" "g k < f k" "\<And>j. j \<noteq> k \<Longrightarrow> g j = f j"
  shows "(\<Sum>j < n. g j) < (\<Sum>j < n. f j)"
proof (rule sum_strict_mono_ex1)
  have "g j \<le> f j" for j using assms(2,3) by (cases "j = k") auto
  then show "\<forall>j \<in> {..<n}. g j \<le> f j" by blast
qed (use assms in auto)

lemma show_answer:
  assumes i: "taxi_inv st" "k < length (drivers st)" "\<not> exited st" and m: "fifos st (Rsp k) = msg # ms"
  obtains l where "answers_for (d_pid (drivers st ! k)) l"
    "taxi_step cap st (print_line l (st\<lparr>fifos := (fifos st)(Rsp k := ms)\<rparr>))"
proof -
  let ?d = "drivers st ! k"
  have "files st (rsp_fd ?d) = Some (Rsp k)" using i(1,2) by (simp add: taxi_inv_def)
  moreover have "answer (d_pid ?d) msg" using inv_fifo [OF i(1), of "Rsp k"] m by simp
  then obtain h where h: "resp_handlers (m_type msg) = Some h" "\<And>pl. answers_for (d_pid ?d) (h (d_pid ?d) pl)"
    by (auto simp: answer_def handle_status_rsp_def)
  ultimately have "process_driver_message (rsp_fd ?d) st
      = print_line (h (d_pid ?d) (m_payload msg)) (st\<lparr>fifos := (fifos st)(Rsp k := ms)\<rparr>)"
    using one_ready(2) [OF i] m by (simp add: process_driver_message_def Let_def)
  then have "taxi_step cap st (print_line (h (d_pid ?d) (m_payload msg)) (st\<lparr>fifos := (fifos st)(Rsp k := ms)\<rparr>))"
    using taxi_step.server [OF i(3), of None cap "\<lambda>fd. fd = rsp_fd ?d"] one_ready(1) [OF i, of cap] by simp
  with h(2) show ?thesis by (rule that)
qed

lemma answer_request:
  assumes i: "taxi_inv st" "k < length (drivers st)" and m: "fifos st (Req k) = msg # ms" "fifos st (Rsp k) = []" and "0 < cap"
  obtains rem reply where
    "taxi_step cap st (st\<lparr>timers := (timers st)(k := rem), fifos := (fifos st)(Req k := ms, Rsp k := [reply])\<rparr>)"
proof -
  have "request msg" using inv_fifo [OF i(1), of "Req k"] m by simp
  then obtain rem reply where "driver_message (d_pid (drivers st ! k)) (timers st k) msg = (rem, [reply])"
    by (cases "0 < timers st k") (auto simp: request_def driver_message_book)
  then have "driver_round cap k st = st\<lparr>timers := (timers st)(k := rem), fifos := (fifos st)(Req k := ms, Rsp k := [reply])\<rparr>"
    using m assms(5) by (simp add: driver_round_def Let_def)
  then show ?thesis using that taxi_step.driver [OF i(2), of cap] by metis
qed

lemma d_pid_inj: "taxi_inv st \<Longrightarrow> j < length (drivers st) \<Longrightarrow> k < length (drivers st) \<Longrightarrow>
    d_pid (drivers st ! j) = d_pid (drivers st ! k) \<longleftrightarrow> j = k"
  by (auto simp: taxi_inv_def distinct_conv_nth)

lemma answers_for_one: "answers_for p l \<Longrightarrow> answers_for q l \<longleftrightarrow> p = q"
  by (cases l) auto

lemma taxi_progress:
  assumes i: "taxi_inv st" and "\<not> settled cap st"
  shows "\<exists>st'. taxi_step cap st st' \<and> account st' = account st \<and> (workload st', workload st) \<in> less_than <*lex*> less_than"
proof (cases "\<exists>k < length (drivers st). fifos st (Rsp k) \<noteq> []")
  case True
  then obtain k msg ms where k: "k < length (drivers st)" "fifos st (Rsp k) = msg # ms" by (auto simp: neq_Nil_conv)
  have "\<not> exited st" using assms(2) by (simp add: settled_def)
  from show_answer [OF i k(1) this k(2)] obtain l where l: "answers_for (d_pid (drivers st ! k)) l"
      and st: "taxi_step cap st (print_line l (st\<lparr>fifos := (fifos st)(Rsp k := ms)\<rparr>))" by metis
  let ?st = "print_line l (st\<lparr>fifos := (fifos st)(Rsp k := ms)\<rparr>)"
  have "answers_shown ?st j + on_the_way ?st j = answers_shown st j + on_the_way st j" if "j < length (drivers st)" for j
    using k answers_for_one [OF l] d_pid_inj [OF i k(1) that]
    by (auto simp: answers_shown_def on_the_way_def print_line_def)
  then have "account ?st = account st" by (auto simp: account_def print_line_def)
  moreover have "(workload ?st, workload st) \<in> less_than <*lex*> less_than"
    using sum_upd_less [of k "length (drivers st)" "\<lambda>j. length (fifos ?st (Rsp j))" "\<lambda>j. length (fifos st (Rsp j))"] k
    by (simp add: workload_def print_line_def)
  ultimately show ?thesis using st by blast
next
  case False
  with assms(2) obtain k msg ms where k: "k < length (drivers st)" "fifos st (Req k) = msg # ms"
    by (auto simp: settled_def neq_Nil_conv)
  have rsp: "fifos st (Rsp k) = []" and "0 < cap" using False k(1) assms(2) by (auto simp: settled_def)
  from answer_request [OF i k rsp this(2)] obtain rem reply where
    st: "taxi_step cap st (st\<lparr>timers := (timers st)(k := rem), fifos := (fifos st)(Req k := ms, Rsp k := [reply])\<rparr>)" by metis
  let ?st = "st\<lparr>timers := (timers st)(k := rem), fifos := (fifos st)(Req k := ms, Rsp k := [reply])\<rparr>"
  have "account ?st = account st" using k rsp by (auto simp: account_def answers_shown_def on_the_way_def)
  moreover have "(workload ?st, workload st) \<in> less_than <*lex*> less_than"
    using sum_upd_less [of k "length (drivers st)" "\<lambda>j. length (fifos ?st (Req j))" "\<lambda>j. length (fifos st (Req j))"] k
    by (simp add: workload_def)
  ultimately show ?thesis using st by blast
qed

interpretation taxis: draining_system "taxi_step cap" "\<lambda>st. st = init_taxi" taxi_inv "settled cap" account workload for cap
  by unfold_locales (rule taxi_progress)

text \<open>C24: From every reachable state in which the server runs, server and drivers can take turns until all FIFOs are empty,
  and then every request that was in a FIFO has been answered and every answer shown for the driver it came from:
  none is lost, doubled or shown for another driver.\<close>
theorem taxi_can_settle:
  assumes "taxi_reach cap st" "0 < cap" "\<not> exited st"
  shows "\<exists>st'. (taxi_step cap)\<^sup>*\<^sup>* st st' \<and> drivers st' = drivers st \<and> (\<forall>k < length (drivers st).
    on_the_way st' k = 0 \<and> answers_shown st' k = answers_shown st k + on_the_way st k)"
proof -
  obtain st' where st': "(taxi_step cap)\<^sup>*\<^sup>* st st'" "account st' = account st" "settled cap st'"
    using taxis.reachable_drains [OF refl assms(1)] by blast
  then have d: "drivers st' = drivers st" "\<not> exited st'" using assms(3) by (simp_all add: account_def)
  then have e: "on_the_way st' k = 0" if "k < length (drivers st)" for k
    using st'(3) assms(2) that by (simp add: settled_def on_the_way_def)
  moreover have "answers_shown st' k = answers_shown st k + on_the_way st k" if "k < length (drivers st)" for k
  proof -
    have "snd (snd (account st')) k = snd (snd (account st)) k" by (simp only: st'(2))
    with d(1) e [OF that] that show ?thesis by (simp add: account_def)
  qed
  ultimately show ?thesis using st'(1) d(1) by blast
qed

text \<open>A status is asked for, and the driver has not had its turn.\<close>

definition asked_driver :: taxi where
  "asked_driver = server_round 10 (Some (Some (get_status_line 100), None)) (\<lambda>_. False) one_driver"

lemma asked_driver_facts:
  "drivers asked_driver = drivers one_driver" "\<not> exited asked_driver" "on_the_way asked_driver 0 = 1"
  "answers_shown asked_driver 0 = answers_shown one_driver 0"
proof -
  have i: "taxi_inv one_driver" by (rule inv_reach [OF one_driver_reach])
  have "files one_driver 5 = Some (Req 0)" using i by (simp add: taxi_inv_def one_driver_facts)
  moreover have "process_cli_input 10 None (Some (get_status_line 100)) one_driver = handle_get_status 10 100 one_driver"
    by (rule get_status_read) (simp add: is_int32_def)
  ultimately have a: "asked_driver = one_driver\<lparr>fifos := (\<lambda>_. [])(Req 0 := [\<lparr>m_type = MSG_STATUS_REQ, m_payload = 0, m_driver_pid = 0\<rparr>])\<rparr>"
    by (simp add: asked_driver_def server_round_def handle_get_status_def one_driver_facts fifo_write_def)
  show "drivers asked_driver = drivers one_driver" "\<not> exited asked_driver" "on_the_way asked_driver 0 = 1"
    "answers_shown asked_driver 0 = answers_shown one_driver 0"
    by (simp_all add: a one_driver_facts on_the_way_def answers_shown_def)
qed

lemma asked_driver_reach: "taxi_reach 10 asked_driver"
proof -
  have "taxi_step 10 one_driver asked_driver"
    unfolding asked_driver_def by (rule taxi_step.server) (simp_all add: one_driver_facts fresh_def)
  with one_driver_reach show ?thesis by (rule rtranclp.rtrancl_into_rtrancl)
qed

theorem taxi_can_settle_witness:
  "\<exists>st'. (taxi_step 10)\<^sup>*\<^sup>* asked_driver st' \<and> on_the_way st' 0 = 0 \<and> answers_shown st' 0 = answers_shown one_driver 0 + 1"
  using taxi_can_settle [OF asked_driver_reach] by (auto simp: asked_driver_facts one_driver_facts)

end
