(* ===== verification/Copier.thy ===== *)
theory Copier
  imports CLib
begin

text \<open>
  The file copier of \<^verbatim>\<open>module3/task01\<close> (\<^verbatim>\<open>copier.c\<close>, \<^verbatim>\<open>main.c\<close>): the options, and for each file
  the two processes joined by a data channel and a channel for the ready signal, either pipes or
  FIFOs. What the kernel does with each call is the environment; calls that never return make the
  result \<open>None\<close>.
\<close>

section \<open>Options\<close>

text \<open>
  The loop over \<open>argv\<close>: a \<open>-p\<close> and the word behind it are taken out by moving the rest two places
  down, and the same index is looked at again. \<open>None\<close> is the error of a missing name.
\<close>

function parse_options :: "string list \<Rightarrow> nat \<Rightarrow> string option \<Rightarrow> (string list \<times> string option) option" where
  "parse_options argv i fifo =
     (if i < length argv then
        (if argv ! i = ''-p'' then
           (if i + 1 < length argv then parse_options (take i argv @ drop (i + 2) argv) i (Some (argv ! (i + 1))) else None)
         else parse_options argv (i + 1) fifo)
      else Some (argv, fifo))"
  by pat_completeness auto
termination by (relation "measure (\<lambda>(argv, i, _). length argv - i)") auto

declare parse_options.simps [simp del]

section \<open>Copying between descriptors\<close>

definition BUFFER_SIZE :: nat where "BUFFER_SIZE = 1024"

text \<open>What a \<open>read\<close> gives: at most so many bytes, but one if there is one; or -1.\<close>

datatype read_result = Read nat | Read_error

text \<open>What a \<open>write\<close> gives: the number of bytes taken, or -1, or the signal of a pipe without a reader.\<close>

datatype write_result = Wrote nat | Write_error | Sigpipe

datatype io_status = Done | Failed | Killed

definition read_chunk :: "nat \<Rightarrow> nat \<Rightarrow> byte list \<Rightarrow> byte list" where
  "read_chunk n k s = take (min n (max 1 k)) s"

text \<open>The inner loop: the bytes written, how it ended, and the results of \<open>write\<close> not yet used.\<close>

function write_loop :: "byte list \<Rightarrow> write_result list \<Rightarrow> (byte list \<times> io_status \<times> write_result list) option" where
  "write_loop buf ws =
     (if buf = [] then Some ([], Done, ws)
      else case ws of
          [] \<Rightarrow> None
        | Write_error # ws \<Rightarrow> Some ([], Failed, ws)
        | Sigpipe # ws \<Rightarrow> Some ([], Killed, ws)
        | Wrote k # ws \<Rightarrow>
            map_option (\<lambda>(d, r, ws). (take k buf @ d, r, ws)) (write_loop (drop k buf) ws))"
  by pat_completeness auto
termination by (relation "measure (\<lambda>(_, ws). length ws)") auto

declare write_loop.simps [simp del]

text \<open>
  The loop that both processes have: the parent from the file to the channel, the child from the
  channel to the copy. The bytes written, the sum of the reads, and how it ended.
\<close>

fun copy_loop :: "byte list \<Rightarrow> read_result list \<Rightarrow> write_result list \<Rightarrow> (byte list \<times> nat \<times> io_status) option" where
  "copy_loop s [] ws = None"
| "copy_loop s (Read_error # rs) ws = Some ([], 0, Failed)"
| "copy_loop s (Read k # rs) ws =
     (let c = read_chunk BUFFER_SIZE k s in
      if c = [] then Some ([], 0, Done)
      else case write_loop c ws of
          None \<Rightarrow> None
        | Some (d, Done, ws) \<Rightarrow>
            map_option (\<lambda>(d', n, r). (d @ d', length c + n, r)) (copy_loop (drop (length c) s) rs ws)
        | Some (d, r, _) \<Rightarrow> Some (d, 0, r))"

section \<open>Header\<close>

definition NAME_LEN :: nat where "NAME_LEN = 256"
definition HEADER_SIZE :: nat where "HEADER_SIZE = NAME_LEN + 8"

definition file_header :: "string \<Rightarrow> nat \<Rightarrow> byte list" where
  "file_header filename file_size = strncpy_field NAME_LEN (NAME_LEN - 1) filename @ enc_le 8 file_size"

definition header_filename :: "byte list \<Rightarrow> string" where "header_filename h = cstr (take NAME_LEN h)"
definition header_size :: "byte list \<Rightarrow> nat" where "header_size h = dec_le (take 8 (drop NAME_LEN h))"

section \<open>The two processes\<close>

record child_env =
  c_ready_ok :: bool
  c_header_read :: nat
  c_malloc_ok :: bool
  c_open_ok :: "string \<Rightarrow> bool"
  c_reads :: "read_result list"
  c_writes :: "write_result list"

text \<open>The copy, whether the sizes differ (a warning), and the exit code.\<close>

record child_end =
  copy :: "(string \<times> byte list) option"
  warned :: bool
  exit_code :: nat

definition child_fails :: child_end where
  "child_fails = \<lparr>copy = None, warned = False, exit_code = 1\<rparr>"

text \<open>\<open>run_child_process\<close> on what comes through the data channel before it is closed.\<close>

definition run_child_process :: "child_env \<Rightarrow> byte list \<Rightarrow> child_end option" where
  "run_child_process e stream =
     (if \<not> c_ready_ok e then Some child_fails
      else let header = read_chunk HEADER_SIZE (c_header_read e) stream in
        if length header < HEADER_SIZE then Some child_fails
        else if \<not> c_malloc_ok e then Some child_fails
        else let dest_filename = header_filename header @ ''.copy'' in
          if \<not> c_open_ok e dest_filename then Some child_fails
          else map_option (\<lambda>(d, total_written, r).
              \<lparr>copy = Some (dest_filename, d), warned = (r = Done \<and> total_written \<noteq> header_size header),
               exit_code = (if r = Done then 0 else 1)\<rparr>)
            (copy_loop (drop HEADER_SIZE stream) (c_reads e) (c_writes e)))"

record parent_env =
  source :: "byte list option"
  st_size :: "nat option"
  p_ready :: bool
  p_header_ok :: bool
  p_reads :: "read_result list"
  p_writes :: "write_result list"
  waitpid_ok :: bool

datatype copy_status = Returned int | Killed_by_sigpipe

text \<open>
  The parent up to its \<open>waitpid\<close>: what it has put into the data channel, and its \<open>status\<close> so far.
  \<open>p_ready\<close> says whether the ready signal came.
\<close>

definition parent_sends :: "parent_env \<Rightarrow> string \<Rightarrow> (byte list \<times> io_status) option" where
  "parent_sends e src_filename =
     (case source e of
        None \<Rightarrow> Some ([], Failed)
      | Some content \<Rightarrow>
          (case st_size e of
             None \<Rightarrow> Some ([], Failed)
           | Some file_size \<Rightarrow>
               if \<not> p_ready e then Some ([], Failed)
               else if \<not> p_header_ok e then Some ([], Failed)
               else map_option (\<lambda>(d, n, r). (file_header src_filename file_size @ d, r))
                 (copy_loop content (p_reads e) (p_writes e))))"

text \<open>
  Both processes of one file: the parent's result and the child's end. An error before the data
  returns -1 without a look at the child's exit code.
\<close>

definition run_both :: "parent_env \<Rightarrow> child_env \<Rightarrow> string \<Rightarrow> (copy_status \<times> child_end) option" where
  "run_both p c src_filename =
     (case parent_sends (p\<lparr>p_ready := p_ready p \<and> c_ready_ok c\<rparr>) src_filename of
        None \<Rightarrow> None
      | Some (stream, r) \<Rightarrow>
          map_option (\<lambda>child.
              (if r = Killed then Killed_by_sigpipe
               else if r = Done \<and> waitpid_ok p \<and> exit_code child = 0 then Returned 0 else Returned (- 1), child))
            (run_child_process c stream))"

section \<open>Channels\<close>

text \<open>
  The descriptors: \<open>pipe\<close> takes the two lowest free ones. The code keeps only the read end of the
  data pipe and the write end of the other one and counts to the other ends.
\<close>

definition lowest_free :: "nat list \<Rightarrow> nat" where
  "lowest_free fds = (case filter (\<lambda>n. n \<notin> set fds) [0..<Suc (length fds)] of [] \<Rightarrow> length fds | n # _ \<Rightarrow> n)"

definition pipe_fds :: "nat list \<Rightarrow> nat \<times> nat" where
  "pipe_fds fds = (let r = lowest_free fds in (r, lowest_free (r # fds)))"

record channel_ends =
  data_read :: nat
  data_write :: nat
  sync_read :: nat
  sync_write :: nat

definition open_pipes :: "nat list \<Rightarrow> channel_ends" where
  "open_pipes fds =
     (let (a, b) = pipe_fds fds; (c, d) = pipe_fds (a # b # fds) in
      \<lparr>data_read = a, data_write = b, sync_read = c, sync_write = d\<rparr>)"

text \<open>The ends the processes then use: the child its \<open>(data, sync)\<close>, the parent likewise.\<close>

definition child_ends :: "channel_ends \<Rightarrow> nat \<times> nat" where
  "child_ends p = (data_read p, sync_write p)"

definition parent_ends :: "channel_ends \<Rightarrow> nat \<times> nat" where
  "parent_ends p = (data_read p + 1, sync_write p - 1)"

text \<open>The descriptors the child still has when it runs, and the parent.\<close>

definition child_open :: "nat list \<Rightarrow> channel_ends \<Rightarrow> nat set" where
  "child_open fds p = (set fds \<union> {data_read p, data_write p, sync_read p, sync_write p})
     - {data_read p + 1, sync_write p - 1}"

definition parent_open :: "nat list \<Rightarrow> channel_ends \<Rightarrow> nat set" where
  "parent_open fds p = (set fds \<union> {data_read p, data_write p, sync_read p, sync_write p})
     - {data_read p, sync_write p}"

text \<open>When \<open>fork\<close> fails.\<close>

definition fork_failed_open :: "nat list \<Rightarrow> channel_ends \<Rightarrow> nat set" where
  "fork_failed_open fds p = (set fds \<union> {data_read p, data_write p, sync_read p, sync_write p}) - {data_read p, sync_write p}"

record channel_env =
  make_first_ok :: bool
  make_second_ok :: bool
  fork_ok :: bool
  child_sync_ok :: bool
  child_data_ok :: bool
  parent_sync_ok :: bool
  parent_data_ok :: bool

text \<open>
  The opening of the FIFOs, in which each side waits for the other: whether both sides have both
  ends, or one of them is left waiting for ever (\<open>None\<close>), or the parent gives up with -1 after the
  end of a child that gave up as well.
\<close>

definition open_fifos :: "channel_env \<Rightarrow> bool option" where
  "open_fifos e =
     (if \<not> child_sync_ok e then (if parent_sync_ok e then None else Some False)
      else if \<not> parent_sync_ok e then None
      else if \<not> child_data_ok e then (if parent_data_ok e then None else Some False)
      else if \<not> parent_data_ok e then None
      else Some True)"

text \<open>The parent's result and the child's end, if a child was started and got as far.\<close>

definition copy_file ::
  "channel_env \<Rightarrow> parent_env \<Rightarrow> child_env \<Rightarrow> string \<Rightarrow> string option \<Rightarrow> (copy_status \<times> child_end option) option" where
  "copy_file e p c src_filename fifo_name =
     (if \<not> make_first_ok e then Some (Returned (- 1), None)
      else if \<not> make_second_ok e then Some (Returned (- 1), None)
      else if \<not> fork_ok e then Some (Returned (- 1), None)
      else case (if fifo_name = None then Some True else open_fifos e) of
          None \<Rightarrow> None
        | Some False \<Rightarrow> Some (Returned (- 1), None)
        | Some True \<Rightarrow> map_option (\<lambda>(r, child). (r, Some child)) (run_both p c src_filename))"

text \<open>
  The files one after the other, each with its environment; the copies made and the exit code. A
  parent that is killed copies no further file.
\<close>

fun copy_files ::
  "string option \<Rightarrow> (string \<times> channel_env \<times> parent_env \<times> child_env) list \<Rightarrow> int \<Rightarrow> (child_end option list \<times> copy_status) option" where
  "copy_files fifo [] overall = Some ([], Returned overall)"
| "copy_files fifo ((f, e, p, c) # fs) overall =
     (case copy_file e p c f fifo of
        None \<Rightarrow> None
      | Some (Killed_by_sigpipe, child) \<Rightarrow> Some ([child], Killed_by_sigpipe)
      | Some (Returned r, child) \<Rightarrow>
          map_option (\<lambda>(cs, st). (child # cs, st)) (copy_files fifo fs (if r \<noteq> 0 then 1 else overall)))"

definition copier_main ::
  "string list \<Rightarrow> (string \<Rightarrow> channel_env \<times> parent_env \<times> child_env) \<Rightarrow> (child_end option list \<times> copy_status) option" where
  "copier_main argv env =
     (case parse_options argv 1 None of
        None \<Rightarrow> Some ([], Returned 1)
      | Some (argv, fifo) \<Rightarrow>
          if length argv < 2 then Some ([], Returned 1)
          else copy_files fifo (map (\<lambda>f. (f, env f)) (tl argv)) 0)"

end
