(* ===== verification/CopierProofs.thy ===== *)
theory CopierProofs
  imports Copier
begin

text \<open>
  The option loop is equivalent to a reference definition; a file copier that reports success has
  made complete copies, whatever pieces the kernel makes of reads and writes; it does report
  success, after a bounded number of calls, when no call fails; and what goes wrong with descriptors,
  FIFOs and long names.
\<close>

section \<open>Options\<close>

text \<open>The reference: the files without the options, and the name of the last option.\<close>

fun options_spec :: "string list \<Rightarrow> (string list \<times> string option) option" where
  "options_spec [] = Some ([], None)"
| "options_spec [a] = (if a = ''-p'' then None else Some ([a], None))"
| "options_spec (a # b # as) =
     (if a = ''-p'' then map_option (\<lambda>(fs, q). (fs, if q = None then Some b else q)) (options_spec as)
      else map_option (\<lambda>(fs, q). (a # fs, q)) (options_spec (b # as)))"

lemma parse_options_from:
  "parse_options (pre @ args) (length pre) fifo =
     map_option (\<lambda>(fs, q). (pre @ fs, if q = None then fifo else q)) (options_spec args)"
proof (induction args arbitrary: pre fifo rule: options_spec.induct)
  case 1
  show ?case by (subst parse_options.simps) simp
next
  case (2 a)
  show ?case
    by (subst parse_options.simps, simp, subst parse_options.simps, simp)
next
  case (3 a b as)
  show ?case
  proof (cases "a = ''-p''")
    case True
    then show ?thesis using "3.IH"(1) [of pre "Some b"]
      by (subst parse_options.simps) (auto simp: nth_append option.map_comp comp_def split_beta intro!: arg_cong2 [where f = map_option])
  next
    case False
    then show ?thesis using "3.IH"(2) [of "pre @ [a]" fifo]
      by (subst parse_options.simps) (auto simp: nth_append option.map_comp comp_def split_beta intro!: arg_cong2 [where f = map_option])
  qed
qed

text \<open>C29: The loop that takes the options out of \<open>argv\<close> in place gives the files in their order and the name of the
  last option, and fails exactly when an option has no name.\<close>
theorem option_loop_equivalent:
  "parse_options (prog # args) 1 None = map_option (\<lambda>(fs, q). (prog # fs, q)) (options_spec args)"
  using parse_options_from [of "[prog]" args None] by (simp add: if_split [of "\<lambda>x. x"] cong: if_cong)

section \<open>The loops\<close>

lemma write_loop_complete: "write_loop buf ws = Some (d, Done, ws') \<Longrightarrow> d = buf"
proof (induction buf ws arbitrary: d rule: write_loop.induct)
  case (1 buf ws)
  from "1.prems" show ?case
    by (subst (asm) write_loop.simps) (auto split: if_splits list.splits write_result.splits dest: "1.IH")
qed

lemma read_chunk_Nil [simp]: "read_chunk BUFFER_SIZE k s = [] \<longleftrightarrow> s = []"
  by (auto simp: read_chunk_def BUFFER_SIZE_def min_def max_def)

lemma read_chunk_prefix: "read_chunk n k s @ drop (length (read_chunk n k s)) s = s"
  by (simp add: read_chunk_def min_def)

text \<open>A loop that ends regularly has copied all of its input.\<close>

lemma copy_loop_complete: "copy_loop s rs ws = Some (d, n, Done) \<Longrightarrow> d = s \<and> n = length s"
proof (induction s rs ws arbitrary: d n rule: copy_loop.induct)
  case (3 s k rs ws)
  let ?c = "read_chunk BUFFER_SIZE k s"
  show ?case
  proof (cases "s = []")
    case True
    with 3 show ?thesis by simp
  next
    case False
    with "3.prems" obtain w ws' d' n' where w: "write_loop ?c ws = Some (w, Done, ws')"
      and rest: "copy_loop (drop (length ?c) s) rs ws' = Some (d', n', Done)" and d: "d = w @ d'" "n = length ?c + n'"
      by (auto simp: Let_def split: option.splits io_status.splits prod.splits)
    have "d' = drop (length ?c) s \<and> n' = length (drop (length ?c) s)"
      using "3.IH" [OF refl _ w refl refl _ rest] False by simp
    with write_loop_complete [OF w] d read_chunk_prefix [of BUFFER_SIZE k s] show ?thesis
      by (metis length_append)
  qed
qed simp_all

definition progress :: "write_result \<Rightarrow> bool" where
  "progress w \<longleftrightarrow> (\<exists>k. w = Wrote (Suc k))"

lemma write_loop_progress:
  "list_all progress ws \<Longrightarrow> length buf \<le> length ws \<Longrightarrow>
   \<exists>ws'. write_loop buf ws = Some (buf, Done, ws') \<and> list_all progress ws' \<and> length ws \<le> length ws' + length buf"
proof (induction buf ws rule: write_loop.induct)
  case (1 buf ws)
  show ?case
  proof (cases "buf = []")
    case True
    with 1 show ?thesis by (subst write_loop.simps) simp
  next
    case False
    then obtain k us where ws: "ws = Wrote (Suc k) # us" using "1.prems" by (cases ws) (auto simp: progress_def)
    obtain ws' where w: "write_loop (drop (Suc k) buf) us = Some (drop (Suc k) buf, Done, ws')" "list_all progress ws'"
        "length us \<le> length ws' + length (drop (Suc k) buf)"
    proof -
      have "length (drop (Suc k) buf) \<le> length us" using "1.prems"(2) ws by auto
      with "1.IH" [OF False ws refl] "1.prems"(1) ws show thesis using that by auto
    qed
    have "write_loop buf ws = Some (buf, Done, ws')" by (subst write_loop.simps) (simp add: False ws w(1))
    moreover have "length ws \<le> length ws' + length buf"
      using w(3) False by (cases buf) (simp_all add: ws)
    ultimately show ?thesis using w(2) by blast
  qed
qed

lemma copy_loop_progress:
  assumes "list_all (\<lambda>r. r \<noteq> Read_error) rs" "length s < length rs" "list_all progress ws" "length s \<le> length ws"
  shows "copy_loop s rs ws = Some (s, length s, Done)"
  using assms
proof (induction s rs ws rule: copy_loop.induct)
  case (3 s k rs ws)
  let ?c = "read_chunk BUFFER_SIZE k s"
  show ?case
  proof (cases "s = []")
    case False
    have split: "?c @ drop (length ?c) s = s" by (rule read_chunk_prefix)
    then have len: "length ?c + length (drop (length ?c) s) = length s" by (metis length_append)
    obtain ws' where w: "write_loop ?c ws = Some (?c, Done, ws')" "list_all progress ws'" "length ws \<le> length ws' + length ?c"
      using write_loop_progress [of ws ?c] 3 len by auto
    have "0 < length ?c" using False by (metis length_greater_0_conv read_chunk_Nil)
    moreover have "length s \<le> length rs" "length s \<le> length ws" using "3.prems" by simp_all
    ultimately have "length (drop (length ?c) s) < length rs" "length (drop (length ?c) s) \<le> length ws'"
      using len w(3) by linarith+
    then have "copy_loop (drop (length ?c) s) rs ws' = Some (drop (length ?c) s, length (drop (length ?c) s), Done)"
      using "3.IH" [OF refl _ w(1) refl refl] False "3.prems"(1) w(2) by simp
    with w(1) False split len show ?thesis by (simp add: Let_def)
  qed simp
qed simp_all

section \<open>Both processes\<close>

lemma length_file_header [simp]: "length (file_header f n) = HEADER_SIZE"
  by (simp add: file_header_def HEADER_SIZE_def NAME_LEN_def)

lemma file_header_fields:
  "header_filename (file_header f n) = take 255 (cstr f)"
  "n < 2 ^ 64 \<Longrightarrow> header_size (file_header f n) = n"
  by (simp_all add: header_filename_def header_size_def file_header_def NAME_LEN_def cstr_strncpy_field dec_enc_le)

lemma read_header:
  "read_chunk HEADER_SIZE k (file_header f n @ d) = take (min HEADER_SIZE (max 1 k)) (file_header f n)"
  by (simp add: read_chunk_def)

text \<open>The name and the content of the copy that a file should get.\<close>

definition copy_name :: "string \<Rightarrow> string" where
  "copy_name f = take 255 (cstr f) @ ''.copy''"

lemma run_both_complete:
  assumes "run_both p c f = Some (Returned 0, child)"
  shows "\<exists>content. source p = Some content \<and> copy child = Some (copy_name f, content)"
proof -
  obtain stream where sends: "parent_sends (p\<lparr>p_ready := p_ready p \<and> c_ready_ok c\<rparr>) f = Some (stream, Done)"
    and child: "run_child_process c stream = Some child" "exit_code child = 0"
    using assms by (auto simp: run_both_def split: option.splits prod.splits if_splits)
  then obtain content n d m where s: "source p = Some content" "stream = file_header f n @ d"
    and loop: "copy_loop content (p_reads p) (p_writes p) = Some (d, m, Done)"
    by (auto simp: parent_sends_def split: option.splits if_splits)
  have "d = content" using copy_loop_complete [OF loop] by simp
  have whole: "read_chunk HEADER_SIZE (c_header_read c) stream = file_header f n"
    using child s(2) by (auto simp: run_child_process_def Let_def read_header child_fails_def min_def split: if_splits)
  with child s(2) obtain w k where
    "copy_loop d (c_reads c) (c_writes c) = Some (w, k, Done)" "copy child = Some (copy_name f, w)"
    by (auto simp: run_child_process_def Let_def child_fails_def copy_name_def file_header_fields split: if_splits)
  with copy_loop_complete [of d "c_reads c" "c_writes c" w k] \<open>d = content\<close> s(1) show ?thesis by auto
qed

lemma copy_file_complete:
  assumes "copy_file e p c f fifo = Some (Returned 0, child)"
  shows "\<exists>ch content. child = Some ch \<and> source p = Some content \<and> copy ch = Some (copy_name f, content)"
proof -
  obtain ch where "run_both p c f = Some (Returned 0, ch)" "child = Some ch"
    using assms by (auto simp: copy_file_def split: if_splits option.splits bool.splits)
  with run_both_complete [of p c f ch] show ?thesis by blast
qed

lemma copy_files_complete:
  assumes "copy_files fifo fs overall = Some (cs, Returned 0)"
  shows "overall = 0 \<and> map (\<lambda>c. Option.bind c copy) cs =
    map (\<lambda>(f, e, p, c). map_option (\<lambda>content. (copy_name f, content)) (source p)) fs"
  using assms
proof (induction fifo fs overall arbitrary: cs rule: copy_files.induct)
  case (2 fifo f e p c fs overall)
  obtain r child where r: "copy_file e p c f fifo = Some (Returned r, child)"
    using "2.prems" by (auto split: option.splits copy_status.splits prod.splits)
  with "2.prems" obtain cs' where cs: "cs = child # cs'"
    "copy_files fifo fs (if r \<noteq> 0 then 1 else overall) = Some (cs', Returned 0)" by auto
  have ih: "(if r \<noteq> 0 then 1 else overall) = 0 \<and> map (\<lambda>c. Option.bind c copy) cs' =
      map (\<lambda>(f, e, p, c). map_option (\<lambda>content. (copy_name f, content)) (source p)) fs"
    using "2.IH" [OF r refl refl cs(2)] .
  then have "r = 0" "overall = 0" by (simp_all split: if_splits)
  with r obtain ch content where "child = Some ch" "source p = Some content" "copy ch = Some (copy_name f, content)"
    using copy_file_complete [of e p c f fifo child] by auto
  with ih cs \<open>overall = 0\<close> show ?case by simp
qed simp

text \<open>C4: When the program exits with 0, every file named in its arguments has been copied completely, whatever
  pieces the kernel made of the reads and writes of both processes: the copy of each holds exactly what was read.\<close>
theorem exit_zero_means_copied:
  assumes "copier_main (prog # args) env = Some (cs, Returned 0)"
  shows "\<exists>files fifo. options_spec args = Some (files, fifo) \<and> files \<noteq> []
    \<and> map (\<lambda>c. Option.bind c copy) cs =
        map (\<lambda>f. map_option (\<lambda>content. (copy_name f, content)) (source (fst (snd (env f))))) files"
proof -
  have "parse_options (prog # args) 1 None = map_option (\<lambda>(fs, q). (prog # fs, q)) (options_spec args)"
    using parse_options_from [of "[prog]" args None] by (simp add: if_split [of "\<lambda>x. x"] cong: if_cong)
  with assms obtain files fifo where o: "options_spec args = Some (files, fifo)" "files \<noteq> []"
    and "copy_files fifo (map (\<lambda>f. (f, env f)) files) 0 = Some (cs, Returned 0)"
    by (auto simp: copier_main_def split: option.splits if_splits)
  with copy_files_complete [of fifo "map (\<lambda>f. (f, env f)) files" 0 cs] show ?thesis
    by (auto simp: split_beta comp_def)
qed

text \<open>An environment in which everything goes well, for a file with two bytes.\<close>

definition good_parent :: parent_env where
  "good_parent = \<lparr>source = Some ''hi'', st_size = Some 2, p_ready = True, p_header_ok = True,
     p_reads = [Read 1, Read 1, Read 1], p_writes = [Wrote 1, Wrote 1], waitpid_ok = True\<rparr>"

definition good_child :: child_env where
  "good_child = \<lparr>c_ready_ok = True, c_header_read = HEADER_SIZE, c_malloc_ok = True, c_open_ok = (\<lambda>_. True),
     c_reads = [Read 9, Read 9, Read 9], c_writes = [Wrote 1, Wrote 1]\<rparr>"

definition good_channel :: channel_env where
  "good_channel = \<lparr>make_first_ok = True, make_second_ok = True, fork_ok = True, child_sync_ok = True, child_data_ok = True,
     parent_sync_ok = True, parent_data_ok = True\<rparr>"

text \<open>What has to go well: no call fails, each write takes at least a byte, and there are as many calls as bytes
  (and a read for the end).\<close>

definition parent_good :: "parent_env \<Rightarrow> byte list \<Rightarrow> bool" where
  "parent_good p content \<longleftrightarrow> source p = Some content \<and> st_size p = Some (length content) \<and> p_ready p \<and> p_header_ok p
     \<and> waitpid_ok p \<and> list_all (\<lambda>r. r \<noteq> Read_error) (p_reads p) \<and> length content < length (p_reads p)
     \<and> list_all progress (p_writes p) \<and> length content \<le> length (p_writes p)"

definition child_good :: "child_env \<Rightarrow> string \<Rightarrow> byte list \<Rightarrow> bool" where
  "child_good c f content \<longleftrightarrow> c_ready_ok c \<and> HEADER_SIZE \<le> c_header_read c \<and> c_malloc_ok c \<and> c_open_ok c (copy_name f)
     \<and> list_all (\<lambda>r. r \<noteq> Read_error) (c_reads c) \<and> length content < length (c_reads c)
     \<and> list_all progress (c_writes c) \<and> length content \<le> length (c_writes c)"

definition channel_good :: "channel_env \<Rightarrow> bool" where
  "channel_good e \<longleftrightarrow> make_first_ok e \<and> make_second_ok e \<and> fork_ok e \<and> child_sync_ok e \<and> child_data_ok e
     \<and> parent_sync_ok e \<and> parent_data_ok e"

lemma copy_file_good:
  assumes "channel_good e" "parent_good p content" "child_good c f content" "length content < 2 ^ 64"
  shows "copy_file e p c f fifo =
    Some (Returned 0, Some \<lparr>copy = Some (copy_name f, content), warned = False, exit_code = 0\<rparr>)"
proof -
  let ?stream = "file_header f (length content) @ content"
  have "copy_loop content (p_reads p) (p_writes p) = Some (content, length content, Done)"
    "copy_loop content (c_reads c) (c_writes c) = Some (content, length content, Done)"
    using assms(2,3) by (auto simp: parent_good_def child_good_def intro!: copy_loop_progress)
  moreover have "read_chunk HEADER_SIZE (c_header_read c) ?stream = file_header f (length content)"
    using assms(3) by (simp add: read_header child_good_def max_def min_def)
  ultimately have "run_child_process c ?stream = Some \<lparr>copy = Some (copy_name f, content), warned = False, exit_code = 0\<rparr>"
    and "parent_sends (p\<lparr>p_ready := p_ready p \<and> c_ready_ok c\<rparr>) f = Some (?stream, Done)"
    using assms(2-4)
    by (simp_all add: run_child_process_def Let_def file_header_fields copy_name_def parent_sends_def parent_good_def child_good_def)
  then have "run_both p c f = Some (Returned 0, \<lparr>copy = Some (copy_name f, content), warned = False, exit_code = 0\<rparr>)"
    using assms(2) by (simp add: run_both_def parent_good_def)
  with assms(1) show ?thesis by (simp add: copy_file_def channel_good_def open_fifos_def)
qed

text \<open>When no call fails, copying a file ends after at most one read and one write per byte in each process (and
  the read that finds the end), makes the complete copy without a warning, and reports success; with pipes and with
  FIFOs alike.\<close>
theorem copying_terminates:
  assumes "channel_good e" "parent_good p content" "child_good c f content" "length content < 2 ^ 64"
  shows "copy_file e p c f fifo =
    Some (Returned 0, Some \<lparr>copy = Some (copy_name f, content), warned = False, exit_code = 0\<rparr>)"
  using assms by (rule copy_file_good)

lemma good_envs: "channel_good good_channel" "parent_good good_parent ''hi''" "child_good good_child ''a.txt'' ''hi''"
  by (simp_all add: channel_good_def good_channel_def parent_good_def good_parent_def child_good_def good_child_def progress_def)

theorem copying_terminates_witness:
  "copy_file good_channel good_parent good_child ''a.txt'' (Some ''/tmp/f'') =
    Some (Returned 0, Some \<lparr>copy = Some (copy_name ''a.txt'', ''hi''), warned = False, exit_code = 0\<rparr>)"
  by (rule copying_terminates [OF good_envs]) simp

lemma good_run:
  "copier_main (''copier'' # [''-p'', ''/tmp/f'', ''a.txt'']) (\<lambda>_. (good_channel, good_parent, good_child)) =
    Some ([Some \<lparr>copy = Some (copy_name ''a.txt'', ''hi''), warned = False, exit_code = 0\<rparr>], Returned 0)"
proof -
  have "parse_options (''copier'' # [''-p'', ''/tmp/f'', ''a.txt'']) 1 None = Some ([''copier'', ''a.txt''], Some ''/tmp/f'')"
    using parse_options_from [of "[''copier'']" "[''-p'', ''/tmp/f'', ''a.txt'']" None] by simp
  moreover have "copy_file good_channel good_parent good_child ''a.txt'' (Some ''/tmp/f'') =
      Some (Returned 0, Some \<lparr>copy = Some (copy_name ''a.txt'', ''hi''), warned = False, exit_code = 0\<rparr>)"
    by (rule copy_file_good [OF good_envs]) simp
  ultimately show ?thesis by (simp add: copier_main_def)
qed

theorem exit_zero_means_copied_witness:
  "\<exists>files fifo. options_spec [''-p'', ''/tmp/f'', ''a.txt''] = Some (files, fifo) \<and> files \<noteq> []
    \<and> map (\<lambda>c. Option.bind c copy) [Some \<lparr>copy = Some (copy_name ''a.txt'', ''hi''), warned = False, exit_code = 0\<rparr>] =
        map (\<lambda>f. map_option (\<lambda>content. (copy_name f, content))
          (source (fst (snd ((\<lambda>_. (good_channel, good_parent, good_child)) f))))) files"
  by (rule exit_zero_means_copied [OF good_run])

section \<open>Descriptors and FIFOs\<close>

lemma lowest_free_eq:
  assumes "n \<notin> set fds" "{0..<n} \<subseteq> set fds"
  shows "lowest_free fds = n"
proof -
  have "card {0..<n} \<le> card (set fds)" using assms(2) by (intro card_mono) simp_all
  then have "n \<le> length fds" using card_length [of fds] by simp
  then have "Suc (length fds) = n + Suc (length fds - n)" by simp
  then have "[0..<Suc (length fds)] = [0..<n] @ n # [Suc n..<n + Suc (length fds - n)]"
    using upt_add_eq_append [of 0 n "Suc (length fds - n)"] upt_conv_Cons [of n "n + Suc (length fds - n)"] by simp
  moreover have "filter (\<lambda>m. m \<notin> set fds) [0..<n] = []" using assms(2) by (auto simp: filter_empty_conv)
  ultimately show ?thesis using assms(1) by (simp add: lowest_free_def)
qed

lemma open_pipes_packed:
  "open_pipes [0..<n] = \<lparr>data_read = n, data_write = n + 1, sync_read = n + 2, sync_write = n + 3\<rparr>"
proof -
  have "lowest_free [0..<n] = n" "lowest_free (n # [0..<n]) = n + 1"
    "lowest_free (n # (n + 1) # [0..<n]) = n + 2" "lowest_free ((n + 2) # n # (n + 1) # [0..<n]) = n + 3"
    by (rule lowest_free_eq; auto)+
  then show ?thesis by (simp add: open_pipes_def pipe_fds_def Let_def)
qed

text \<open>When the descriptors in use have no gap, counting from one end of a pipe finds the other: both processes
  keep exactly their own ends, so that the child sees the end of the data; with a single gap, which an inherited
  descriptor can leave, the parent takes the inherited file for the data channel.\<close>
theorem pipe_ends_by_counting:
  "parent_ends (open_pipes [0..<n]) = (data_write (open_pipes [0..<n]), sync_read (open_pipes [0..<n]))
   \<and> child_open [0..<n] (open_pipes [0..<n]) = {0..<n} \<union> {fst (child_ends (open_pipes [0..<n])), snd (child_ends (open_pipes [0..<n]))}
   \<and> parent_open [0..<n] (open_pipes [0..<n]) = {0..<n} \<union> {fst (parent_ends (open_pipes [0..<n])), snd (parent_ends (open_pipes [0..<n]))}
   \<and> fst (parent_ends (open_pipes ([0..<n] @ [n + 1]))) = n + 1"
proof -
  have "lowest_free ([0..<n] @ [n + 1]) = n" by (rule lowest_free_eq) auto
  then have "data_read (open_pipes ([0..<n] @ [n + 1])) = n"
    by (simp add: open_pipes_def pipe_fds_def Let_def split: prod.split)
  then show ?thesis
    by (auto simp: open_pipes_packed parent_ends_def child_ends_def child_open_def parent_open_def)
qed

lemma fork_failure_leaks: "fork_failed_open [0..<n] (open_pipes [0..<n]) = {0..<n} \<union> {n + 1, n + 2}"
  by (auto simp: open_pipes_packed fork_failed_open_def)

text \<open>A parent that fails to open one of its FIFOs waits for ever for a child that waits for ever for the other end.\<close>
theorem fifo_failure_hangs:
  assumes "make_first_ok e" "make_second_ok e" "fork_ok e" "child_sync_ok e" "child_data_ok e"
    and "\<not> (parent_sync_ok e \<and> parent_data_ok e)"
  shows "copy_file e p c f (Some name) = None"
  using assms by (simp add: copy_file_def open_fifos_def)

theorem fifo_failure_hangs_witness:
  "copy_file (good_channel\<lparr>parent_data_ok := False\<rparr>) good_parent good_child ''a.txt'' (Some ''/tmp/f'') = None"
  by (rule fifo_failure_hangs) (simp_all add: good_channel_def)

end
