(* ===== verification/CopierTests.thy ===== *)
theory CopierTests
  imports CopierProofs
begin

text \<open>
  The test program of the file copier, \<^verbatim>\<open>module3/task01/tester.c\<close>: a disk of named files, the comparison of
  two files in pieces of 512 bytes, and the tests as lists of operations that are interpreted on the model of
  \<open>copy_file\<close>.
\<close>

section \<open>The disk\<close>

type_synonym disk = "string \<Rightarrow> byte list option"

text \<open>What the kernel does when the named file with these bytes is copied.\<close>

type_synonym calls = "string \<Rightarrow> byte list \<Rightarrow> channel_env \<times> parent_env \<times> child_env"

definition create_test_file :: "string \<Rightarrow> string \<Rightarrow> disk \<Rightarrow> disk" where
  "create_test_file path content d = d(path \<mapsto> content)"

definition disk_copy :: "calls \<Rightarrow> string \<Rightarrow> string option \<Rightarrow> disk \<Rightarrow> (copy_status \<times> disk) option" where
  "disk_copy env f fifo d =
     (case env f (case d f of None \<Rightarrow> [] | Some content \<Rightarrow> content) of
        (e, p, c) \<Rightarrow>
          map_option (\<lambda>(r, child). (r, case Option.bind child copy of None \<Rightarrow> d | Some (g, content) \<Rightarrow> d(g \<mapsto> content)))
            (copy_file e (p\<lparr>source := d f\<rparr>) c f fifo))"

section \<open>Comparing files\<close>

definition COMPARE_SIZE :: nat where "COMPARE_SIZE = 512"

text \<open>The loop of \<open>files_equal\<close>; each list holds what the calls of \<open>read\<close> on one file give.\<close>

fun equal_loop :: "byte list \<Rightarrow> byte list \<Rightarrow> read_result list \<Rightarrow> read_result list \<Rightarrow> bool option" where
  "equal_loop s1 s2 (Read k1 # rs1) (Read k2 # rs2) =
     (let buf1 = read_chunk COMPARE_SIZE k1 s1; buf2 = read_chunk COMPARE_SIZE k2 s2 in
      if length buf1 \<noteq> length buf2 then Some False
      else if buf1 = [] then Some True
      else if buf1 \<noteq> buf2 then Some False
      else equal_loop (drop (length buf1) s1) (drop (length buf2) s2) rs1 rs2)"
| "equal_loop s1 s2 (Read_error # rs1) (r2 # rs2) = Some False"
| "equal_loop s1 s2 (r1 # rs1) (Read_error # rs2) = Some False"
| "equal_loop s1 s2 [] rs2 = None"
| "equal_loop s1 s2 rs1 [] = None"

definition files_equal :: "string \<Rightarrow> string \<Rightarrow> read_result list \<Rightarrow> read_result list \<Rightarrow> disk \<Rightarrow> bool option" where
  "files_equal path1 path2 rs1 rs2 d =
     (case (d path1, d path2) of
        (Some s1, Some s2) \<Rightarrow> equal_loop s1 s2 rs1 rs2
      | _ \<Rightarrow> Some False)"

definition full_read :: "read_result \<Rightarrow> bool" where
  "full_read r \<longleftrightarrow> (case r of Read k \<Rightarrow> COMPARE_SIZE \<le> k | Read_error \<Rightarrow> False)"

lemma full_readE: "full_read r \<Longrightarrow> (\<And>k. r = Read k \<Longrightarrow> COMPARE_SIZE \<le> k \<Longrightarrow> P) \<Longrightarrow> P"
  by (cases r) (simp_all add: full_read_def)

lemma read_chunk_full: "COMPARE_SIZE \<le> k \<Longrightarrow> read_chunk COMPARE_SIZE k s = take COMPARE_SIZE s"
  by (simp add: read_chunk_def COMPARE_SIZE_def)

lemma COMPARE_SIZE_pos: "0 < COMPARE_SIZE"
  by (simp add: COMPARE_SIZE_def)

lemma equal_loop_sound: "equal_loop s1 s2 rs1 rs2 = Some True \<Longrightarrow> s1 = s2"
proof (induction s1 s2 rs1 rs2 rule: equal_loop.induct)
  case (1 s1 s2 k1 rs1 k2 rs2)
  let ?b1 = "read_chunk COMPARE_SIZE k1 s1" and ?b2 = "read_chunk COMPARE_SIZE k2 s2"
  have e: "?b1 @ drop (length ?b1) s1 = s1" "?b2 @ drop (length ?b2) s2 = s2"
    by (rule read_chunk_prefix)+
  have len: "length ?b1 = length ?b2" using "1.prems" by (auto simp: Let_def split: if_splits)
  show ?case
  proof (cases "?b1 = []")
    case True
    with len have "?b2 = []" by simp
    with True show ?thesis by (auto simp: read_chunk_def COMPARE_SIZE_def)
  next
    case False
    with "1.prems" len have "?b1 = ?b2" "equal_loop (drop (length ?b1) s1) (drop (length ?b2) s2) rs1 rs2 = Some True"
      by (auto simp: Let_def split: if_splits)
    with "1.IH" [OF refl refl] len False have "drop (length ?b1) s1 = drop (length ?b2) s2" by simp
    with \<open>?b1 = ?b2\<close> e show ?thesis by metis
  qed
qed simp_all

lemma equal_loop_exact:
  assumes "list_all full_read rs1" "list_all full_read rs2" "length s1 < length rs1" "length s1 < length rs2"
  shows "equal_loop s1 s2 rs1 rs2 = Some (s1 = s2)"
  using assms
proof (induction "length s1" arbitrary: s1 s2 rs1 rs2 rule: less_induct)
  case less
  obtain k1 ts1 k2 ts2 where r: "rs1 = Read k1 # ts1" "rs2 = Read k2 # ts2" "COMPARE_SIZE \<le> k1" "COMPARE_SIZE \<le> k2"
    using less.prems by (cases rs1; cases rs2) (auto elim!: full_readE)
  let ?b1 = "take COMPARE_SIZE s1" and ?b2 = "take COMPARE_SIZE s2"
  have split: "s1 = s2 \<longleftrightarrow> ?b1 = ?b2 \<and> drop COMPARE_SIZE s1 = drop COMPARE_SIZE s2"
    by (metis append_take_drop_id)
  show ?case
  proof (cases "s1 = []")
    case True
    then show ?thesis using COMPARE_SIZE_pos by (auto simp: r read_chunk_full Let_def)
  next
    case False
    then have "length (drop (length ?b1) s1) < length s1" using COMPARE_SIZE_pos by (simp add: min_def)
    moreover from this have "length (drop (length ?b1) s1) < length ts1" "length (drop (length ?b1) s1) < length ts2"
      using less.prems(3,4) by (simp_all add: r)
    ultimately have "equal_loop (drop (length ?b1) s1) (drop (length ?b2) s2) ts1 ts2
        = Some (drop (length ?b1) s1 = drop (length ?b2) s2)"
      using less.prems(1,2) by (intro less.hyps) (simp_all add: r)
    moreover have "?b1 = ?b2 \<Longrightarrow> drop (length ?b1) s1 = drop COMPARE_SIZE s1 \<and> drop (length ?b2) s2 = drop COMPARE_SIZE s2"
      by (auto simp: min_def)
    ultimately show ?thesis using False split COMPARE_SIZE_pos
      by (auto simp: r read_chunk_full [OF r(3)] read_chunk_full [OF r(4)] Let_def)
  qed
qed

text \<open>\<open>files_equal\<close> is the equality of the bytes of two existing files when the kernel gives full pieces, as it
  does for files on a disk; whatever pieces it gives, files that it finds equal are.\<close>
theorem files_equal_exact:
  assumes "list_all full_read rs1" "list_all full_read rs2"
    and "\<forall>s. d path1 = Some s \<longrightarrow> length s < length rs1 \<and> length s < length rs2"
  shows "files_equal path1 path2 rs1 rs2 d = Some (d path1 \<noteq> None \<and> d path1 = d path2)
    \<and> (files_equal path1 path2 rs1' rs2' d = Some True \<longrightarrow> d path1 \<noteq> None \<and> d path1 = d path2)"
  using assms equal_loop_exact [OF assms(1,2)] equal_loop_sound
  by (auto simp: files_equal_def split: option.splits)

theorem files_equal_exact_witness:
  "files_equal ''a'' ''b'' [Read 512, Read 512, Read 600] [Read 600, Read 512, Read 512] [''a'' \<mapsto> ''xy'', ''b'' \<mapsto> ''xy'']
     = Some ([''a'' \<mapsto> ''xy'', ''b'' \<mapsto> ''xy''] ''a'' \<noteq> None
         \<and> [''a'' \<mapsto> ''xy'', ''b'' \<mapsto> ''xy''] ''a'' = [''a'' \<mapsto> ''xy'', ''b'' \<mapsto> ''xy''] ''b'')"
  by (rule conjunct1 [OF files_equal_exact]) (simp_all add: full_read_def COMPARE_SIZE_def)

section \<open>The tests\<close>

text \<open>
  What the tests do: \<open>create_test_file\<close>, \<open>copy_file\<close> (the result is kept), \<open>unlink\<close>, the assertions on the result
  of the \<open>n\<close>-th copy and on two files, and the look for the document that ends a test early.
\<close>

datatype test_op =
    Create string string
  | Copy string "string option"
  | Unlink string
  | Copied nat
  | Refused nat
  | Same string string
  | Skip_without string

definition disk_reads :: "string \<Rightarrow> disk \<Rightarrow> read_result list" where
  "disk_reads f d = replicate (Suc (case d f of None \<Rightarrow> 0 | Some s \<Rightarrow> length s)) (Read COMPARE_SIZE)"

text \<open>
  A test: the disk it leaves and whether it passed. An assertion that fails ends it. \<open>None\<close> is a test program that
  waits for ever or is killed.
\<close>

fun run_test :: "calls \<Rightarrow> test_op list \<Rightarrow> int list \<Rightarrow> disk \<Rightarrow> (disk \<times> bool) option" where
  "run_test env [] res d = Some (d, True)"
| "run_test env (Create f s # ops) res d = run_test env ops res (create_test_file f s d)"
| "run_test env (Copy f fifo # ops) res d =
     (case disk_copy env f fifo d of
        Some (Returned r, d) \<Rightarrow> run_test env ops (res @ [r]) d
      | _ \<Rightarrow> None)"
| "run_test env (Unlink f # ops) res d = run_test env ops res (d(f := None))"
| "run_test env (Copied n # ops) res d = (if res ! n = 0 then run_test env ops res d else Some (d, False))"
| "run_test env (Refused n # ops) res d = (if res ! n < 0 then run_test env ops res d else Some (d, False))"
| "run_test env (Same f g # ops) res d =
     (case files_equal f g (disk_reads f d @ disk_reads g d) (disk_reads f d @ disk_reads g d) d of
        None \<Rightarrow> None
      | Some eq \<Rightarrow> if eq then run_test env ops res d else Some (d, False))"
| "run_test env (Skip_without f # ops) res d = (if d f = None then Some (d, True) else run_test env ops res d)"

definition test_unnamed_single :: "test_op list" where
  "test_unnamed_single =
     [Create ''test_f1.txt'' ''Hello from test 1!'', Copy ''test_f1.txt'' None, Copied 0,
      Same ''test_f1.txt'' ''test_f1.txt.copy'']"

definition test_unnamed_multiple :: "test_op list" where
  "test_unnamed_multiple =
     [Create ''test_f2.txt'' ''Content of file 2'', Create ''test_f3.txt'' ''Short content 3'',
      Copy ''test_f2.txt'' None, Copy ''test_f3.txt'' None, Copied 0, Copied 1,
      Same ''test_f2.txt'' ''test_f2.txt.copy'', Same ''test_f3.txt'' ''test_f3.txt.copy'']"

definition test_unnamed_nested :: "test_op list" where
  "test_unnamed_nested =
     [Copy ''test_f1.txt.copy'' None, Copy ''test_f1.txt.copy.copy'' None, Copy ''test_f1.txt.copy.copy.copy'' None,
      Copied 0, Copied 1, Copied 2, Same ''test_f1.txt'' ''test_f1.txt.copy.copy.copy.copy'']"

definition test_named_single :: "test_op list" where
  "test_named_single = [Copy ''test_f1.txt'' (Some ''test_fifo''), Copied 0, Same ''test_f1.txt'' ''test_f1.txt.copy'']"

definition test_named_multiple :: "test_op list" where
  "test_named_multiple =
     [Copy ''test_f2.txt'' (Some ''test_fifo''), Copy ''test_f3.txt'' (Some ''test_fifo''), Copied 0, Copied 1,
      Same ''test_f2.txt'' ''test_f2.txt.copy'', Same ''test_f3.txt'' ''test_f3.txt.copy'']"

definition test_named_nested :: "test_op list" where
  "test_named_nested =
     [Unlink ''test_f1.txt.copy.copy'', Unlink ''test_f1.txt.copy.copy.copy'', Unlink ''test_f1.txt.copy.copy.copy.copy'',
      Copy ''test_f1.txt.copy'' (Some ''test_fifo''), Copy ''test_f1.txt.copy.copy'' (Some ''test_fifo''),
      Copy ''test_f1.txt.copy.copy.copy'' (Some ''test_fifo''),
      Copied 0, Copied 1, Copied 2, Same ''test_f1.txt'' ''test_f1.txt.copy.copy.copy.copy'']"

definition test_nonexistent_file :: "test_op list" where
  "test_nonexistent_file = [Copy ''test_missing_file_xyz.txt'' None, Refused 0]"

definition test_pdf_volume :: "test_op list" where
  "test_pdf_volume =
     [Skip_without ''test_document.pdf'', Copy ''test_document.pdf'' None, Copied 0,
      Same ''test_document.pdf'' ''test_document.pdf.copy'']"

definition all_tests :: "test_op list list" where
  "all_tests = [test_unnamed_single, test_unnamed_multiple, test_unnamed_nested, test_named_single, test_named_multiple,
     test_named_nested, test_nonexistent_file, test_pdf_volume]"

text \<open>\<open>main\<close>: the tests run and those that failed; the exit code is 0 when there is none.\<close>

fun tester_main :: "calls \<Rightarrow> test_op list list \<Rightarrow> nat \<Rightarrow> nat \<Rightarrow> disk \<Rightarrow> (nat \<times> nat) option" where
  "tester_main env [] tests_run tests_failed d = Some (tests_run, tests_failed)"
| "tester_main env (t # ts) tests_run tests_failed d =
     (case run_test env t [] d of
        None \<Rightarrow> None
      | Some (d, passed) \<Rightarrow> tester_main env ts (tests_run + 1) (if passed then tests_failed else tests_failed + 1) d)"

section \<open>The tests pass\<close>

text \<open>No system call fails.\<close>

definition calls_good :: "calls \<Rightarrow> bool" where
  "calls_good env \<longleftrightarrow> (\<forall>f s. length s < 2 ^ 64 \<longrightarrow>
     (case env f s of (e, p, c) \<Rightarrow> channel_good e \<and> parent_good p s \<and> child_good c f s))"

lemma calls_goodD:
  "calls_good env \<Longrightarrow> length s < 2 ^ 64 \<Longrightarrow> env f s = (e, p, c) \<Longrightarrow> channel_good e \<and> parent_good p s \<and> child_good c f s"
  unfolding calls_good_def by (drule spec [of _ f], drule spec [of _ s], simp only: simp_thms prod.case)

lemma disk_copy_good:
  assumes "calls_good env" "d f = Some s" "length s < 2 ^ 64"
  shows "disk_copy env f fifo d = Some (Returned 0, d(copy_name f \<mapsto> s))"
proof -
  obtain e p c where env: "env f s = (e, p, c)" by (cases "env f s")
  note g = calls_goodD [OF assms(1,3) env, THEN conjunct1] calls_goodD [OF assms(1,3) env, THEN conjunct2, THEN conjunct1]
    calls_goodD [OF assms(1,3) env, THEN conjunct2, THEN conjunct2]
  from g(2) have "p\<lparr>source := Some s\<rparr> = p" by (cases p) (simp add: parent_good_def)
  with copy_file_good [OF g assms(3)] env assms(2) show ?thesis by (simp add: disk_copy_def)
qed

lemma disk_copy_missing:
  assumes "calls_good env" "d f = None"
  shows "disk_copy env f None d = Some (Returned (- 1), d)"
proof -
  obtain e p c where env: "env f [] = (e, p, c)" by (cases "env f []")
  have g: "channel_good e" "child_good c f []" using calls_goodD [OF assms(1) _ env] by simp_all
  from g(2) have "run_child_process c [] = Some child_fails"
    by (simp add: run_child_process_def child_good_def read_chunk_def HEADER_SIZE_def Let_def)
  then have "run_both (p\<lparr>source := None\<rparr>) c f = Some (Returned (- 1), child_fails)"
    by (simp add: run_both_def parent_sends_def child_fails_def)
  with g env assms(2) show ?thesis
    by (simp add: disk_copy_def copy_file_def channel_good_def child_fails_def)
qed

lemma Same_passes:
  assumes "d f = Some s" "d g = Some s"
  shows "run_test env (Same f g # ops) res d = run_test env ops res d"
proof -
  have "equal_loop s s (disk_reads f d @ disk_reads g d) (disk_reads f d @ disk_reads g d) = Some (s = s)"
    by (rule equal_loop_exact) (simp_all add: disk_reads_def full_read_def list_all_iff assms)
  then show ?thesis by (simp add: files_equal_def assms)
qed

lemma Copy_passes:
  assumes "calls_good env" "d f = Some s" "length s < 2 ^ 64" "no_nul f" "length f \<le> 255"
  shows "run_test env (Copy f fifo # ops) res d = run_test env ops (res @ [0]) (d(f @ ''.copy'' \<mapsto> s))"
  using disk_copy_good [of env d f s fifo] assms by (simp add: copy_name_def cstr_no_nul)

lemma Copy_refused:
  "calls_good env \<Longrightarrow> d f = None \<Longrightarrow> run_test env (Copy f None # ops) res d = run_test env ops (res @ [- 1]) d"
  by (simp add: disk_copy_missing)

lemmas test_rules = Copy_passes Copy_refused Same_passes create_test_file_def no_nul_def

lemma tests_pass:
  assumes "calls_good env" "d ''test_missing_file_xyz.txt'' = None"
    and "\<And>s. d ''test_document.pdf'' = Some s \<Longrightarrow> length s < 2 ^ 64"
  shows "tester_main env all_tests 0 0 d = Some (8, 0)"
  using assms
  by (cases "d ''test_document.pdf''")
    (simp_all add: all_tests_def test_unnamed_single_def test_unnamed_multiple_def test_unnamed_nested_def test_named_single_def
      test_named_multiple_def test_named_nested_def test_nonexistent_file_def test_pdf_volume_def test_rules
      del: run_test.simps(3,7))

text \<open>Whatever pieces the kernel makes of reads and writes, when no call fails the test program runs its eight
  tests and none fails, on any disk without the file that is to be missing, with or without the document.\<close>
theorem copier_tests_pass:
  assumes "calls_good env" "d ''test_missing_file_xyz.txt'' = None"
    and "\<And>s. d ''test_document.pdf'' = Some s \<Longrightarrow> length s < 2 ^ 64"
  shows "tester_main env all_tests 0 0 d = Some (8, 0)"
  using assms by (rule tests_pass)

text \<open>A kernel that takes and gives a kilobyte at once.\<close>

definition smooth_calls :: calls where
  "smooth_calls f s =
     (good_channel,
      good_parent\<lparr>source := Some s, st_size := Some (length s), p_reads := replicate (Suc (length s)) (Read 1024),
        p_writes := replicate (length s) (Wrote 1024)\<rparr>,
      good_child\<lparr>c_reads := replicate (Suc (length s)) (Read 1024), c_writes := replicate (length s) (Wrote 1024)\<rparr>)"

lemma smooth_calls_good: "calls_good smooth_calls"
  by (simp add: calls_good_def smooth_calls_def good_envs parent_good_def child_good_def good_parent_def good_child_def
      list_all_iff progress_def)

theorem copier_tests_pass_witness: "tester_main smooth_calls all_tests 0 0 (\<lambda>_. None) = Some (8, 0)"
  by (rule copier_tests_pass [OF smooth_calls_good]) simp_all

end
