(* ===== verification/CopierSystem.thy ===== *)
theory CopierSystem
  imports CopierProofs StepSystem "HOL-Library.Sublist"
begin

text \<open>
  The two processes of one file, interleaved, joined by a pipe (or an opened FIFO) that holds a bounded number of bytes:
  \<open>run_parent_process\<close> and \<open>run_child_process\<close> of \<^verbatim>\<open>module3/task01/copier.c\<close> call by call. A read or write may take any
  piece; with \<open>faults\<close> any call may fail. A write of the header is atomic, being shorter than \<open>PIPE_BUF\<close>.
\<close>

section \<open>The processes\<close>

text \<open>Where the parent is: before \<open>open\<close>, at the read of the ready signal, at the header, in the loop, in \<open>waitpid\<close> with
  its status so far, returned or killed. The write end is open up to the loop, the other end of the signal before the header.\<close>

datatype parent_at = POpen | PReady | PHeader | PLoop | PWait bool | PEnd copy_status

text \<open>The child: at the ready signal, the header, \<open>malloc\<close> and \<open>open\<close>, in the loop, exited, killed by \<open>SIGPIPE\<close>.\<close>

datatype child_at = CReady | CHeader | CPrepare | CLoop | CExit nat | CKilled

record pair_sys =
  par :: parent_at
  unread :: "byte list"
  pbuf :: "byte list"
  ready :: bool
  pipe :: "byte list"
  chi :: child_at
  hdr :: "byte list"
  cbuf :: "byte list"
  dest :: "string option"
  written :: "byte list"

definition PIPE_CAP :: nat where "PIPE_CAP = 65536"

definition start_pair :: "byte list \<Rightarrow> pair_sys" where
  "start_pair content = \<lparr>par = POpen, unread = content, pbuf = [], ready = False, pipe = [], chi = CReady, hdr = [], cbuf = [],
     dest = None, written = []\<rparr>"

definition write_end_open :: "pair_sys \<Rightarrow> bool" where
  "write_end_open s \<longleftrightarrow> par s \<in> {POpen, PReady, PHeader, PLoop}"

definition child_ended :: "pair_sys \<Rightarrow> bool" where
  "child_ended s \<longleftrightarrow> chi s = CKilled \<or> chi s \<in> range CExit"

inductive pair_step :: "bool \<Rightarrow> string \<Rightarrow> nat \<Rightarrow> pair_sys \<Rightarrow> pair_sys \<Rightarrow> bool" for faults f sz where
  p_open: "par s = POpen \<Longrightarrow> pair_step faults f sz s (s\<lparr>par := PReady\<rparr>)"
| p_gives_up: "faults \<Longrightarrow> par s \<in> {POpen, PReady, PHeader} \<Longrightarrow> pair_step faults f sz s (s\<lparr>par := PWait False\<rparr>)"
| p_no_ready: "par s = PReady \<Longrightarrow> \<not> ready s \<Longrightarrow> child_ended s \<Longrightarrow> pair_step faults f sz s (s\<lparr>par := PWait False\<rparr>)"
| p_ready: "par s = PReady \<Longrightarrow> ready s \<Longrightarrow> pair_step faults f sz s (s\<lparr>par := PHeader\<rparr>)"
| p_header: "par s = PHeader \<Longrightarrow> \<not> child_ended s \<Longrightarrow> length (pipe s) + HEADER_SIZE \<le> PIPE_CAP \<Longrightarrow>
    pair_step faults f sz s (s\<lparr>par := PLoop, pipe := pipe s @ file_header f sz\<rparr>)"
| p_read: "par s = PLoop \<Longrightarrow> pbuf s = [] \<Longrightarrow> 0 < k \<Longrightarrow> k \<le> BUFFER_SIZE \<Longrightarrow> k \<le> length (unread s) \<Longrightarrow>
    pair_step faults f sz s (s\<lparr>pbuf := take k (unread s), unread := drop k (unread s)\<rparr>)"
| p_write: "par s = PLoop \<Longrightarrow> 0 < k \<Longrightarrow> k \<le> length (pbuf s) \<Longrightarrow> \<not> child_ended s \<Longrightarrow> length (pipe s) + k \<le> PIPE_CAP \<Longrightarrow>
    pair_step faults f sz s (s\<lparr>pbuf := drop k (pbuf s), pipe := pipe s @ take k (pbuf s)\<rparr>)"
| p_fails: "faults \<Longrightarrow> par s = PLoop \<Longrightarrow> pair_step faults f sz s (s\<lparr>par := PWait False\<rparr>)"
| p_sigpipe: "par s = PHeader \<or> par s = PLoop \<and> pbuf s \<noteq> [] \<Longrightarrow> child_ended s \<Longrightarrow>
    pair_step faults f sz s (s\<lparr>par := PEnd Killed_by_sigpipe\<rparr>)"
| p_eof: "par s = PLoop \<Longrightarrow> pbuf s = [] \<Longrightarrow> unread s = [] \<Longrightarrow> pair_step faults f sz s (s\<lparr>par := PWait True\<rparr>)"
| p_wait: "par s = PWait ok \<Longrightarrow> child_ended s \<Longrightarrow>
    pair_step faults f sz s (s\<lparr>par := PEnd (Returned (if ok \<and> chi s = CExit 0 then 0 else - 1))\<rparr>)"
| p_wait_fails: "faults \<Longrightarrow> par s = PWait ok \<Longrightarrow> pair_step faults f sz s (s\<lparr>par := PEnd (Returned (- 1))\<rparr>)"
| c_ready: "chi s = CReady \<Longrightarrow> par s \<in> {POpen, PReady} \<Longrightarrow> pair_step faults f sz s (s\<lparr>chi := CHeader, ready := True\<rparr>)"
| c_sigpipe: "chi s = CReady \<Longrightarrow> par s \<notin> {POpen, PReady} \<Longrightarrow> pair_step faults f sz s (s\<lparr>chi := CKilled\<rparr>)"
| c_header: "chi s = CHeader \<Longrightarrow> pipe s \<noteq> [] \<Longrightarrow> h = take HEADER_SIZE (pipe s) \<Longrightarrow>
    pair_step faults f sz s (s\<lparr>hdr := h, pipe := drop HEADER_SIZE (pipe s), chi := (if length h < HEADER_SIZE then CExit 1 else CPrepare)\<rparr>)"
| c_no_header: "chi s = CHeader \<Longrightarrow> pipe s = [] \<Longrightarrow> \<not> write_end_open s \<Longrightarrow> pair_step faults f sz s (s\<lparr>chi := CExit 1\<rparr>)"
| c_prepare: "chi s = CPrepare \<Longrightarrow> pair_step faults f sz s (s\<lparr>chi := CLoop, dest := Some (header_filename (hdr s) @ ''.copy'')\<rparr>)"
| c_read: "chi s = CLoop \<Longrightarrow> cbuf s = [] \<Longrightarrow> 0 < k \<Longrightarrow> k \<le> BUFFER_SIZE \<Longrightarrow> k \<le> length (pipe s) \<Longrightarrow>
    pair_step faults f sz s (s\<lparr>cbuf := take k (pipe s), pipe := drop k (pipe s)\<rparr>)"
| c_write: "chi s = CLoop \<Longrightarrow> 0 < k \<Longrightarrow> k \<le> length (cbuf s) \<Longrightarrow>
    pair_step faults f sz s (s\<lparr>written := written s @ take k (cbuf s), cbuf := drop k (cbuf s)\<rparr>)"
| c_fails: "faults \<Longrightarrow> chi s \<in> {CReady, CHeader, CPrepare, CLoop} \<Longrightarrow> pair_step faults f sz s (s\<lparr>chi := CExit 1\<rparr>)"
| c_eof: "chi s = CLoop \<Longrightarrow> cbuf s = [] \<Longrightarrow> pipe s = [] \<Longrightarrow> \<not> write_end_open s \<Longrightarrow> pair_step faults f sz s (s\<lparr>chi := CExit 0\<rparr>)"

inductive_cases pair_stepE: "pair_step faults f sz s t"

section \<open>Where the bytes are\<close>

text \<open>The bytes of the file that are in the pipe: all but the header, which stands first until the child reads it.\<close>

definition in_pipe :: "pair_sys \<Rightarrow> byte list" where
  "in_pipe s = (if chi s \<in> {CReady, CHeader} then drop HEADER_SIZE (pipe s) else pipe s)"

definition still_to_come :: "string \<Rightarrow> nat \<Rightarrow> byte list \<Rightarrow> pair_sys \<Rightarrow> bool" where
  "still_to_come f sz content s \<longleftrightarrow> (par s \<in> {POpen, PReady, PHeader} \<longrightarrow>
     pipe s = [] \<and> pbuf s = [] \<and> unread s = content \<and> written s = [] \<and> cbuf s = [] \<and> chi s \<notin> {CPrepare, CLoop, CExit 0})"

definition child_on_time :: "string \<Rightarrow> nat \<Rightarrow> pair_sys \<Rightarrow> bool" where
  "child_on_time f sz s \<longleftrightarrow>
     (chi s \<in> {CReady, CHeader} \<longrightarrow> cbuf s = [] \<and> written s = [] \<and> (pipe s = [] \<or> take HEADER_SIZE (pipe s) = file_header f sz))
     \<and> (chi s = CPrepare \<longrightarrow> hdr s = file_header f sz)
     \<and> (chi s \<in> {CLoop, CExit 0} \<longrightarrow> dest s = Some (copy_name f))
     \<and> (chi s = CExit 0 \<longrightarrow> cbuf s = [] \<and> pipe s = [] \<and> \<not> write_end_open s)
     \<and> (chi s \<notin> {CReady, CKilled, CExit 1} \<longrightarrow> ready s)
     \<and> (chi s = CReady \<longrightarrow> \<not> ready s) \<and> (par s \<in> {PHeader, PLoop, PWait True} \<longrightarrow> ready s)
     \<and> (chi s = CHeader \<longrightarrow> par s \<in> {PLoop, PWait True} \<longrightarrow> pipe s \<noteq> [])"

definition flow :: "byte list \<Rightarrow> pair_sys \<Rightarrow> bool" where
  "flow content s \<longleftrightarrow> (chi s \<in> {CReady, CHeader, CPrepare, CLoop, CExit 0} \<longrightarrow>
     prefix (written s @ cbuf s @ in_pipe s) content
     \<and> (par s \<in> {POpen, PReady, PHeader, PLoop} \<longrightarrow> written s @ cbuf s @ in_pipe s @ pbuf s @ unread s = content)
     \<and> (par s = PWait True \<longrightarrow> written s @ cbuf s @ in_pipe s = content))"

definition success :: "byte list \<Rightarrow> pair_sys \<Rightarrow> bool" where
  "success content s \<longleftrightarrow> prefix (written s) content \<and> (par s = PEnd (Returned 0) \<longrightarrow> chi s = CExit 0 \<and> written s = content)"

definition pair_inv :: "string \<Rightarrow> nat \<Rightarrow> byte list \<Rightarrow> pair_sys \<Rightarrow> bool" where
  "pair_inv f sz content s \<longleftrightarrow> still_to_come f sz content s \<and> child_on_time f sz s \<and> flow content s \<and> success content s"

lemma pair_inv_start: "pair_inv f sz content (start_pair content)"
  by (simp add: pair_inv_def still_to_come_def child_on_time_def flow_def success_def in_pipe_def start_pair_def)

lemma still_to_come_step:
  "pair_step faults f sz s t \<Longrightarrow> still_to_come f sz content s \<Longrightarrow> still_to_come f sz content t"
  by (erule pair_stepE; simp add: still_to_come_def child_ended_def write_end_open_def split: if_splits; blast?)

lemma take_drop_append: "take k xs @ drop k xs @ ys = xs @ ys"
  by (metis append_assoc append_take_drop_id)

text \<open>While the child has not read the header, the parent in its loop has put it into the pipe.\<close>

lemma header_in_pipe:
  assumes "child_on_time f sz s" "chi s \<in> {CReady, CHeader}" "par s = PLoop"
  shows "take HEADER_SIZE (pipe s) = file_header f sz" "HEADER_SIZE \<le> length (pipe s)"
proof -
  have "chi s = CHeader" using assms by (auto simp: child_on_time_def)
  then show h: "take HEADER_SIZE (pipe s) = file_header f sz" using assms by (auto simp: child_on_time_def)
  show "HEADER_SIZE \<le> length (pipe s)" using arg_cong [OF h, of length] by simp
qed

lemma header_not_empty: "file_header f sz \<noteq> []"
proof
  assume "file_header f sz = []"
  then have "HEADER_SIZE = 0" by (metis length_file_header list.size(3))
  then show False by (simp add: HEADER_SIZE_def)
qed

lemma header_name: "header_filename (file_header f sz) @ ''.copy'' = copy_name f"
  by (simp add: file_header_fields copy_name_def)

lemma child_on_time_step:
  assumes "pair_step faults f sz s t" "still_to_come f sz content s" and inv: "child_on_time f sz s"
  shows "child_on_time f sz t"
  using assms(1)
proof cases
  case p_header
  then have "pipe s = []" "chi s \<notin> {CPrepare, CLoop, CExit 0}" using assms(2) by (auto simp: still_to_come_def)
  moreover have "chi s \<noteq> CReady" using inv p_header by (auto simp: child_on_time_def)
  moreover have "file_header f sz \<noteq> []" by (rule header_not_empty)
  ultimately show ?thesis using inv p_header by (simp add: child_on_time_def write_end_open_def)
next
  case (p_read k)
  then show ?thesis using inv header_in_pipe(1) [OF inv] by (auto simp: child_on_time_def write_end_open_def)
next
  case (p_write k)
  then show ?thesis using inv header_in_pipe [OF inv] by (auto simp: child_on_time_def write_end_open_def)
next
  case p_fails
  then show ?thesis using inv header_in_pipe(1) [OF inv] by (auto simp: child_on_time_def write_end_open_def)
next
  case p_eof
  then show ?thesis using inv header_in_pipe(1) [OF inv] by (auto simp: child_on_time_def write_end_open_def)
next
  case c_ready
  then show ?thesis using inv by (auto simp: child_on_time_def write_end_open_def)
next
  case c_sigpipe
  then show ?thesis using inv by (auto simp: child_on_time_def write_end_open_def)
next
  case c_prepare
  then show ?thesis using inv header_name [of f sz] by (simp add: child_on_time_def write_end_open_def)
qed (use inv in \<open>simp_all add: child_on_time_def write_end_open_def\<close>)

lemma flowI:
  assumes "written t @ cbuf t @ in_pipe t @ pbuf t @ unread t = content" "par t \<noteq> PWait True"
  shows "flow content t"
proof -
  have "prefix (written t @ cbuf t @ in_pipe t) content"
    by (rule prefixI [of _ _ "pbuf t @ unread t"]) (simp add: assms(1))
  with assms show ?thesis by (simp add: flow_def)
qed

lemma flow_dead: "chi t \<in> {CKilled, CExit 1} \<Longrightarrow> flow content t"
  by (auto simp: flow_def)

lemma flow_step:
  assumes "pair_step faults f sz s t" and early: "still_to_come f sz content s" and inv: "child_on_time f sz s" and flow: "flow content s"
  shows "flow content t"
  using assms(1)
proof cases
  case p_header
  then have "pipe s = []" "chi s \<notin> {CPrepare, CLoop, CExit 0}" "written s @ cbuf s @ pbuf s @ unread s = content"
    using early by (simp_all add: still_to_come_def)
  note e = this
  show ?thesis
  proof (cases "chi s \<in> {CReady, CHeader}")
    case True
    then show ?thesis using p_header e(1,3) by (intro flowI) (simp_all add: in_pipe_def)
  next
    case False
    with e(2) p_header show ?thesis by (simp add: flow_def)
  qed
next
  case (p_write k)
  show ?thesis
  proof (cases "chi s \<in> {CReady, CHeader, CPrepare, CLoop, CExit 0}")
    case True
    have "in_pipe t = in_pipe s @ take k (pbuf s)" using p_write header_in_pipe(2) [OF inv] by (simp add: in_pipe_def)
    moreover have "written s @ cbuf s @ in_pipe s @ pbuf s @ unread s = content" using True flow p_write by (simp add: flow_def)
    ultimately have "written t @ cbuf t @ in_pipe t @ pbuf t @ unread t = content" using p_write by (simp add: take_drop_append)
    then show ?thesis using p_write by (intro flowI) simp_all
  next
    case False
    with p_write show ?thesis by (simp add: flow_def)
  qed
next
  case (p_wait ok)
  then show ?thesis using flow by (simp add: flow_def in_pipe_def)
next
  case (c_header h)
  then show ?thesis using flow by (simp add: flow_def in_pipe_def)
qed (use flow in \<open>simp_all add: flow_def in_pipe_def take_drop_append\<close>)

lemma success_step:
  assumes "pair_step faults f sz s t" and inv: "child_on_time f sz s" "flow content s" "success content s"
  shows "success content t"
  using assms(1)
proof cases
  case (p_wait ok)
  then show ?thesis using inv by (simp add: success_def flow_def child_on_time_def in_pipe_def)
next
  case (c_write k)
  have "prefix (written s @ take k (cbuf s) @ drop k (cbuf s) @ pipe s) content"
    using c_write inv(2) by (simp add: flow_def in_pipe_def take_drop_append)
  then have "prefix (written s @ take k (cbuf s)) content" by (metis append_assoc append_prefixD)
  with c_write inv(3) show ?thesis by (simp add: success_def)
next
  case c_fails
  then have "chi s \<noteq> CExit 0" by auto
  with c_fails inv(3) show ?thesis by (simp add: success_def)
qed (use inv(3) in \<open>simp_all add: success_def\<close>)

lemma pair_inv_step:
  assumes step: "pair_step faults f sz s t" and "pair_inv f sz content s"
  shows "pair_inv f sz content t"
proof -
  have inv: "still_to_come f sz content s" "child_on_time f sz s" "flow content s" "success content s"
    using assms(2) by (simp_all add: pair_inv_def)
  show ?thesis
    unfolding pair_inv_def
    using still_to_come_step [OF step inv(1)] child_on_time_step [OF step inv(1,2)] flow_step [OF step inv(1-3)]
      success_step [OF step inv(2-4)] by simp
qed

section \<open>Every run ends\<close>

text \<open>What is left to do: each call of either process brings it closer to its end or moves bytes on.\<close>

definition work_left :: "pair_sys \<Rightarrow> nat" where
  "work_left s =
     (case par s of POpen \<Rightarrow> 2 * HEADER_SIZE + 6 | PReady \<Rightarrow> 2 * HEADER_SIZE + 5 | PHeader \<Rightarrow> 2 * HEADER_SIZE + 4 | PLoop \<Rightarrow> 2
        | PWait _ \<Rightarrow> 1 | PEnd _ \<Rightarrow> 0)
     + 4 * length (unread s) + 3 * length (pbuf s) + 2 * length (pipe s) + length (cbuf s)
     + (case chi s of CReady \<Rightarrow> 4 | CHeader \<Rightarrow> 3 | CPrepare \<Rightarrow> 2 | CLoop \<Rightarrow> 1 | CExit _ \<Rightarrow> 0 | CKilled \<Rightarrow> 0)"

lemma work_decreases:
  assumes "pair_step faults f sz s t"
  shows "work_left t < work_left s"
  using assms
proof cases
  case (c_header h)
  then show ?thesis by (cases "pipe s") (auto simp: work_left_def)
qed (auto simp: work_left_def split: parent_at.splits child_at.splits)

definition both_ended :: "pair_sys \<Rightarrow> bool" where
  "both_ended s \<longleftrightarrow> (\<exists>r. par s = PEnd r) \<and> child_ended s"

text \<open>As long as one of the processes has not ended, one of them has a call to make that need not fail.\<close>

lemma ready_said: "child_on_time f sz s \<Longrightarrow> chi s = CHeader \<or> chi s = CPrepare \<or> chi s = CLoop \<Longrightarrow> ready s"
  by (elim disjE; simp add: child_on_time_def)

lemma on_time:
  assumes "child_on_time f sz s"
  shows "chi s = CReady \<Longrightarrow> \<not> ready s"
    and "par s = PLoop \<or> par s = PWait True \<Longrightarrow> chi s = CHeader \<Longrightarrow> pipe s \<noteq> []"
    and "chi s = CExit 0 \<Longrightarrow> \<not> write_end_open s" "chi s = CExit 0 \<Longrightarrow> dest s = Some (copy_name f)"
    and "chi s = CHeader \<Longrightarrow> pipe s \<noteq> [] \<Longrightarrow> take HEADER_SIZE (pipe s) = file_header f sz"
  using assms by (simp_all add: child_on_time_def)

lemma child_moves:
  assumes "\<not> child_ended s" "pipe s \<noteq> [] \<or> chi s \<notin> {CHeader, CLoop} \<or> cbuf s \<noteq> [] \<and> chi s = CLoop \<or> \<not> write_end_open s"
  shows "\<exists>t. pair_step faults f sz s t"
proof (cases "chi s")
  case CReady
  then show ?thesis using c_ready [of s faults f sz] c_sigpipe [of s faults f sz] by blast
next
  case CHeader
  then show ?thesis using assms(2) c_header [of s _ faults f sz, OF _ _ refl] c_no_header [of s faults f sz] by auto
next
  case CPrepare
  then show ?thesis using c_prepare [of s faults f sz] by blast
next
  case CLoop
  consider "cbuf s \<noteq> []" | "cbuf s = []" "pipe s \<noteq> []" | "cbuf s = []" "pipe s = []" "\<not> write_end_open s"
    using assms(2) CLoop by auto
  then show ?thesis
  proof cases
    case 1
    then show ?thesis using CLoop c_write [of s 1 faults f sz] by (cases "cbuf s") auto
  next
    case 2
    then show ?thesis using CLoop c_read [of s 1 faults f sz] by (cases "pipe s") (auto simp: BUFFER_SIZE_def)
  next
    case 3
    then show ?thesis using CLoop c_eof [of s faults f sz] by blast
  qed
qed (use assms(1) in \<open>auto simp: child_ended_def\<close>)

lemma parent_moves:
  assumes "child_on_time f sz s" "write_end_open s" "child_ended s \<or> pipe s = [] \<and> chi s \<in> {CHeader, CLoop}"
  shows "\<exists>t. pair_step faults f sz s t"
proof (cases "par s")
  case POpen
  then show ?thesis using p_open [of s faults f sz] by blast
next
  case PReady
  have "ready s \<or> child_ended s" using ready_said [OF assms(1)] assms(3) by blast
  then show ?thesis using PReady p_ready [of s faults f sz] p_no_ready [of s faults f sz] by blast
next
  case PHeader
  show ?thesis
  proof (cases "child_ended s")
    case True
    then show ?thesis using PHeader p_sigpipe [of s faults f sz] by blast
  next
    case False
    then show ?thesis using PHeader assms(3) p_header [of s faults f sz] by (auto simp: HEADER_SIZE_def NAME_LEN_def PIPE_CAP_def)
  qed
next
  case PLoop
  consider "pbuf s \<noteq> []" "child_ended s" | "pbuf s \<noteq> []" "\<not> child_ended s" | "pbuf s = []" "unread s \<noteq> []" | "pbuf s = []" "unread s = []"
    by blast
  then show ?thesis
  proof cases
    case 1
    then show ?thesis using PLoop p_sigpipe [of s faults f sz] by blast
  next
    case 2
    then show ?thesis using PLoop assms(3) p_write [of s 1 faults f sz] by (cases "pbuf s") (auto simp: PIPE_CAP_def)
  next
    case 3
    then show ?thesis using PLoop p_read [of s 1 faults f sz] by (cases "unread s") (auto simp: BUFFER_SIZE_def)
  next
    case 4
    then show ?thesis using PLoop p_eof [of s faults f sz] by blast
  qed
qed (use assms(2) in \<open>auto simp: write_end_open_def\<close>)

lemma pair_moves:
  assumes "pair_inv f sz content s" "\<not> both_ended s"
  shows "\<exists>t. pair_step faults f sz s t"
proof -
  have inv: "child_on_time f sz s" using assms(1) by (simp add: pair_inv_def)
  consider (child) "\<not> child_ended s" "pipe s \<noteq> [] \<or> chi s \<notin> {CHeader, CLoop} \<or> cbuf s \<noteq> [] \<and> chi s = CLoop \<or> \<not> write_end_open s"
    | (parent) "write_end_open s" "child_ended s \<or> pipe s = [] \<and> chi s \<in> {CHeader, CLoop}"
    | (wait) "child_ended s" "\<not> write_end_open s"
    by blast
  then show ?thesis
  proof cases
    case child
    then show ?thesis by (rule child_moves)
  next
    case parent
    then show ?thesis by (rule parent_moves [OF inv])
  next
    case wait
    then obtain ok where "par s = PWait ok" using assms(2) by (cases "par s") (auto simp: write_end_open_def both_ended_def)
    then show ?thesis using wait(1) p_wait [of s ok faults f sz] by blast
  qed
qed

lemma ended_stays: "both_ended s \<Longrightarrow> \<not> pair_step faults f sz s t"
proof
  assume e: "both_ended s" and "pair_step faults f sz s t"
  from this(2) show False using e by cases (auto simp: both_ended_def child_ended_def)
qed

interpretation pair: draining_system "pair_step faults f sz" "\<lambda>s. s = start_pair content" "pair_inv f sz content" both_ended
    "\<lambda>_. ()" "\<lambda>s. (work_left s, 0)" for faults f sz content
proof unfold_locales
  show "\<exists>t. pair_step faults f sz s t \<and> () = () \<and> ((work_left t, 0), work_left s, 0) \<in> less_than <*lex*> less_than"
    if a: "pair_inv f sz content s" "\<not> both_ended s" for s
  proof -
    obtain t where t: "pair_step faults f sz s t" using pair_moves [OF a] by blast
    with work_decreases [OF t] show ?thesis by auto
  qed
qed (simp_all add: pair_inv_start pair_inv_step)

lemma work_bounds_run: "(pair_step faults f sz ^^ n) s t \<Longrightarrow> n + work_left t \<le> work_left s"
proof (induction n arbitrary: t)
  case (Suc n)
  then obtain u where "(pair_step faults f sz ^^ n) s u" "pair_step faults f sz u t" by auto
  with Suc.IH [OF this(1)] work_decreases [OF this(2)] show ?case by simp
qed simp

section \<open>Runs without a failure\<close>

definition no_failure :: "pair_sys \<Rightarrow> bool" where
  "no_failure s \<longleftrightarrow> chi s \<in> {CReady, CHeader, CPrepare, CLoop, CExit 0}
     \<and> par s \<in> {POpen, PReady, PHeader, PLoop, PWait True, PEnd (Returned 0)}
     \<and> (chi s = CReady \<longrightarrow> par s \<in> {POpen, PReady}) \<and> (par s = PEnd (Returned 0) \<longrightarrow> chi s = CExit 0)"

lemma no_failure_step:
  assumes "pair_step False f sz s t" "pair_inv f sz content s" "no_failure s"
  shows "no_failure t"
proof -
  have inv: "child_on_time f sz s" using assms(2) by (simp add: pair_inv_def)
  note on_time = on_time [OF inv]
  have ended: "chi s = CExit 0" "\<not> write_end_open s" if "child_ended s"
    using that assms(3) on_time(3) by (auto simp: no_failure_def child_ended_def)
  from assms(1) show ?thesis
  proof cases
    case p_ready
    then show ?thesis using assms(3) on_time(1) by (auto simp: no_failure_def)
  next
    case p_no_ready
    then show ?thesis using ended(2) by (simp add: write_end_open_def)
  next
    case p_sigpipe
    then show ?thesis using ended(2) by (auto simp: write_end_open_def)
  next
    case (p_wait ok)
    then show ?thesis using assms(3) ended(1) by (auto simp: no_failure_def)
  next
    case (c_header h)
    then have "length h = HEADER_SIZE" using on_time(5) length_file_header [of f sz] by simp
    then show ?thesis using c_header assms(3) by (auto simp: no_failure_def)
  next
    case c_no_header
    then show ?thesis using assms(3) on_time(2) by (auto simp: no_failure_def write_end_open_def)
  qed (use assms(3) in \<open>auto simp: no_failure_def\<close>)
qed

lemma no_failure_run:
  "(pair_step False f sz)\<^sup>*\<^sup>* (start_pair content) s \<Longrightarrow> no_failure s"
proof (induction rule: rtranclp_induct)
  case base
  then show ?case by (simp add: no_failure_def start_pair_def)
next
  case (step s t)
  have "pair_inv f sz content s" using pair.inv_reachable [where faults = False] step.hyps(1) by blast
  with step show ?case by (blast intro: no_failure_step)
qed

text \<open>Such a run exists.\<close>

lemma successful_run:
  "\<exists>s. (pair_step False f sz)\<^sup>*\<^sup>* (start_pair content) s \<and> both_ended s \<and> par s = PEnd (Returned 0)"
proof -
  obtain s where s: "(pair_step False f sz)\<^sup>*\<^sup>* (start_pair content) s" "both_ended s"
    using pair.drains [OF pair_inv_start, of False f sz content] by blast
  then have "par s = PEnd (Returned 0)" using no_failure_run [OF s(1)] by (auto simp: both_ended_def no_failure_def)
  with s show ?thesis by blast
qed

section \<open>Properties\<close>

text \<open>C26: Whatever pieces the reads and writes of the two processes take, whatever call fails and however the processes
  are interleaved: what the copy holds is at every moment a beginning of the file, and when the parent reports success
  it is the whole file under the name with \<open>.copy\<close>, and the child has exited with 0.\<close>
theorem reported_copies_are_complete:
  assumes "(pair_step faults f sz)\<^sup>*\<^sup>* (start_pair content) s"
  shows "prefix (written s) content
    \<and> (par s \<noteq> PEnd (Returned 0) \<or> (chi s = CExit 0 \<and> dest s = Some (copy_name f) \<and> written s = content))"
proof -
  have "pair_inv f sz content s" using pair.inv_reachable [OF refl assms] .
  then have "child_on_time f sz s" "success content s" by (simp_all add: pair_inv_def)
  then show ?thesis using on_time(4) by (auto simp: success_def)
qed

theorem reported_copies_are_complete_witness:
  "\<exists>s. (pair_step False ''a.txt'' 2)\<^sup>*\<^sup>* (start_pair ''hi'') s \<and> par s = PEnd (Returned 0)
    \<and> dest s = Some (copy_name ''a.txt'') \<and> written s = ''hi''"
proof -
  obtain s where s: "(pair_step False ''a.txt'' 2)\<^sup>*\<^sup>* (start_pair ''hi'') s" "par s = PEnd (Returned 0)"
    using successful_run by blast
  with reported_copies_are_complete [OF s(1)] show ?thesis by blast
qed

text \<open>C27: The two processes always end: after at most four calls per byte and some for the set-up, and no state in which
  one of them has not ended leaves both waiting, even when no further call fails.\<close>
theorem copying_always_ends:
  assumes "(pair_step faults f sz ^^ n) (start_pair content) s"
  shows "n \<le> 4 * length content + 538 \<and> (both_ended s \<longleftrightarrow> (\<nexists>t. pair_step False f sz s t))"
proof -
  have "(pair_step faults f sz)\<^sup>*\<^sup>* (start_pair content) s" using assms by (simp add: relpowp_imp_rtranclp)
  then have "pair_inv f sz content s" using pair.inv_reachable [OF refl] by blast
  then have "both_ended s \<longleftrightarrow> (\<nexists>t. pair_step False f sz s t)" using pair_moves ended_stays by blast
  moreover have "n \<le> work_left (start_pair content)" using work_bounds_run [OF assms] by simp
  ultimately show ?thesis by (simp add: work_left_def start_pair_def HEADER_SIZE_def NAME_LEN_def)
qed

theorem copying_always_ends_witness:
  "\<exists>n s. (pair_step False ''a.txt'' 2 ^^ n) (start_pair ''hi'') s \<and> both_ended s \<and> n \<le> 546"
proof -
  obtain s where "(pair_step False ''a.txt'' 2)\<^sup>*\<^sup>* (start_pair ''hi'') s" "both_ended s" using successful_run by blast
  moreover then obtain n where n: "(pair_step False ''a.txt'' 2 ^^ n) (start_pair ''hi'') s" using rtranclp_imp_relpowp by metis
  ultimately show ?thesis using copying_always_ends [OF n] by auto
qed

text \<open>C28: When no call fails, every run of the two processes that has come to its end has made the complete copy and
  reported success, however they were interleaved.\<close>
theorem faultless_runs_succeed:
  assumes "(pair_step False f sz)\<^sup>*\<^sup>* (start_pair content) s" "\<nexists>t. pair_step False f sz s t"
  shows "par s = PEnd (Returned 0) \<and> chi s = CExit 0 \<and> dest s = Some (copy_name f) \<and> written s = content"
proof -
  have inv: "pair_inv f sz content s" using pair.inv_reachable [OF refl assms(1)] .
  then have "both_ended s" using pair_moves assms(2) by blast
  then have "par s = PEnd (Returned 0)" using no_failure_run [OF assms(1)] by (auto simp: both_ended_def no_failure_def)
  moreover have "child_on_time f sz s" "success content s" using inv by (simp_all add: pair_inv_def)
  ultimately show ?thesis using on_time(4) by (simp add: success_def)
qed

theorem faultless_runs_succeed_witness:
  "\<exists>s. (pair_step False ''a.txt'' 2)\<^sup>*\<^sup>* (start_pair ''hi'') s
    \<and> par s = PEnd (Returned 0) \<and> chi s = CExit 0 \<and> dest s = Some (copy_name ''a.txt'') \<and> written s = ''hi''"
proof -
  obtain s where s: "(pair_step False ''a.txt'' 2)\<^sup>*\<^sup>* (start_pair ''hi'') s" "both_ended s" using successful_run by blast
  then have "\<nexists>t. pair_step False ''a.txt'' 2 s t" using ended_stays by blast
  from faultless_runs_succeed [OF s(1) this] s(1) show ?thesis by blast
qed

end
