(* ===== verification/QueueChat.thy ===== *)
theory QueueChat
  imports CLib
begin

text \<open>
  The chat over two POSIX message queues of \<^verbatim>\<open>module3/task03\<close> (\<^verbatim>\<open>chat.c\<close>, \<^verbatim>\<open>main.c\<close>): the names,
  the roles of the process that creates the queues and the one that joins, and the running chat of
  two processes, each with a thread that receives, as a step relation. A queue is the list of its
  messages with their priorities in the order of sending; \<open>mq_receive\<close> takes the oldest of the
  highest priority.
\<close>

section \<open>Queues\<close>

definition MSG_BUFFER_SIZE :: nat where "MSG_BUFFER_SIZE = 256"
definition MAX_MESSAGES :: nat where "MAX_MESSAGES = 10"
definition EXIT_PRIORITY :: nat where "EXIT_PRIORITY = 255"

type_synonym mq = "(nat \<times> string) list"

definition top_priority :: "mq \<Rightarrow> nat" where
  "top_priority q = foldr max (map fst q) 0"

text \<open>The message received and the queue without it.\<close>

definition mq_take :: "mq \<Rightarrow> ((nat \<times> string) \<times> mq) option" where
  "mq_take q =
     (case filter (\<lambda>m. fst m = top_priority q) q of
        [] \<Rightarrow> None
      | m # _ \<Rightarrow> Some (m, remove1 m q))"

section \<open>Names and roles\<close>

definition format_queue_names :: "string \<Rightarrow> string \<times> string" where
  "format_queue_names base_name =
     (if base_name \<noteq> [] \<and> hd base_name = CHR ''/''
      then (snprintf 128 (base_name @ ''_1''), snprintf 128 (base_name @ ''_2''))
      else (snprintf 128 (''/'' @ base_name @ ''_1''), snprintf 128 (''/'' @ base_name @ ''_2'')))"

text \<open>A descriptor is the name it was opened with, or none for -1.\<close>

record chat_session =
  rx_q :: "string option"
  tx_q :: "string option"
  is_creator :: bool

text \<open>The queues that exist, and what else may go wrong with each of the four \<open>mq_open\<close>s.\<close>

type_synonym queues = "string \<Rightarrow> mq option"

record open_faults =
  create_1 :: bool
  create_2 :: bool
  open_1 :: bool
  open_2 :: bool

definition init_chat_queues :: "open_faults \<Rightarrow> queues \<Rightarrow> string \<times> string \<Rightarrow> int \<times> chat_session \<times> queues" where
  "init_chat_queues err k names =
     (let (q1_name, q2_name) = names; s = \<lparr>rx_q = None, tx_q = None, is_creator = False\<rparr> in
      if create_1 err then (- 1, s, k)
      else if k q1_name = None then
        let k = k(q1_name \<mapsto> []); s = s\<lparr>rx_q := Some q1_name, is_creator := True\<rparr> in
        if create_2 err \<or> k q2_name \<noteq> None then (- 1, s, k(q1_name := None))
        else (0, s\<lparr>tx_q := Some q2_name\<rparr>, k(q2_name \<mapsto> []))
      else if open_1 err then (- 1, s, k)
      else let s = s\<lparr>tx_q := Some q1_name\<rparr> in
        if open_2 err \<or> k q2_name = None then (- 1, s, k)
        else (0, s\<lparr>rx_q := Some q2_name\<rparr>, k))"

definition cleanup_chat_queues :: "chat_session \<Rightarrow> string \<times> string \<Rightarrow> queues \<Rightarrow> chat_session \<times> queues" where
  "cleanup_chat_queues s names k =
     (s\<lparr>rx_q := None, tx_q := None\<rparr>,
      if is_creator s then k(fst names := None, snd names := None) else k)"

section \<open>The running chat\<close>

datatype line_action = Leave | Nothing | Send string

text \<open>A line from \<open>fgets\<close>.\<close>

definition process_line :: "string \<Rightarrow> line_action" where
  "process_line l =
     (let s = cstr l; b = (if s \<noteq> [] \<and> last s = CHR 0x0A then butlast s else s) in
      if b = ''/exit'' then Leave else if b = [] then Nothing else Send b)"

text \<open>The main thread: in its loop, after it, after the exit message, and after the other thread has ended.\<close>

datatype phase = Loop | Ending | Stopping | Gone

text \<open>
  A process: \<open>g_exit_flag\<close>, \<open>peer_exited\<close>, whether the receiving thread runs, the lines it has
  shown, and (for the specification only) the lines it has sent.
\<close>

record peer =
  phase :: phase
  exit_flag :: bool
  peer_exited :: bool
  receiving :: bool
  shown :: "string list"
  sent :: "string list"

text \<open>The two processes, and the queue that each receives from. \<open>True\<close> is the creator.\<close>

record chat =
  peers :: "bool \<Rightarrow> peer"
  inbox :: "bool \<Rightarrow> mq"

definition new_peer :: peer where
  "new_peer = \<lparr>phase = Loop, exit_flag = False, peer_exited = False, receiving = True, shown = [], sent = []\<rparr>"

text \<open>The handler of \<open>SIGINT\<close>; the one of \<open>SIGUSR1\<close> does nothing.\<close>

definition sigint_handler :: "peer \<Rightarrow> peer" where
  "sigint_handler p = p\<lparr>exit_flag := True\<rparr>"

definition new_chat :: chat where
  "new_chat = \<lparr>peers = (\<lambda>_. new_peer), inbox = (\<lambda>_. [])\<rparr>"

definition upd_peer :: "bool \<Rightarrow> (peer \<Rightarrow> peer) \<Rightarrow> chat \<Rightarrow> chat" where
  "upd_peer x f st = st\<lparr>peers := (peers st)(x := f (peers st x))\<rparr>"

definition set_inbox :: "bool \<Rightarrow> mq \<Rightarrow> chat \<Rightarrow> chat" where
  "set_inbox x q st = st\<lparr>inbox := (inbox st)(x := q)\<rparr>"

text \<open>One message received by the thread of \<open>x\<close>; \<open>None\<close> when the terminating zero falls outside \<open>rx_buffer\<close>.\<close>

definition receive_message :: "bool \<Rightarrow> nat \<times> string \<Rightarrow> chat \<Rightarrow> chat option" where
  "receive_message x m st =
     (if MSG_BUFFER_SIZE \<le> length (snd m) then None
      else if fst m = EXIT_PRIORITY
      then Some (upd_peer x (\<lambda>p. p\<lparr>peer_exited := True, exit_flag := True, receiving := False\<rparr>) st)
      else Some (upd_peer x (\<lambda>p. p\<lparr>shown := shown p @ [cstr (snd m)]\<rparr>) st))"

text \<open>
  The steps of process \<open>x\<close>. A full queue makes \<open>mq_send\<close> wait (the step is not possible); a signal
  can interrupt it, and then the message is lost. A signal sets the flag at any time; \<open>fgets\<close> is
  left with the flag set when a signal interrupts it.
\<close>

inductive chat_step :: "chat \<Rightarrow> chat \<Rightarrow> bool" where
  type_exit: "phase (peers st x) = Loop \<Longrightarrow> \<not> exit_flag (peers st x) \<Longrightarrow> length l < MSG_BUFFER_SIZE \<Longrightarrow>
    process_line l = Leave \<Longrightarrow>
    chat_step st (upd_peer x (\<lambda>p. p\<lparr>exit_flag := True, phase := Ending\<rparr>) st)"
| end_of_input: "phase (peers st x) = Loop \<Longrightarrow> chat_step st (upd_peer x (\<lambda>p. p\<lparr>exit_flag := True, phase := Ending\<rparr>) st)"
| type_text: "phase (peers st x) = Loop \<Longrightarrow> length l < MSG_BUFFER_SIZE \<Longrightarrow> process_line l = Send t \<Longrightarrow>
    length (inbox st (\<not> x)) < MAX_MESSAGES \<Longrightarrow>
    chat_step st (set_inbox (\<not> x) (inbox st (\<not> x) @ [(1, t)]) (upd_peer x (\<lambda>p. p\<lparr>sent := sent p @ [t]\<rparr>) st))"
| signal: "chat_step st (upd_peer x sigint_handler st)"
| flag_seen: "phase (peers st x) = Loop \<Longrightarrow> exit_flag (peers st x) \<Longrightarrow>
    chat_step st (upd_peer x (\<lambda>p. p\<lparr>phase := Ending\<rparr>) st)"
| receive: "receiving (peers st x) \<Longrightarrow> mq_take (inbox st x) = Some (m, q) \<Longrightarrow>
    receive_message x m (set_inbox x q st) = Some st' \<Longrightarrow> chat_step st st'"
| tell_peer: "phase (peers st x) = Ending \<Longrightarrow> exit_flag (peers st x) \<Longrightarrow> \<not> peer_exited (peers st x) \<Longrightarrow>
    length (inbox st (\<not> x)) < MAX_MESSAGES \<Longrightarrow>
    chat_step st (set_inbox (\<not> x) (inbox st (\<not> x) @ [(EXIT_PRIORITY, ''EXIT'')]) (upd_peer x (\<lambda>p. p\<lparr>phase := Stopping\<rparr>) st))"
| peer_knows: "phase (peers st x) = Ending \<Longrightarrow> peer_exited (peers st x) \<Longrightarrow>
    chat_step st (upd_peer x (\<lambda>p. p\<lparr>phase := Stopping\<rparr>) st)"
| tell_interrupted: "phase (peers st x) = Ending \<Longrightarrow> chat_step st (upd_peer x (\<lambda>p. p\<lparr>phase := Stopping\<rparr>) st)"
| join: "phase (peers st x) = Stopping \<Longrightarrow>
    chat_step st (upd_peer x (\<lambda>p. p\<lparr>receiving := False, phase := Gone\<rparr>) st)"

abbreviation chat_run :: "chat \<Rightarrow> chat \<Rightarrow> bool" where
  "chat_run \<equiv> chat_step\<^sup>*\<^sup>*"

text \<open>\<open>main\<close> up to the chat: the wrong arguments and a failed initialisation end it with 1.\<close>

definition queue_chat_main :: "string list \<Rightarrow> open_faults \<Rightarrow> queues \<Rightarrow> int + (chat_session \<times> queues)" where
  "queue_chat_main argv err k =
     (if length argv < 2 then Inl 1
      else case init_chat_queues err k (format_queue_names (argv ! 1)) of
          (r, s, k) \<Rightarrow> if r < 0 then Inl 1 else Inr (s, k))"

end
