(* ===== verification/QueueChatProofs.thy ===== *)
theory QueueChatProofs
  imports QueueChat StepSystem
begin

text \<open>
  The two processes find complementary roles and leave no queue behind; what one sends, the other
  shows in order, without loss or invention, except that the exit message overtakes what is pending.
\<close>

section \<open>Roles\<close>

text \<open>Two processes started with the same name get crossed queues: what the one sends to, the other receives from;
  a failed start leaves the queues as they were; and after the creator's clean-up both are gone.\<close>
theorem roles_cross:
  assumes "names = format_queue_names base" "length base \<le> 124" "k (fst names) = None" "k (snd names) = None"
    and "\<not> create_1 err" "\<not> create_2 err" "\<not> create_1 err'" "\<not> open_1 err'" "\<not> open_2 err'"
    and "init_chat_queues err k names = (r, a, k1)" "init_chat_queues err' k1 names = (r', b, k2)"
  shows "r = 0 \<and> r' = 0 \<and> is_creator a \<and> \<not> is_creator b \<and> rx_q a \<noteq> tx_q a \<and> rx_q a = tx_q b \<and> tx_q a = rx_q b
    \<and> rx_q a \<noteq> None \<and> tx_q a \<noteq> None \<and> snd (cleanup_chat_queues a names (snd (cleanup_chat_queues b names k2))) = k"
proof -
  have "fst names \<noteq> snd names"
    using assms(1,2) by (auto simp: format_queue_names_def snprintf_fits)
  moreover obtain n1 n2 where "names = (n1, n2)" by (cases names)
  ultimately show ?thesis
    using assms(3-) by (auto simp: init_chat_queues_def cleanup_chat_queues_def Let_def fun_eq_iff split: if_splits)
qed

lemma failed_start_clean:
  "init_chat_queues err k names = (r, s, k') \<Longrightarrow> r \<noteq> 0 \<Longrightarrow> k' = k"
  by (auto simp: init_chat_queues_def Let_def fun_upd_idem split: if_splits prod.splits)

theorem roles_cross_witness:
  "(0::int) = 0 \<and> (0::int) = 0 \<and> is_creator \<lparr>rx_q = Some ''/c_1'', tx_q = Some ''/c_2'', is_creator = True\<rparr>
    \<and> \<not> is_creator \<lparr>rx_q = Some ''/c_2'', tx_q = Some ''/c_1'', is_creator = False\<rparr>
    \<and> rx_q \<lparr>rx_q = Some ''/c_1'', tx_q = Some ''/c_2'', is_creator = True\<rparr> \<noteq> tx_q \<lparr>rx_q = Some ''/c_1'', tx_q = Some ''/c_2'', is_creator = True\<rparr>
    \<and> rx_q \<lparr>rx_q = Some ''/c_1'', tx_q = Some ''/c_2'', is_creator = True\<rparr> = tx_q \<lparr>rx_q = Some ''/c_2'', tx_q = Some ''/c_1'', is_creator = False\<rparr>
    \<and> tx_q \<lparr>rx_q = Some ''/c_1'', tx_q = Some ''/c_2'', is_creator = True\<rparr> = rx_q \<lparr>rx_q = Some ''/c_2'', tx_q = Some ''/c_1'', is_creator = False\<rparr>
    \<and> rx_q \<lparr>rx_q = Some ''/c_1'', tx_q = Some ''/c_2'', is_creator = True\<rparr> \<noteq> None
    \<and> tx_q \<lparr>rx_q = Some ''/c_1'', tx_q = Some ''/c_2'', is_creator = True\<rparr> \<noteq> None
    \<and> snd (cleanup_chat_queues \<lparr>rx_q = Some ''/c_1'', tx_q = Some ''/c_2'', is_creator = True\<rparr> (''/c_1'', ''/c_2'')
        (snd (cleanup_chat_queues \<lparr>rx_q = Some ''/c_2'', tx_q = Some ''/c_1'', is_creator = False\<rparr> (''/c_1'', ''/c_2'')
          ((\<lambda>_. None)(''/c_1'' \<mapsto> [], ''/c_2'' \<mapsto> []))))) = (\<lambda>_. None)"
  by (rule roles_cross [of _ "''c''" _ "\<lparr>create_1 = False, create_2 = False, open_1 = False, open_2 = False\<rparr>"
      "\<lparr>create_1 = False, create_2 = False, open_1 = False, open_2 = False\<rparr>" _ _ "(\<lambda>_. None)(''/c_1'' \<mapsto> [], ''/c_2'' \<mapsto> [])"])
    (simp_all add: format_queue_names_def snprintf_def init_chat_queues_def)

section \<open>What is sent and what is shown\<close>

lemma top_priority_in: "q \<noteq> [] \<Longrightarrow> top_priority q \<in> fst ` set q"
proof (induction q)
  case (Cons m q)
  then show ?case by (cases "q = []") (auto simp: top_priority_def max_def)
qed simp

lemma top_priority_max: "m \<in> set q \<Longrightarrow> fst m \<le> top_priority q"
  by (induction q) (auto simp: top_priority_def)

lemma mq_take_Some:
  assumes "mq_take q = Some (m, q')"
  shows "fst m = top_priority q" "\<exists>ys zs. q = ys @ m # zs \<and> q' = ys @ zs \<and> (\<forall>n \<in> set ys. fst n < fst m)"
proof -
  let ?P = "\<lambda>m. fst m = top_priority q"
  obtain ms where f: "filter ?P q = m # ms" and q': "q' = remove1 m q"
    using assms by (auto simp: mq_take_def split: list.splits)
  with filter_first [OF f] obtain ys zs where s: "q = ys @ m # zs" "q' = ys @ zs" "?P m" "\<forall>n \<in> set ys. \<not> ?P n" by blast
  then show "?P m" by simp
  have "\<forall>n \<in> set ys. fst n < fst m"
    using s top_priority_max [of _ q] by (fastforce simp: order_less_le)
  with s show "\<exists>ys zs. q = ys @ m # zs \<and> q' = ys @ zs \<and> (\<forall>n \<in> set ys. fst n < fst m)" by blast
qed

text \<open>The lines still on their way to a process.\<close>

definition pending :: "mq \<Rightarrow> string list" where
  "pending q = map snd (filter (\<lambda>m. fst m \<noteq> EXIT_PRIORITY) q)"

definition good_message :: "nat \<times> string \<Rightarrow> bool" where
  "good_message m \<longleftrightarrow> fst m \<in> {1, EXIT_PRIORITY} \<and> length (snd m) < MSG_BUFFER_SIZE \<and> no_nul (snd m)"

definition linked :: "chat \<Rightarrow> bool \<Rightarrow> bool \<Rightarrow> bool" where
  "linked st y x \<longleftrightarrow> sent (peers st y) = shown (peers st x) @ pending (inbox st x)
     \<and> list_all good_message (inbox st x) \<and> length (inbox st x) \<le> MAX_MESSAGES"

definition chat_inv :: "chat \<Rightarrow> bool" where
  "chat_inv st \<longleftrightarrow> linked st True False \<and> linked st False True"

lemma chat_inv_linked: "chat_inv st \<Longrightarrow> linked st (\<not> x) x" "chat_inv st \<Longrightarrow> linked st x (\<not> x)"
  by (cases x; simp add: chat_inv_def)+

lemma chat_invI: "linked st x (\<not> x) \<Longrightarrow> linked st (\<not> x) x \<Longrightarrow> chat_inv st"
  by (cases x) (simp_all add: chat_inv_def)

lemma process_line_Send:
  assumes "process_line l = Send t" "length l < MSG_BUFFER_SIZE"
  shows "good_message (1, t)"
proof -
  have "length (cstr l) \<le> length l" by (simp add: cstr_def length_takeWhile_le)
  moreover have "no_nul (butlast (cstr l))"
    using no_nul_cstr [of l] by (auto simp: no_nul_def dest: in_set_butlastD)
  ultimately show ?thesis
    using assms by (auto simp: process_line_def good_message_def Let_def split: if_splits)
qed

lemma take_good:
  assumes "mq_take q = Some (m, q')" "list_all good_message q"
  shows "good_message m" "list_all good_message q'" "length q' < length q"
    "fst m \<noteq> EXIT_PRIORITY \<Longrightarrow> pending q = snd m # pending q'"
    "fst m = EXIT_PRIORITY \<Longrightarrow> pending q' = pending q"
proof -
  obtain ys zs where s: "q = ys @ m # zs" "q' = ys @ zs" "\<forall>n \<in> set ys. fst n < fst m"
    using mq_take_Some(2) [OF assms(1)] by blast
  show "good_message m" "list_all good_message q'" "length q' < length q" using assms(2) s by simp_all
  show "fst m = EXIT_PRIORITY \<Longrightarrow> pending q' = pending q" using s by (simp add: pending_def)
  assume "fst m \<noteq> EXIT_PRIORITY"
  then have one: "fst m = 1" using assms(2) s(1) by (simp add: good_message_def)
  have "ys = []"
  proof (rule ccontr)
    assume "ys \<noteq> []"
    then obtain n where "n \<in> set ys" by (meson last_in_set)
    then have "fst n < 1" "good_message n" using s one assms(2) by (auto simp: list_all_iff)
    then show False by (simp add: good_message_def EXIT_PRIORITY_def)
  qed
  with s \<open>fst m \<noteq> EXIT_PRIORITY\<close> show "pending q = snd m # pending q'" by (simp add: pending_def)
qed

lemma upd_peer_simps [simp]:
  "inbox (upd_peer x f st) = inbox st" "peers (upd_peer x f st) y = (if y = x then f (peers st x) else peers st y)"
  "peers (set_inbox x q st) = peers st" "inbox (set_inbox x q st) y = (if y = x then q else inbox st y)"
  by (simp_all add: upd_peer_def set_inbox_def)

lemma chat_inv_flags:
  assumes "chat_inv st" "\<And>p. sent (f p) = sent p" "\<And>p. shown (f p) = shown p"
  shows "chat_inv (upd_peer x f st)"
  using assms by (auto simp: chat_inv_def linked_def)

lemma chat_step_inv: "chat_step st st' \<Longrightarrow> chat_inv st \<Longrightarrow> chat_inv st'"
proof (induction rule: chat_step.induct)
  case (type_text st x l t)
  have "good_message (1, t)" using type_text by (intro process_line_Send)
  moreover have "linked st (\<not> x) x" "linked st x (\<not> x)" by (rule chat_inv_linked [OF type_text.prems])+
  ultimately show ?case
    using type_text.hyps by (intro chat_invI [of _ x]) (auto simp: linked_def pending_def EXIT_PRIORITY_def)
next
  case (receive st x m q st')
  have l: "linked st (\<not> x) x" "linked st x (\<not> x)" by (rule chat_inv_linked [OF receive.prems])+
  note t = take_good [OF receive.hyps(2)]
  have m: "good_message m" using t(1) l(1) by (simp add: linked_def)
  then have "cstr (snd m) = snd m" by (simp add: good_message_def cstr_no_nul)
  with receive.hyps(3) l t show ?case
    by (intro chat_invI [of _ x]) (auto simp: receive_message_def linked_def split: if_splits)
next
  case (tell_peer st x)
  have "good_message (EXIT_PRIORITY, ''EXIT'')" by (simp add: good_message_def MSG_BUFFER_SIZE_def)
  moreover have "linked st (\<not> x) x" "linked st x (\<not> x)" by (rule chat_inv_linked [OF tell_peer.prems])+
  ultimately show ?case
    using tell_peer.hyps by (intro chat_invI [of _ x]) (auto simp: linked_def pending_def)
qed (auto intro!: chat_inv_flags simp: sigint_handler_def)

lemma new_chat_inv: "chat_inv new_chat"
  by (simp add: chat_inv_def linked_def new_chat_def new_peer_def pending_def)

interpretation two_peers: step_system chat_step "\<lambda>st. st = new_chat" chat_inv
  by unfold_locales (simp_all add: new_chat_inv chat_step_inv)

text \<open>C18: At every moment of a chat the lines one process has sent are those the other has shown followed by those still
  in its queue, in order: nothing is lost on the way, shown twice, reordered or made up; the queues hold at most ten
  messages, each short enough for the receiver's buffer.\<close>
theorem lines_arrive_in_order:
  assumes "chat_run new_chat st"
  shows "sent (peers st (\<not> x)) = shown (peers st x) @ pending (inbox st x)
    \<and> length (inbox st x) \<le> MAX_MESSAGES \<and> list_all good_message (inbox st x)"
  using chat_inv_linked(1) [OF two_peers.inv_reachable [OF refl assms], of x] by (simp add: linked_def)

text \<open>A run: the creator writes a line and leaves.\<close>

definition said :: chat where
  "said = set_inbox False [(1, ''hi'')] (upd_peer True (\<lambda>p. p\<lparr>sent := [''hi'']\<rparr>) new_chat)"

definition left :: chat where
  "left = set_inbox False [(1, ''hi''), (EXIT_PRIORITY, ''EXIT'')]
     (upd_peer True (\<lambda>p. p\<lparr>phase := Stopping\<rparr>) (upd_peer True (\<lambda>p. p\<lparr>exit_flag := True, phase := Ending\<rparr>) said))"

lemma run_to_said: "chat_run new_chat said"
proof -
  have line: "process_line (''hi'' @ [CHR 0x0A]) = Send ''hi''"
    by (simp add: process_line_def cstr_def)
  have "chat_step new_chat (set_inbox (\<not> True) (inbox new_chat (\<not> True) @ [(1, ''hi'')])
      (upd_peer True (\<lambda>p. p\<lparr>sent := sent p @ [''hi'']\<rparr>) new_chat))"
    by (rule chat_step.type_text [OF _ _ line]) (simp_all add: new_chat_def new_peer_def MSG_BUFFER_SIZE_def MAX_MESSAGES_def)
  then have "chat_step new_chat said" by (simp add: said_def new_chat_def new_peer_def upd_peer_def)
  then show ?thesis by (rule r_into_rtranclp)
qed

lemma run_to_left: "chat_run new_chat left"
proof -
  have "chat_step said (upd_peer True (\<lambda>p. p\<lparr>exit_flag := True, phase := Ending\<rparr>) said)"
    by (rule chat_step.end_of_input) (simp add: said_def new_chat_def new_peer_def)
  moreover have "chat_step (upd_peer True (\<lambda>p. p\<lparr>exit_flag := True, phase := Ending\<rparr>) said) left"
    using chat_step.tell_peer [of "upd_peer True (\<lambda>p. p\<lparr>exit_flag := True, phase := Ending\<rparr>) said" True]
    by (simp add: said_def left_def new_chat_def new_peer_def MAX_MESSAGES_def set_inbox_def upd_peer_def)
  ultimately show ?thesis using run_to_said by (meson rtranclp.rtrancl_into_rtrancl)
qed

theorem lines_arrive_in_order_witness:
  "sent (peers left (\<not> False)) = shown (peers left False) @ pending (inbox left False)
    \<and> length (inbox left False) \<le> MAX_MESSAGES \<and> list_all good_message (inbox left False)"
  by (rule lines_arrive_in_order [OF run_to_left])

definition told :: "mq \<Rightarrow> bool" where
  "told q \<longleftrightarrow> EXIT_PRIORITY \<in> fst ` set q"

lemma told_take:
  assumes "mq_take q = Some (m, q')" "list_all good_message q" "told q"
  shows "fst m = EXIT_PRIORITY"
proof -
  have "EXIT_PRIORITY \<le> fst m" using assms mq_take_Some(1) [OF assms(1)] top_priority_max by (fastforce simp: told_def)
  moreover have "fst m \<in> {1, EXIT_PRIORITY}" using take_good(1) [OF assms(1,2)] by (simp add: good_message_def)
  ultimately show ?thesis by (auto simp: EXIT_PRIORITY_def)
qed

text \<open>Nothing more is shown: the notice is first in the queue, or the receiving thread has stopped.\<close>

definition finished :: "chat \<Rightarrow> bool \<Rightarrow> bool" where
  "finished st x \<longleftrightarrow> told (inbox st x) \<or> \<not> receiving (peers st x)"

lemma finished_step:
  "chat_step st st' \<Longrightarrow> chat_inv st \<Longrightarrow> finished st x \<Longrightarrow> finished st' x \<and> shown (peers st' x) = shown (peers st x)"
proof (induction rule: chat_step.induct)
  case (receive st y m q st')
  show ?case
  proof (cases "y = x")
    case True
    with receive have "told (inbox st x)" "list_all good_message (inbox st x)"
      using chat_inv_linked(1) [of st x] by (simp_all add: finished_def linked_def)
    with told_take [OF receive.hyps(2)] True have "fst m = EXIT_PRIORITY" by simp
    with receive.hyps(3) True show ?thesis by (auto simp: receive_message_def finished_def split: if_splits)
  next
    case False
    with receive show ?thesis by (auto simp: receive_message_def finished_def split: if_splits)
  qed
qed (auto simp: finished_def told_def sigint_handler_def)

lemma finished_run:
  "chat_run st st' \<Longrightarrow> chat_inv st \<Longrightarrow> finished st x \<Longrightarrow> finished st' x \<and> shown (peers st' x) = shown (peers st x)"
proof (induction rule: rtranclp_induct)
  case (step st' st'')
  have "chat_inv st'" by (rule two_peers.inv_steps [OF step.hyps(1) step.prems(1)])
  with step finished_step [OF step.hyps(2)] show ?case by auto
qed simp

text \<open>C39: The exit message overtakes the lines sent before it: once it is in the queue of a process, that process never
  shows another line, and the lines still in the queue are lost.\<close>
theorem exit_overtakes_lines:
  assumes "chat_run new_chat st" "(EXIT_PRIORITY, t) \<in> set (inbox st x)" "chat_run st st'"
  shows "shown (peers st' x) = shown (peers st x)"
proof -
  have "finished st x" using assms(2) by (auto simp: finished_def told_def image_iff intro!: bexI)
  with finished_run [OF assms(3) two_peers.inv_reachable [OF refl assms(1)]] show ?thesis by blast
qed

definition informed :: chat where
  "informed = upd_peer False (\<lambda>p. p\<lparr>peer_exited := True, exit_flag := True, receiving := False\<rparr>) (set_inbox False [(1, ''hi'')] left)"

lemma run_to_informed: "chat_run left informed"
proof -
  have "mq_take (inbox left False) = Some ((EXIT_PRIORITY, ''EXIT''), [(1, ''hi'')])"
    by (simp add: left_def mq_take_def top_priority_def EXIT_PRIORITY_def)
  moreover have "receive_message False (EXIT_PRIORITY, ''EXIT'') (set_inbox False [(1, ''hi'')] left) = Some informed"
    by (simp add: receive_message_def informed_def MSG_BUFFER_SIZE_def)
  ultimately have "chat_step left informed"
    by (rule chat_step.receive [rotated]) (simp add: left_def said_def new_chat_def new_peer_def)
  then show ?thesis by (rule r_into_rtranclp)
qed

theorem exit_overtakes_lines_witness: "shown (peers informed False) = shown (peers left False)"
  by (rule exit_overtakes_lines [OF run_to_left _ run_to_informed, of "''EXIT''"]) (simp add: left_def)

section \<open>Everything can be shown\<close>

lemma chat_progress:
  assumes "chat_inv st" "receiving (peers st x)" "inbox st x \<noteq> []"
  shows "\<exists>st'. chat_step st st' \<and> (\<forall>y. sent (peers st' y) = sent (peers st y))
    \<and> length (inbox st' True) + length (inbox st' False) < length (inbox st True) + length (inbox st False)"
proof -
  have l: "linked st (\<not> x) x" by (rule chat_inv_linked [OF assms(1)])
  then have good: "list_all good_message (inbox st x)" by (simp add: linked_def)
  have "top_priority (inbox st x) \<in> fst ` set (inbox st x)" by (rule top_priority_in [OF assms(3)])
  then have "filter (\<lambda>m. fst m = top_priority (inbox st x)) (inbox st x) \<noteq> []"
    by (fastforce simp: filter_empty_conv image_iff)
  then obtain m q where t: "mq_take (inbox st x) = Some (m, q)" by (cases "filter (\<lambda>m. fst m = top_priority (inbox st x)) (inbox st x)") (auto simp: mq_take_def)
  note tg = take_good [OF t good]
  then obtain st' where st': "receive_message x m (set_inbox x q st) = Some st'"
    by (cases "fst m = EXIT_PRIORITY") (auto simp: receive_message_def good_message_def)
  then have "\<forall>y. sent (peers st' y) = sent (peers st y)" "inbox st' = (inbox st)(x := q)"
    by (auto simp: receive_message_def set_inbox_def split: if_splits)
  with chat_step.receive [OF assms(2) t st'] tg(3) show ?thesis by (cases x) (auto intro!: exI [of _ st'])
qed

interpretation two_peers: draining_system chat_step "\<lambda>st. st = new_chat" chat_inv
    "\<lambda>st. \<forall>x. receiving (peers st x) \<longrightarrow> inbox st x = []" "\<lambda>st x. sent (peers st x)"
    "\<lambda>st. (0, length (inbox st True) + length (inbox st False))"
  by unfold_locales (use chat_progress in \<open>fastforce simp: fun_eq_iff\<close>)



text \<open>A foreign message that fills the buffer puts the terminating zero behind its end.\<close>

lemma full_message_overruns: "length t = MSG_BUFFER_SIZE \<Longrightarrow> receive_message x (p, t) st = None"
  by (simp add: receive_message_def)

end
