(* ===== verification/QueueTests.thy ===== *)
theory QueueTests
  imports QueueChatProofs
begin

text \<open>
  The test program \<^verbatim>\<open>module3/task03/test_chat.c\<close>. A test takes the queues that exist and gives those it leaves
  and the outcomes of its assertions, the first that fails being the last; \<open>None\<close> is a call that waits for ever.
\<close>

section \<open>Calls\<close>

datatype send_result = Accepted mq | Send_again | Send_waits

text \<open>\<open>mq_send\<close> through a descriptor that may be set to \<open>O_NONBLOCK\<close>.\<close>

definition mq_send :: "bool \<Rightarrow> nat \<Rightarrow> string \<Rightarrow> mq \<Rightarrow> send_result" where
  "mq_send nonblock prio text q =
     (if length q < MAX_MESSAGES then Accepted (q @ [(prio, text)]) else if nonblock then Send_again else Send_waits)"

definition force_unlink_queues :: "queues \<Rightarrow> queues" where
  "force_unlink_queues k = k(''/test_unit_q_1'' := None, ''/test_unit_q_2'' := None)"

text \<open>The outcomes up to the first that is false.\<close>

fun asserts :: "bool list \<Rightarrow> bool list" where
  "asserts [] = []"
| "asserts (b # bs) = (if b then True # asserts bs else [False])"

definition passed :: "bool list \<Rightarrow> bool" where
  "passed bs \<longleftrightarrow> list_all (\<lambda>b. b) bs"

section \<open>The tests\<close>

definition test_queue_name_formatting :: "bool list" where
  "test_queue_name_formatting =
     (let (q1_name, q2_name) = format_queue_names ''test_unit_q''; (q1_name', _) = format_queue_names ''/test_unit_q'' in
      asserts [q1_name ! 0 = CHR ''/'', q1_name = ''/test_unit_q_1'', q2_name = ''/test_unit_q_2'', q1_name' = ''/test_unit_q_1''])"

definition test_creator_initialization :: "open_faults \<Rightarrow> queues \<Rightarrow> bool list \<times> queues" where
  "test_creator_initialization err k =
     (let names = format_queue_names ''/test_unit_q'';
          (res, session, k) = init_chat_queues err (force_unlink_queues k) names;
          bs = asserts [res = 0, is_creator session, rx_q session \<noteq> None, tx_q session \<noteq> None] in
      (bs, if passed bs then snd (cleanup_chat_queues session names k) else k))"

definition test_follower_initialization :: "open_faults \<Rightarrow> queues \<Rightarrow> bool list \<times> queues" where
  "test_follower_initialization err k =
     (let names = format_queue_names ''/test_unit_q'';
          (res1, creator, k) = init_chat_queues err (force_unlink_queues k) names in
      if res1 \<noteq> 0 then ([False], k)
      else let (res2, follower, k) = init_chat_queues err k names;
               bs = asserts [True, res2 = 0, \<not> is_creator follower, rx_q follower \<noteq> None, tx_q follower \<noteq> None] in
        (bs, if passed bs
             then snd (cleanup_chat_queues creator names (snd (cleanup_chat_queues follower names k))) else k))"

text \<open>A queue that cannot be reached makes the call fail.\<close>

definition queue_of :: "queues \<Rightarrow> string option \<Rightarrow> mq option" where
  "queue_of k d = Option.bind d k"

definition test_exit_priority_message :: "open_faults \<Rightarrow> queues \<Rightarrow> (bool list \<times> queues) option" where
  "test_exit_priority_message err k =
     (let names = format_queue_names ''/test_unit_q'';
          (_, creator, k) = init_chat_queues err (force_unlink_queues k) names;
          (_, follower, k) = init_chat_queues err k names in
      case queue_of k (tx_q creator) of
        None \<Rightarrow> Some ([False], k)
      | Some q \<Rightarrow>
          (case mq_send False 255 ''EXIT'' q of
             Send_waits \<Rightarrow> None
           | Send_again \<Rightarrow> Some ([False], k)
           | Accepted q \<Rightarrow>
               let k = k(the (tx_q creator) \<mapsto> q) in
               case queue_of k (rx_q follower) of
                 None \<Rightarrow> Some ([True, False], k)
               | Some r \<Rightarrow>
                   (case mq_take r of
                      None \<Rightarrow> None
                    | Some ((prio, buf), r) \<Rightarrow>
                        let k = k(the (rx_q follower) \<mapsto> r); bs = asserts [True, True, prio = 255] in
                        Some (bs, if passed bs
                          then snd (cleanup_chat_queues creator names (snd (cleanup_chat_queues follower names k))) else k))))"

text \<open>The loop that fills the queue: the outcomes and the queue.\<close>

fun spam_loop :: "nat \<Rightarrow> mq \<Rightarrow> bool list \<times> mq" where
  "spam_loop 0 q = ([], q)"
| "spam_loop (Suc n) q =
     (case mq_send True 1 ''spam'' q of
        Accepted q \<Rightarrow> (let (bs, q) = spam_loop n q in (True # bs, q))
      | _ \<Rightarrow> ([False], q))"

definition test_queue_spam_overflow :: "open_faults \<Rightarrow> queues \<Rightarrow> bool list \<times> queues" where
  "test_queue_spam_overflow err k =
     (let names = format_queue_names ''/test_unit_q'';
          (_, creator, k) = init_chat_queues err (force_unlink_queues k) names in
      case queue_of k (tx_q creator) of
        None \<Rightarrow> ([False], k)
      | Some q \<Rightarrow>
          let (bs, q) = spam_loop 10 q; k = k(the (tx_q creator) \<mapsto> q) in
          if \<not> passed bs then (True # bs, k)
          else let over = (mq_send True 1 ''spam'' q = Send_again); bs = True # bs @ asserts [over, over] in
            (bs, if passed bs then snd (cleanup_chat_queues creator names k) else k))"

definition test_signal_handling :: "peer \<Rightarrow> bool list" where
  "test_signal_handling p = [exit_flag (sigint_handler (p\<lparr>exit_flag := False\<rparr>))]"

text \<open>\<open>main\<close>: the tests run and those that failed, and the queues at the end.\<close>

definition test_main :: "open_faults \<Rightarrow> queues \<Rightarrow> ((nat \<times> nat) \<times> queues) option" where
  "test_main err k =
     (let a = test_queue_name_formatting;
          (b, k) = test_creator_initialization err k;
          (c, k) = test_follower_initialization err k in
      case test_exit_priority_message err k of
        None \<Rightarrow> None
      | Some (d, k) \<Rightarrow>
          let (e, k) = test_queue_spam_overflow err k; f = test_signal_handling new_peer in
          Some ((6, length (filter (\<lambda>bs. \<not> passed bs) [a, b, c, d, e, f])), force_unlink_queues k))"

section \<open>What the tests find\<close>

definition no_faults :: open_faults where
  "no_faults = \<lparr>create_1 = False, create_2 = False, open_1 = False, open_2 = False\<rparr>"

lemma unit_names [simp]:
  "format_queue_names ''/test_unit_q'' = (''/test_unit_q_1'', ''/test_unit_q_2'')"
  "format_queue_names ''test_unit_q'' = (''/test_unit_q_1'', ''/test_unit_q_2'')"
  by (simp_all add: format_queue_names_def snprintf_def)

lemma creator_starts:
  "init_chat_queues no_faults (force_unlink_queues k) (''/test_unit_q_1'', ''/test_unit_q_2'') =
     (0, \<lparr>rx_q = Some ''/test_unit_q_1'', tx_q = Some ''/test_unit_q_2'', is_creator = True\<rparr>,
      k(''/test_unit_q_1'' \<mapsto> [], ''/test_unit_q_2'' \<mapsto> []))"
  by (simp add: init_chat_queues_def no_faults_def force_unlink_queues_def Let_def fun_eq_iff)

lemma follower_starts:
  "k ''/test_unit_q_1'' \<noteq> None \<Longrightarrow> k ''/test_unit_q_2'' \<noteq> None \<Longrightarrow>
   init_chat_queues no_faults k (''/test_unit_q_1'', ''/test_unit_q_2'') =
     (0, \<lparr>rx_q = Some ''/test_unit_q_2'', tx_q = Some ''/test_unit_q_1'', is_creator = False\<rparr>, k)"
  by (simp add: init_chat_queues_def no_faults_def Let_def)

lemma spam_loop_fills:
  "length q + n \<le> MAX_MESSAGES \<Longrightarrow> spam_loop n q = (replicate n True, q @ replicate n (1, ''spam''))"
  by (induction n arbitrary: q) (simp_all add: mq_send_def)

lemma creator_cleans_up:
  "snd (cleanup_chat_queues \<lparr>rx_q = r, tx_q = t, is_creator = True\<rparr> (''/test_unit_q_1'', ''/test_unit_q_2'')
     (k(''/test_unit_q_1'' \<mapsto> a, ''/test_unit_q_2'' \<mapsto> b))) = force_unlink_queues k"
  by (simp add: cleanup_chat_queues_def force_unlink_queues_def fun_eq_iff)

lemma follower_leaves: "snd (cleanup_chat_queues \<lparr>rx_q = r, tx_q = t, is_creator = False\<rparr> names k) = k"
  by (simp add: cleanup_chat_queues_def)

lemmas unit_runs = creator_starts follower_starts creator_cleans_up follower_leaves queue_of_def passed_def Let_def

lemma spam_test: "test_queue_spam_overflow no_faults k = (True # replicate 10 True @ [True, True], force_unlink_queues k)"
proof -
  have "spam_loop 10 [] = (replicate 10 True, replicate 10 (1, ''spam''))"
    using spam_loop_fills [of "[]" 10] by (simp add: MAX_MESSAGES_def)
  moreover have "mq_send True 1 ''spam'' (replicate 10 (1, ''spam'')) = Send_again"
    by (simp add: mq_send_def MAX_MESSAGES_def)
  ultimately show ?thesis
    by (simp add: test_queue_spam_overflow_def unit_runs list_all_iff)
qed

lemma exit_test: "test_exit_priority_message no_faults k = Some ([True, True, True], force_unlink_queues k)"
proof -
  have "mq_send False 255 ''EXIT'' [] = Accepted [(255, ''EXIT'')]" by (simp add: mq_send_def MAX_MESSAGES_def)
  moreover have "mq_take [(255, ''EXIT'')] = Some ((255, ''EXIT''), [])" by (simp add: mq_take_def top_priority_def)
  ultimately show ?thesis by (simp add: test_exit_priority_message_def unit_runs)
qed

lemma creator_test: "test_creator_initialization no_faults k = ([True, True, True, True], force_unlink_queues k)"
  by (simp add: test_creator_initialization_def unit_runs)

lemma follower_test: "test_follower_initialization no_faults k = ([True, True, True, True, True], force_unlink_queues k)"
  by (simp add: test_follower_initialization_def unit_runs)

text \<open>Whatever queues a crashed run has left, when no call fails for another reason none of the six tests fails, none waits
  for ever, and no queue is left; the eleventh message does not fit.\<close>
theorem queue_tests_pass: "test_main no_faults k = Some ((6, 0), k(''/test_unit_q_1'' := None, ''/test_unit_q_2'' := None))"
  by (simp add: test_main_def creator_test follower_test exit_test spam_test test_queue_name_formatting_def
      test_signal_handling_def sigint_handler_def passed_def list_all_iff force_unlink_queues_def)

end
