(* ===== verification/Firewall.thy ===== *)
theory Firewall
  imports KernelIO
begin

text \<open>
  The packet filter of \<^verbatim>\<open>module5/task6/nf.c\<close>: a netfilter hook on outgoing packets and the file
  \<^verbatim>\<open>/proc/ip_blacklist\<close> that shows and changes its list of addresses. An address is its
  \<open>__be32\<close> as a number. The kernel's \<open>in4_pton\<close> is a parameter; which allocations, copies and
  registrations succeed is input. The spin lock makes each operation on the list one step.
\<close>

section \<open>The hook\<close>

datatype verdict = NF_ACCEPT | NF_DROP

text \<open>A socket buffer: its IP header, if it has one, as source and destination.\<close>

type_synonym sk_buff = "(nat \<times> nat) option"

text \<open>The search of the list for the destination.\<close>

fun listed :: "nat list \<Rightarrow> nat \<Rightarrow> bool" where
  "listed [] d = False"
| "listed (e # es) d = (if e = d then True else listed es d)"

definition hook_func_in :: "nat list \<Rightarrow> sk_buff option \<Rightarrow> verdict" where
  "hook_func_in blacklist skb =
     (case skb of
        None \<Rightarrow> NF_ACCEPT
      | Some None \<Rightarrow> NF_ACCEPT
      | Some (Some (saddr, daddr)) \<Rightarrow> if listed blacklist daddr then NF_DROP else NF_ACCEPT)"

section \<open>The file\<close>

text \<open>The loop of \<open>blacklist_read\<close>: lines go to a buffer of 4096 bytes until 32 or fewer are left.\<close>

fun list_text :: "nat list \<Rightarrow> byte list \<Rightarrow> byte list" where
  "list_text [] kbuf = kbuf"
| "list_text (e # es) kbuf =
     (let kbuf = kbuf @ snprintf (4096 - length kbuf) (pI4 e @ [CHR 0x0A]) in
      if 4096 - 32 \<le> length kbuf then kbuf else list_text es kbuf)"

definition blacklist_read :: "bool \<Rightarrow> nat list \<Rightarrow> nat \<Rightarrow> nat \<Rightarrow> errno + byte list \<times> nat" where
  "blacklist_read kmalloc_ok blacklist count pos =
     (if \<not> kmalloc_ok then Inl ENOMEM
      else Inr (simple_read_from_buffer count pos (list_text blacklist [])))"

text \<open>The blanks that end the text are removed, from the last backwards.\<close>

definition trim_end :: "byte list \<Rightarrow> byte list" where
  "trim_end s = rev (dropWhile (\<lambda>c. c = CHR 0x0A \<or> c = CHR 0x0D \<or> c = CHR '' '') (rev s))"

fun remove_entry :: "nat list \<Rightarrow> nat \<Rightarrow> nat list" where
  "remove_entry [] ip = []"
| "remove_entry (e # es) ip = (if e = ip then es else e # remove_entry es ip)"

text \<open>\<open>blacklist_write\<close>: the new list, and the error or the number of bytes taken.\<close>

definition blacklist_write ::
  "(string \<Rightarrow> nat option) \<Rightarrow> bool \<Rightarrow> bool \<Rightarrow> byte list \<Rightarrow> nat list \<Rightarrow> nat list \<times> (errno + nat)" where
  "blacklist_write in4_pton copy_ok kmalloc_ok buf blacklist =
     (let count = length buf; kbuf = take 63 buf in
      if \<not> copy_ok then (blacklist, Inl EFAULT) else
      let kbuf = trim_end kbuf in
      if length kbuf < 2 then (blacklist, Inl EINVAL) else
      let action = hd kbuf; ip_str = take 31 (cstr (tl kbuf)) in
      case in4_pton ip_str of
        None \<Rightarrow> (blacklist, Inl EINVAL)
      | Some ip \<Rightarrow>
          if action = CHR ''+'' then
            (if \<not> kmalloc_ok then (blacklist, Inl ENOMEM)
             else if listed blacklist ip then (blacklist, Inr count)
             else (blacklist @ [ip], Inr count))
          else if action = CHR ''-'' then (remove_entry blacklist ip, Inr count)
          else (blacklist, Inl EINVAL))"

section \<open>Loading and unloading\<close>

record nf_module =
  proc_entry :: bool
  hooked :: bool
  blacklist_ips :: "nat list"

definition nf_unloaded :: nf_module where
  "nf_unloaded = \<lparr>proc_entry = False, hooked = False, blacklist_ips = []\<rparr>"

definition init_main :: "bool \<Rightarrow> bool \<Rightarrow> nf_module \<times> errno option" where
  "init_main proc_ok hook_ok =
     (if \<not> proc_ok then (nf_unloaded, Some ENOMEM)
      else let m = nf_unloaded\<lparr>proc_entry := True\<rparr> in
        if \<not> hook_ok then (m\<lparr>proc_entry := False\<rparr>, Some ERegister)
        else (m\<lparr>hooked := True\<rparr>, None))"

fun free_list :: "nat list \<Rightarrow> nat list" where
  "free_list [] = []"
| "free_list (e # es) = free_list es"

definition cleanup_main :: "nf_module \<Rightarrow> nf_module" where
  "cleanup_main m =
     (let m = m\<lparr>hooked := False\<rparr>; m = (if proc_entry m then m\<lparr>proc_entry := False\<rparr> else m) in
      m\<lparr>blacklist_ips := free_list (blacklist_ips m)\<rparr>)"

section \<open>The list\<close>

lemma listed_set [simp]: "listed bl d \<longleftrightarrow> d \<in> set bl"
  by (induction bl) auto

lemma remove_entry_remove1 [simp]: "remove_entry bl ip = remove1 ip bl"
  by (induction bl) auto

text \<open>What a write asks for, once it got past the errors.\<close>

datatype command = Block nat | Unblock nat

definition command_of :: "(string \<Rightarrow> nat option) \<Rightarrow> bool \<times> bool \<times> byte list \<Rightarrow> command option" where
  "command_of in4_pton = (\<lambda>(copy_ok, kmalloc_ok, buf).
     let s = trim_end (take 63 buf) in
     if \<not> copy_ok \<or> length s < 2 then None else
     case in4_pton (take 31 (cstr (tl s))) of
       None \<Rightarrow> None
     | Some ip \<Rightarrow>
         if hd s = CHR ''+'' \<and> kmalloc_ok then Some (Block ip)
         else if hd s = CHR ''-'' then Some (Unblock ip) else None)"

fun apply_command :: "command option \<Rightarrow> nat set \<Rightarrow> nat set" where
  "apply_command None S = S"
| "apply_command (Some (Block ip)) S = insert ip S"
| "apply_command (Some (Unblock ip)) S = S - {ip}"

text \<open>The list after a history of writes.\<close>

definition after_writes :: "(string \<Rightarrow> nat option) \<Rightarrow> (bool \<times> bool \<times> byte list) list \<Rightarrow> nat list" where
  "after_writes in4_pton ws = fold (\<lambda>(c, k, b) bl. fst (blacklist_write in4_pton c k b bl)) ws []"

lemma write_step:
  assumes "distinct bl"
  shows "distinct (fst (blacklist_write p c k b bl)) \<and>
    set (fst (blacklist_write p c k b bl)) = apply_command (command_of p (c, k, b)) (set bl)"
  using assms by (auto simp: blacklist_write_def command_of_def Let_def split: option.split)

lemma after_writes_set:
  "distinct (after_writes p ws) \<and> set (after_writes p ws) = fold (\<lambda>w. apply_command (command_of p w)) ws {}"
proof (induction ws rule: rev_induct)
  case Nil
  then show ?case by (simp add: after_writes_def)
next
  case (snoc w ws)
  obtain c k b where w: "w = (c, k, b)" by (cases w)
  from snoc write_step [of "after_writes p ws" p c k b] show ?case by (simp add: after_writes_def w)
qed

section \<open>The text of the list\<close>

definition lines_of :: "nat list \<Rightarrow> byte list" where
  "lines_of bl = concat (map (\<lambda>e. pI4 e @ [CHR 0x0A]) bl)"

lemma length_lines: "length (lines_of bl) \<le> 16 * length bl"
proof (induction bl)
  case (Cons e bl)
  with length_pI4 [of e] show ?case by (simp add: lines_of_def)
qed (simp add: lines_of_def)

lemma list_text_all: "length kbuf + 16 * length bl \<le> 4064 \<Longrightarrow> list_text bl kbuf = kbuf @ lines_of bl"
proof (induction bl arbitrary: kbuf)
  case Nil
  then show ?case by (simp add: lines_of_def)
next
  case (Cons e bl)
  let ?k = "kbuf @ pI4 e @ [CHR 0x0A]"
  have l: "length (pI4 e) \<le> 15" by (rule length_pI4)
  then have cut: "snprintf (4096 - length kbuf) (pI4 e @ [CHR 0x0A]) = pI4 e @ [CHR 0x0A]"
    using Cons.prems by (intro snprintf_fits) simp
  show ?case
  proof (cases "4064 \<le> length ?k")
    case True
    then have "bl = []" using l Cons.prems by (cases bl) auto
    then show ?thesis using cut by (simp add: lines_of_def Let_def)
  next
    case False
    have "length ?k + 16 * length bl \<le> 4064" using l Cons.prems by simp
    then have "list_text bl ?k = ?k @ lines_of bl" by (rule Cons.IH)
    then show ?thesis using cut False by (simp add: lines_of_def)
  qed
qed

interpretation blacklist_file: seq_reader "blacklist_read True bl" "list_text bl []" for bl
proof
  fix pos n :: nat
  assume a: "pos < length (list_text bl [])" "0 < n"
  let ?k = "min n (length (list_text bl []) - pos)"
  show "\<exists>k>0. k \<le> n \<and> pos + k \<le> length (list_text bl []) \<and> (k = n \<or> pos + k = length (list_text bl []))
      \<and> blacklist_read True bl n pos = Inr (take k (drop pos (list_text bl [])), pos + k)"
    by (rule exI [of _ ?k]) (use a in \<open>auto simp: blacklist_read_def simple_read_from_buffer_def Let_def\<close>)
next
  fix n
  show "\<exists>p. blacklist_read True bl n (length (list_text bl [])) = Inr ([], p)"
    by (simp add: blacklist_read_def simple_read_from_buffer_def)
qed

section \<open>Properties\<close>

text \<open>C20: After any history of writes to the file, well-formed or not, an outgoing packet is dropped exactly when
  its destination is in the set that the accepted commands build: a block puts its address in, an unblock
  takes it out, everything else changes nothing.\<close>
theorem filter_follows_commands:
  "hook_func_in (after_writes in4_pton ws) (Some (Some (saddr, daddr))) =
    (if daddr \<in> fold (\<lambda>w. apply_command (command_of in4_pton w)) ws {} then NF_DROP else NF_ACCEPT)"
  using after_writes_set [of in4_pton ws] by (simp add: hook_func_in_def)

text \<open>The text of an address.\<close>

lemma trim_end_word: "s \<noteq> [] \<Longrightarrow> last s \<notin> {CHR 0x0A, CHR 0x0D, CHR '' ''} \<Longrightarrow> trim_end (s @ [CHR 0x0A]) = s"
  by (cases s rule: rev_cases) (auto simp: trim_end_def)

lemma pI4_chars: "c \<in> set (pI4 ip) \<Longrightarrow> isdigit c \<or> c = CHR ''.''"
  by (auto simp: pI4_def dest: dec_nat_digits)

lemma pI4_ends: "pI4 ip \<noteq> [] \<and> last (pI4 ip) \<notin> {CHR 0x0A, CHR 0x0D, CHR '' ''}"
proof -
  have "pI4 ip \<noteq> []" by (simp add: pI4_def)
  then have "isdigit (last (pI4 ip)) \<or> last (pI4 ip) = CHR ''.''" using pI4_chars last_in_set by blast
  with \<open>pI4 ip \<noteq> []\<close> show ?thesis by (auto simp: isdigit_def)
qed

lemma no_nul_pI4: "no_nul (pI4 ip)"
  using pI4_chars [of NUL ip] by (auto simp: no_nul_def isdigit_def)

lemma write_line:
  assumes "a \<noteq> NUL" "a \<notin> {CHR 0x0A, CHR 0x0D, CHR '' ''}"
  shows "trim_end (take 63 (a # pI4 ip @ [CHR 0x0A])) = a # pI4 ip \<and> take 31 (cstr (pI4 ip)) = pI4 ip \<and> 2 \<le> length (a # pI4 ip)"
proof -
  have "length (pI4 ip) \<le> 15" by (rule length_pI4)
  then have "take 63 (a # pI4 ip @ [CHR 0x0A]) = (a # pI4 ip) @ [CHR 0x0A]" "take 31 (pI4 ip) = pI4 ip" by simp_all
  moreover have "trim_end ((a # pI4 ip) @ [CHR 0x0A]) = a # pI4 ip"
    using pI4_ends [of ip] by (intro trim_end_word) auto
  moreover have "pI4 ip \<noteq> []" using pI4_ends by blast
  ultimately show ?thesis by (simp add: cstr_no_nul no_nul_pI4 Suc_le_eq)
qed

text \<open>Writing a plus sign and an address as the kernel prints it blocks the packets to that address, and a
  minus sign lets them pass again, without changing the verdict on any other address.\<close>
theorem block_then_unblock:
  assumes "in4_pton (pI4 ip) = Some ip" "distinct bl"
    and "blacklist_write in4_pton True True (CHR ''+'' # pI4 ip @ [CHR 0x0A]) bl = (bl1, r1)"
    and "blacklist_write in4_pton True k (CHR ''-'' # pI4 ip @ [CHR 0x0A]) bl1 = (bl2, r2)"
  shows "r1 = Inr (length (pI4 ip) + 2) \<and> r2 = Inr (length (pI4 ip) + 2)
    \<and> hook_func_in bl1 (Some (Some (s, d))) = (if d = ip then NF_DROP else hook_func_in bl (Some (Some (s, d))))
    \<and> hook_func_in bl2 (Some (Some (s, d))) = (if d = ip then NF_ACCEPT else hook_func_in bl (Some (Some (s, d))))"
proof -
  have plus: "bl1 = (if ip \<in> set bl then bl else bl @ [ip])" "r1 = Inr (length (pI4 ip) + 2)"
    using write_line [of "CHR ''+''" ip] assms(1,3)
    by (auto simp: blacklist_write_def Let_def split: if_splits)
  have minus: "bl2 = remove1 ip bl1" "r2 = Inr (length (pI4 ip) + 2)"
    using write_line [of "CHR ''-''" ip] assms(1,4)
    by (auto simp: blacklist_write_def Let_def split: if_splits)
  have "distinct bl1" using plus(1) assms(2) by auto
  then show ?thesis using plus minus by (auto simp: hook_func_in_def)
qed

theorem block_then_unblock_witness:
  "hook_func_in [7, 134744072] (Some (Some (1, 134744072))) = NF_DROP
   \<and> hook_func_in [7] (Some (Some (1, 134744072))) = NF_ACCEPT"
proof -
  let ?p = "\<lambda>s. if s = ''8.8.8.8'' then Some 134744072 else None"
  have "char_of (56 :: nat) = CHR ''8''" by code_simp
  then have t: "pI4 134744072 = ''8.8.8.8''" by (simp add: pI4_def dec_nat.simps)
  then have h: "?p (pI4 134744072) = Some 134744072" by simp
  have c: "cstr ''8.8.8.8'' = ''8.8.8.8''" "trim_end (take 63 ''+8.8.8.8\<newline>'') = ''+8.8.8.8''"
    "trim_end (take 63 ''-8.8.8.8\<newline>'') = ''-8.8.8.8''" by (simp_all add: cstr_def trim_end_def)
  have "blacklist_write ?p True True (CHR ''+'' # pI4 134744072 @ [CHR 0x0A]) [7] = ([7, 134744072], Inr 9)"
    "blacklist_write ?p True True (CHR ''-'' # pI4 134744072 @ [CHR 0x0A]) [7, 134744072] = ([7], Inr 9)"
    using c by (simp_all add: blacklist_write_def Let_def t)
  from block_then_unblock [OF h _ this, of 1 134744072] show ?thesis by simp
qed

text \<open>Reading the file in pieces of any sizes until nothing comes returns the addresses of the list, one on a
  line, in the order they were blocked, as long as there are at most 254.\<close>
theorem file_lists_addresses:
  assumes "length bl \<le> 254" "\<forall>n \<in> set ns. 0 < n" "length (lines_of bl) \<le> sum_list ns"
  shows "reads (blacklist_read True bl) 0 ns = lines_of bl"
  using blacklist_file.reads_all [OF assms(2), of bl] list_text_all [of "[]" bl] assms(1,3) by simp

theorem file_lists_addresses_witness:
  "reads (blacklist_read True [134744072, 7]) 0 [5, 5, 100] = lines_of [134744072, 7]"
proof (rule file_lists_addresses)
  show "length (lines_of [134744072, 7]) \<le> sum_list [5, 5, 100]"
    using length_lines [of "[134744072, 7]"] by simp
qed simp_all

text \<open>A module that fails to load leaves no file and no hook, and one that is unloaded leaves neither, nor any
  entry of its list.\<close>
theorem nothing_after_unload:
  "fst (init_main a b) = (if snd (init_main a b) = None then nf_unloaded\<lparr>proc_entry := True, hooked := True\<rparr> else nf_unloaded)
   \<and> cleanup_main m = nf_unloaded"
proof -
  have "free_list bl = []" for bl by (induction bl) auto
  then have "cleanup_main m = nf_unloaded" by (cases m) (simp add: cleanup_main_def nf_unloaded_def Let_def)
  then show ?thesis by (auto simp: init_main_def nf_unloaded_def Let_def)
qed

end
