(* ===== verification/CharDev.thy ===== *)
theory CharDev
  imports KernelIO
begin

text \<open>
  The character device of \<^verbatim>\<open>module5/task4/chardev.c\<close>, which keeps one message in the kernel.
  \<open>None\<close> is an access outside the message buffer.
\<close>

section \<open>The character device\<close>

definition BUF_LEN :: nat where "BUF_LEN = 80"

record chardev =
  already_open :: bool
  msg :: mem
  module_refs :: int

definition chardev_loaded :: chardev where
  "chardev_loaded = \<lparr>already_open = False, msg = replicate BUF_LEN NUL, module_refs = 0\<rparr>"

text \<open>\<open>atomic_cmpxchg\<close>: the flag is tested and set in one step.\<close>

definition device_open :: "chardev \<Rightarrow> chardev \<times> errno option" where
  "device_open s =
     (if already_open s then (s, Some EBUSY)
      else (s\<lparr>already_open := True, module_refs := module_refs s + 1\<rparr>, None))"

definition device_release :: "chardev \<Rightarrow> chardev" where
  "device_release s = s\<lparr>already_open := False, module_refs := module_refs s - 1\<rparr>"

text \<open>The copying loop: up to \<open>n\<close> bytes or the first NUL.\<close>

fun copy_out :: "mem \<Rightarrow> nat \<Rightarrow> nat \<Rightarrow> byte list option" where
  "copy_out m a 0 = Some []"
| "copy_out m a (Suc n) = do {
     c \<leftarrow> load m a 1;
     if hd c = NUL then Some []
     else do { bs \<leftarrow> copy_out m (a + 1) n; Some (hd c # bs) } }"

text \<open>The bytes and the new offset.\<close>

definition device_read :: "mem \<Rightarrow> nat \<Rightarrow> nat \<Rightarrow> (byte list \<times> nat) option" where
  "device_read m len off = do {
     c \<leftarrow> load m off 1;
     if hd c = NUL then Some ([], 0)
     else do { bs \<leftarrow> copy_out m off len; Some (bs, off + length bs) } }"

text \<open>The copying loop of \<open>device_write\<close>, from position \<open>ind\<close> on.\<close>

fun copy_in :: "mem \<Rightarrow> nat \<Rightarrow> byte list \<Rightarrow> mem \<times> nat" where
  "copy_in m ind [] = (m, ind)"
| "copy_in m ind (b # bs) = (if ind < BUF_LEN - 1 then copy_in (m[ind := b]) (Suc ind) bs else (m, ind))"

definition device_write :: "byte list \<Rightarrow> mem \<Rightarrow> mem \<times> nat" where
  "device_write buff m = copy_in (replicate BUF_LEN NUL) 0 buff"

text \<open>What the kernel knows of the module.\<close>

record chrdev_reg =
  registered :: bool
  dev_class :: bool
  dev_node :: bool

text \<open>\<open>chardev_init\<close>; the result of \<open>class_create\<close> is used unchecked, so a failure there gives \<open>None\<close>.\<close>

definition chardev_init :: "bool \<Rightarrow> bool \<Rightarrow> (chrdev_reg \<times> errno option) option" where
  "chardev_init register_ok class_ok =
     (let r = \<lparr>registered = False, dev_class = False, dev_node = False\<rparr> in
      if \<not> register_ok then Some (r, Some ERegister)
      else if \<not> class_ok then None
      else Some (r\<lparr>registered := True, dev_class := True, dev_node := True\<rparr>, None))"

definition chardev_exit :: "chrdev_reg \<Rightarrow> chrdev_reg" where
  "chardev_exit r = r\<lparr>dev_node := False, dev_class := False, registered := False\<rparr>"

section \<open>The message of the device\<close>

lemma copy_in_result:
  "ind \<le> BUF_LEN - 1 \<Longrightarrow> length m = BUF_LEN \<Longrightarrow>
   copy_in m ind bs = (take ind m @ take (BUF_LEN - 1 - ind) bs @ drop (ind + min (BUF_LEN - 1 - ind) (length bs)) m,
     ind + min (BUF_LEN - 1 - ind) (length bs))"
proof (induction bs arbitrary: m ind)
  case (Cons b bs)
  show ?case
  proof (cases "ind < BUF_LEN - 1")
    case True
    then obtain k where k: "BUF_LEN - 1 - ind = Suc k" by (metis Suc_diff_Suc)
    then have k': "BUF_LEN - 1 - Suc ind = k" by simp
    have "take (Suc ind) (m[ind := b]) = take ind m @ [b]"
      using True Cons.prems(2) by (simp add: take_Suc_conv_app_nth)
    moreover have "drop (Suc ind + j) (m[ind := b]) = drop (Suc ind + j) m" for j by simp
    ultimately have "copy_in (m[ind := b]) (Suc ind) bs
        = ((take ind m @ [b]) @ take k bs @ drop (Suc ind + min k (length bs)) m, Suc ind + min k (length bs))"
      using True Cons.IH [of "Suc ind" "m[ind := b]"] Cons.prems k' by simp
    moreover have "BUF_LEN - Suc ind = Suc k" using k by simp
    ultimately show ?thesis using True by simp
  next
    case False
    then show ?thesis using Cons.prems by simp
  qed
qed simp

text \<open>A write leaves the first 79 bytes, padded with zeros.\<close>

lemma device_write_result:
  "device_write buff m = (take 79 buff @ replicate (80 - min 79 (length buff)) NUL, min 79 (length buff))"
  by (simp add: device_write_def copy_in_result BUF_LEN_def min_def)

definition after_write :: "byte list \<Rightarrow> mem" where
  "after_write buff = fst (device_write buff (replicate BUF_LEN NUL))"

lemma after_write_split:
  "\<exists>z. after_write buff = cstr (take 79 buff) @ NUL # z"
proof -
  let ?m = "after_write buff"
  have m: "?m = take 79 buff @ replicate (80 - min 79 (length buff)) NUL"
    by (simp add: after_write_def device_write_result)
  then have "NUL \<in> set ?m" by simp
  moreover have "cstr ?m = cstr (take 79 buff)"
    by (cases "NUL \<in> set (take 79 buff)")
      (simp_all add: m cstr_append cstr_replicate_nul [of "[]", simplified] cstr_no_nul no_nul_def)
  ultimately show ?thesis using cstr_split [of ?m] by metis
qed

lemma length_after_write: "length (after_write buff) = BUF_LEN"
  by (simp add: after_write_def device_write_result BUF_LEN_def)

lemma load_byte: "a < length m \<Longrightarrow> load m a 1 = Some [m ! a]"
  by (simp add: load_def take_Suc_conv_app_nth take_Suc hd_drop_conv_nth)

lemma copy_out_word:
  "no_nul w \<Longrightarrow> off \<le> length w \<Longrightarrow> copy_out (w @ NUL # z) off n = Some (take n (drop off w))"
proof (induction n arbitrary: off)
  case (Suc n)
  have l: "load (w @ NUL # z) off 1 = Some [(w @ NUL # z) ! off]" using Suc.prems by (intro load_byte) simp
  show ?case
  proof (cases "off = length w")
    case True
    with l show ?thesis by simp
  next
    case False
    then have "off < length w" using Suc.prems by simp
    then have c: "(w @ NUL # z) ! off = w ! off" "w ! off \<noteq> NUL"
      using Suc.prems nth_mem [of off w] by (auto simp: nth_append no_nul_def simp del: nth_mem)
    have "drop off w = w ! off # drop (Suc off) w" using False Suc.prems by (simp add: Cons_nth_drop_Suc)
    with l c Suc.IH [of "Suc off"] Suc.prems False show ?thesis by simp
  qed
qed simp

lemma device_read_word:
  assumes "no_nul w" "off \<le> length w"
  shows "device_read (w @ NUL # z) n off =
    Some (if off = length w then ([], 0) else (take n (drop off w), off + min n (length w - off)))"
proof -
  have l: "load (w @ NUL # z) off 1 = Some [(w @ NUL # z) ! off]" using assms by (intro load_byte) simp
  show ?thesis
  proof (cases "off = length w")
    case True
    with l show ?thesis by (simp add: device_read_def)
  next
    case False
    then have "off < length w" using assms by simp
    then have "(w @ NUL # z) ! off = w ! off" "w ! off \<noteq> NUL"
      using assms nth_mem [of off w] by (auto simp: nth_append no_nul_def simp del: nth_mem)
    with l copy_out_word [OF assms, of z n] False show ?thesis by (simp add: device_read_def min.commute)
  qed
qed

text \<open>The device as a file to read; a fault counts as an error.\<close>

definition device_file :: "mem \<Rightarrow> read_fun" where
  "device_file m n off = (case device_read m n off of Some r \<Rightarrow> Inr r | None \<Rightarrow> Inl EFAULT)"

interpretation device: seq_reader "device_file (after_write buff)" "cstr (take 79 buff)" for buff
proof
  let ?w = "cstr (take 79 buff)"
  obtain z where z: "after_write buff = ?w @ NUL # z" using after_write_split by blast
  {
    fix pos n :: nat
    assume a: "pos < length ?w" "0 < n"
    let ?k = "min n (length ?w - pos)"
    have "device_file (after_write buff) n pos = Inr (take ?k (drop pos ?w), pos + ?k)"
      using device_read_word [of ?w pos z n] a by (simp add: device_file_def z min_def)
    then show "\<exists>k>0. k \<le> n \<and> pos + k \<le> length ?w \<and> (k = n \<or> pos + k = length ?w)
        \<and> device_file (after_write buff) n pos = Inr (take k (drop pos ?w), pos + k)"
      using a by (intro exI [of _ ?k]) auto
  next
    fix n
    show "\<exists>p. device_file (after_write buff) n (length ?w) = Inr ([], p)"
      using device_read_word [of ?w "length ?w" z n] by (simp add: device_file_def z)
  }
qed

section \<open>Properties\<close>

text \<open>C38: What is written to the device, up to its first zero byte and its first 79 bytes, is what a program reads
  that reads in pieces of any sizes until nothing comes.\<close>
theorem device_returns_message:
  assumes "\<forall>n \<in> set ns. 0 < n" "79 \<le> sum_list ns"
  shows "reads (device_file (fst (device_write buff m))) 0 ns = cstr (take 79 buff)"
proof -
  have "fst (device_write buff m) = after_write buff" by (simp add: after_write_def device_write_result)
  moreover have "length (cstr (take 79 buff)) \<le> 79"
    by (metis cstr_def length_take length_takeWhile_le min.cobounded2 order.trans)
  ultimately show ?thesis using device.reads_all [OF assms(1), of buff] assms(2) by simp
qed

theorem device_returns_message_witness:
  "reads (device_file (fst (device_write ''hello'' []))) 0 [2, 2, 100] = ''hello''"
  using device_returns_message [of "[2, 2, 100]" "''hello''" "[]"] by (simp add: cstr_def)

text \<open>Opening and releasing, by processes that only release what they opened.\<close>

datatype file_op = Open nat | Release nat

fun file_step :: "file_op \<Rightarrow> chardev \<times> nat list \<Rightarrow> chardev \<times> nat list" where
  "file_step (Open p) (s, hs) = (case device_open s of (s', e) \<Rightarrow> (s', if e = None then p # hs else hs))"
| "file_step (Release p) (s, hs) = (if p \<in> set hs then (device_release s, remove1 p hs) else (s, hs))"

text \<open>Whatever opens and releases come, at most one process has the device open, an open succeeds exactly when
  none has, and the module's use count is the number of processes that have it open.\<close>
theorem device_exclusive:
  "case fold file_step ops (chardev_loaded, []) of
     (s, hs) \<Rightarrow> length hs \<le> 1 \<and> (already_open s \<longleftrightarrow> hs \<noteq> []) \<and> module_refs s = int (length hs)"
proof (induction ops rule: rev_induct)
  case Nil
  then show ?case by (simp add: chardev_loaded_def)
next
  case (snoc e ops)
  obtain s hs where s: "fold file_step ops (chardev_loaded, []) = (s, hs)" by fastforce
  with snoc have inv: "length hs \<le> 1" "already_open s \<longleftrightarrow> hs \<noteq> []" "module_refs s = int (length hs)" by simp_all
  then consider "hs = []" | h where "hs = [h]" by (cases hs rule: list.exhaust; cases "tl hs") auto
  then show ?case
    using inv s by cases (cases e; simp add: device_open_def device_release_def)+
qed

text \<open>A read at an offset beyond the buffer leaves it, whatever the message.\<close>
theorem device_read_beyond_faults:
  assumes "length m = BUF_LEN" "BUF_LEN \<le> off"
  shows "device_read m n off = None"
  using assms by (simp add: device_read_def load_def)

theorem device_read_beyond_faults_witness: "device_read (msg chardev_loaded) 10 5000 = None"
  by (rule device_read_beyond_faults) (simp_all add: chardev_loaded_def BUF_LEN_def)

end
