(* ===== verification/ProcFile.thy ===== *)
theory ProcFile
  imports KernelIO
begin

text \<open>
  The proc file of \<^verbatim>\<open>module5/task2/proc_module.c\<close>, which keeps one message for everybody. Loading is two
  steps, since processes can use the entry between \<open>proc_create\<close> and \<open>kmalloc\<close>. The copies to and from user
  space may stop early. \<open>None\<close> is an access through a null pointer or outside the buffer.
\<close>

section \<open>State and operations\<close>

definition MSG_SIZE :: nat where "MSG_SIZE = 128"

text \<open>The entry in \<^verbatim>\<open>/proc\<close>, \<open>msg\<close> (\<open>None\<close> is NULL), \<open>len\<close> and \<open>temp\<close>.\<close>

record proc_file =
  proc_entry :: bool
  proc_msg :: "mem option"
  proc_len :: nat
  proc_temp :: nat

definition proc_static :: proc_file where
  "proc_static = \<lparr>proc_entry = False, proc_msg = None, proc_len = 0, proc_temp = 0\<rparr>"

text \<open>Reading \<open>n\<close> bytes from \<open>msg\<close>: no access at all when \<open>n\<close> is 0.\<close>

fun msg_load :: "mem option \<Rightarrow> nat \<Rightarrow> byte list option" where
  "msg_load m 0 = Some []"
| "msg_load None (Suc n) = None"
| "msg_load (Some m) (Suc n) = load m 0 (Suc n)"

text \<open>\<open>copy_ok\<close> is whether \<open>copy_to_user\<close> copies everything (nothing always succeeds). The offset of the file is not used: every read
  copies from the start of the message.\<close>

definition read_proc :: "bool \<Rightarrow> nat \<Rightarrow> proc_file \<Rightarrow> (proc_file \<times> (errno + byte list)) option" where
  "read_proc copy_ok count s =
     (let n = (if proc_temp s < count then proc_temp s else count);
          s = s\<lparr>proc_temp := proc_temp s - n\<rparr> in do {
      bs \<leftarrow> msg_load (proc_msg s) n;
      if 0 < n \<and> \<not> copy_ok then Some (s, Inl EFAULT)
      else Some (if n = 0 then s\<lparr>proc_temp := proc_len s\<rparr> else s, Inr bs) })"

text \<open>\<open>copy_from_user\<close> stores the first \<open>copied\<close> bytes, and zeros for those it could not read.\<close>

definition copy_from_user :: "nat \<Rightarrow> byte list \<Rightarrow> mem \<Rightarrow> mem option" where
  "copy_from_user copied bs m = store m 0 (take copied bs @ replicate (length bs - copied) NUL)"

definition msg_count :: "nat \<Rightarrow> nat" where
  "msg_count count = (if MSG_SIZE \<le> count then MSG_SIZE - 1 else count)"

definition write_proc :: "nat \<Rightarrow> byte list \<Rightarrow> proc_file \<Rightarrow> (proc_file \<times> (errno + nat)) option" where
  "write_proc copied buf s =
     (let to_copy = msg_count (length buf) in do {
      m \<leftarrow> proc_msg s;
      m \<leftarrow> copy_from_user copied (take to_copy buf) m;
      if copied < to_copy then Some (s\<lparr>proc_msg := Some m\<rparr>, Inl EFAULT)
      else do {
        m \<leftarrow> store m to_copy [NUL];
        Some (s\<lparr>proc_msg := Some m, proc_len := to_copy, proc_temp := to_copy\<rparr>, Inr (length buf)) } })"

section \<open>Loading and unloading\<close>

definition make_entry :: "bool \<Rightarrow> proc_file \<Rightarrow> proc_file" where
  "make_entry ok s = s\<lparr>proc_entry := ok\<rparr>"

text \<open>\<open>kmalloc\<close> gives \<open>MSG_SIZE\<close> bytes of any content, or NULL.\<close>

definition allocate :: "mem option \<Rightarrow> proc_file \<Rightarrow> proc_file" where
  "allocate r s = s\<lparr>proc_msg := r\<rparr>"

definition create_new_proc_entry :: "bool \<Rightarrow> mem option \<Rightarrow> proc_file \<Rightarrow> proc_file" where
  "create_new_proc_entry ok r s = allocate r (make_entry ok s)"

text \<open>Always 0, whatever failed.\<close>

definition proc_init :: "bool \<Rightarrow> mem option \<Rightarrow> proc_file \<times> int" where
  "proc_init ok r = (create_new_proc_entry ok r proc_static, 0)"

definition proc_cleanup :: "proc_file \<Rightarrow> proc_file" where
  "proc_cleanup s = s\<lparr>proc_entry := False, proc_msg := None\<rparr>"




section \<open>A loaded module\<close>

definition proc_inv :: "proc_file \<Rightarrow> bool" where
  "proc_inv s \<longleftrightarrow> (case proc_msg s of None \<Rightarrow> False | Some m \<Rightarrow> length m = MSG_SIZE)
     \<and> proc_temp s \<le> proc_len s \<and> proc_len s < MSG_SIZE"

lemma proc_invE:
  assumes "proc_inv s"
  obtains m where "proc_msg s = Some m" "length m = MSG_SIZE" "proc_temp s \<le> proc_len s" "proc_len s < MSG_SIZE"
  using assms by (auto simp: proc_inv_def split: option.splits)

lemma msg_load_Some: "n \<le> length m \<Longrightarrow> msg_load (Some m) n = Some (take n m)"
  by (cases n) (simp_all add: load_def)








section \<open>The message\<close>

lemma write_proc_whole:
  assumes "proc_inv s" "length w < MSG_SIZE"
  shows "\<exists>s'. write_proc (length w) w s = Some (s', Inr (length w)) \<and> proc_len s' = length w \<and> proc_temp s' = length w
    \<and> (\<exists>m. proc_msg s' = Some m \<and> take (length w) m = w \<and> length m = MSG_SIZE)"
proof -
  obtain m where m: "proc_msg s = Some m" "length m = MSG_SIZE" using assms(1) by (rule proc_invE)
  have n: "msg_count (length w) = length w" using assms(2) by (simp add: msg_count_def)
  show ?thesis using m assms(2) by (simp add: write_proc_def Let_def n copy_from_user_def store_def)
qed

lemma read_proc_part:
  assumes "proc_msg s = Some m" "proc_temp s \<le> length m" "0 < proc_temp s" "0 < count"
  shows "read_proc True count s =
    Some (s\<lparr>proc_temp := proc_temp s - min count (proc_temp s)\<rparr>, Inr (take (min count (proc_temp s)) m))"
  using assms by (cases "count \<le> proc_temp s") (simp_all add: read_proc_def Let_def msg_load_Some min_def)

lemma read_proc_end:
  "proc_temp s = 0 \<Longrightarrow> read_proc True count s = Some (s\<lparr>proc_temp := proc_len s\<rparr>, Inr [])"
  by (simp add: read_proc_def)

text \<open>A reader with a large enough buffer gets the message that was written last, then the end of the file; the
  read after that starts over. All readers share this sequence, so that of two who read in turns one gets the message
  and the other nothing.\<close>
theorem proc_readers_alternate:
  assumes "proc_inv s" "w \<noteq> []" "length w < MSG_SIZE" "length w \<le> n" "length w \<le> k"
  shows "do { (s, _) \<leftarrow> write_proc (length w) w s; (s, a) \<leftarrow> read_proc True n s; (s, b) \<leftarrow> read_proc True k s;
              (s, c) \<leftarrow> read_proc True n s; Some (a, b, c) } = Some (Inr w, Inr [], Inr w)"
proof -
  obtain s' m where w: "write_proc (length w) w s = Some (s', Inr (length w))" and s': "proc_len s' = length w"
      "proc_temp s' = length w" "proc_msg s' = Some m" "take (length w) m = w" "length m = MSG_SIZE"
    using write_proc_whole [OF assms(1,3)] by blast
  have "0 < length w" using assms(2) by simp
  then have n: "0 < n" using assms(4) by linarith
  have r: "read_proc True n s' = Some (s'\<lparr>proc_temp := 0\<rparr>, Inr w)"
    using read_proc_part [of s' m n] s' assms n by (simp add: min_absorb2)
  moreover have "read_proc True k (s'\<lparr>proc_temp := 0\<rparr>) = Some (s', Inr [])"
    using read_proc_end [of "s'\<lparr>proc_temp := 0\<rparr>" k] s' by simp
  ultimately show ?thesis using w by simp
qed

theorem proc_readers_alternate_witness:
  "do { (s, _) \<leftarrow> write_proc (length ''hello'') ''hello'' (fst (proc_init True (Some (replicate MSG_SIZE NUL))));
        (s, a) \<leftarrow> read_proc True 128 s; (s, b) \<leftarrow> read_proc True 64 s; (s, c) \<leftarrow> read_proc True 128 s; Some (a, b, c) }
     = Some (Inr ''hello'', Inr [], Inr ''hello'')"
proof -
  have i: "proc_inv (fst (proc_init True (Some (replicate MSG_SIZE NUL))))"
    by (simp add: proc_init_def create_new_proc_entry_def allocate_def make_entry_def proc_static_def proc_inv_def MSG_SIZE_def)
  show ?thesis by (rule proc_readers_alternate [OF i]) (simp_all add: MSG_SIZE_def)
qed

text \<open>A reader of the proc file whose buffer is smaller than the message gets the beginning of the message
  again in the next read instead of what follows.\<close>
theorem proc_short_reads_repeat:
  assumes "proc_inv s" "length w < MSG_SIZE" "0 < n" "2 * n \<le> length w"
  shows "do { (s, _) \<leftarrow> write_proc (length w) w s; (s, a) \<leftarrow> read_proc True n s; (s, b) \<leftarrow> read_proc True n s; Some (a, b) }
     = Some (Inr (take n w), Inr (take n w))"
proof -
  obtain s' m where w: "write_proc (length w) w s = Some (s', Inr (length w))" and s': "proc_len s' = length w"
      "proc_temp s' = length w" "proc_msg s' = Some m" "take (length w) m = w" "length m = MSG_SIZE"
    using write_proc_whole [OF assms(1,2)] by blast
  have t: "take n m = take n w" using s'(4) assms(4) by (metis add_leE min_absorb1 mult_2 take_take)
  have "w \<noteq> []" using assms(3,4) by auto
  then have "read_proc True n s' = Some (s'\<lparr>proc_temp := length w - n\<rparr>, Inr (take n w))"
    using read_proc_part [of s' m n] s' assms t by (simp add: min_absorb1)
  moreover have "\<exists>s3. read_proc True n (s'\<lparr>proc_temp := length w - n\<rparr>) = Some (s3, Inr (take n w))"
    using read_proc_part [of "s'\<lparr>proc_temp := length w - n\<rparr>" m n] s' assms t by (simp add: min_absorb1)
  ultimately show ?thesis using w by auto
qed

theorem proc_short_reads_repeat_witness:
  "do { (s, _) \<leftarrow> write_proc (length ''abcdef'') ''abcdef'' (fst (proc_init True (Some (replicate MSG_SIZE NUL))));
        (s, a) \<leftarrow> read_proc True 3 s; (s, b) \<leftarrow> read_proc True 3 s; Some (a, b) } = Some (Inr ''abc'', Inr ''abc'')"
proof -
  have i: "proc_inv (fst (proc_init True (Some (replicate MSG_SIZE NUL))))"
    by (simp add: proc_init_def create_new_proc_entry_def allocate_def make_entry_def proc_static_def proc_inv_def MSG_SIZE_def)
  show ?thesis using proc_short_reads_repeat [OF i, of "''abcdef''" 3] by (simp add: MSG_SIZE_def numeral_3_eq_3)
qed

section \<open>Without a buffer\<close>

text \<open>Between \<open>proc_create\<close> and \<open>kmalloc\<close>, and for ever when \<open>kmalloc\<close> fails although \<open>proc_init\<close> reports success,
  the entry can be opened: reads find an empty file, but every write goes through the null pointer.\<close>
theorem proc_write_without_buffer_faults:
  "read_proc True n (make_entry True proc_static) = Some (make_entry True proc_static, Inr [])
   \<and> write_proc copied w (make_entry True proc_static) = None
   \<and> write_proc copied w (fst (proc_init True None)) = None \<and> snd (proc_init True None) = 0"
  by (simp add: read_proc_def write_proc_def make_entry_def proc_static_def proc_init_def create_new_proc_entry_def allocate_def Let_def)

end
