(* ===== verification/Kbleds.thy ===== *)
theory Kbleds
  imports KernelIO
begin

text \<open>
  The keyboard LED module of \<^verbatim>\<open>module5/task3/kbleds_sysfs.c\<close>: a timer that toggles the LEDs between
  a mask and the restore value, and a sysfs file that sets the mask. The kernel's \<open>kstrtoint\<close> is a
  parameter; which objects exist and which registrations succeed is input.
\<close>

definition RESTORE_LEDS :: int where "RESTORE_LEDS = 255"

text \<open>
  \<open>test\<close> and \<open>_kbledstatus\<close>, whether the timer is pending, whether the sysfs directory and file
  exist, and the values given to the terminal's \<open>KDSETLED\<close>.
\<close>

record kbleds =
  test :: int
  kbledstatus :: int
  timer_pending :: bool
  kobject :: bool
  sysfs_file :: bool
  led_calls :: "int list"

definition kbleds_static :: kbleds where
  "kbleds_static = \<lparr>test = 3, kbledstatus = 0, timer_pending = False, kobject = False, sysfs_file = False, led_calls = []\<rparr>"

section \<open>The timer\<close>

text \<open>The function of the timer up to \<open>add_timer\<close>, and \<open>add_timer\<close>; the kernel has taken the timer off its list.\<close>

definition toggle_leds :: "bool \<Rightarrow> kbleds \<Rightarrow> kbleds" where
  "toggle_leds tty_ok s =
     (let st = (if kbledstatus s = test s then RESTORE_LEDS else test s) in
      s\<lparr>kbledstatus := st, led_calls := led_calls s @ (if tty_ok then [st] else [])\<rparr>)"

definition my_timer_func :: "bool \<Rightarrow> kbleds \<Rightarrow> kbleds" where
  "my_timer_func tty_ok s = (toggle_leds tty_ok (s\<lparr>timer_pending := False\<rparr>))\<lparr>timer_pending := True\<rparr>"

section \<open>The file\<close>

definition foo_show :: "kbleds \<Rightarrow> string" where
  "foo_show s = fmt_d (test s) @ [CHR 0x0A]"

definition foo_store :: "(string \<Rightarrow> int option) \<Rightarrow> string \<Rightarrow> kbleds \<Rightarrow> kbleds \<times> (errno + nat)" where
  "foo_store kstrtoint buf s =
     (case kstrtoint buf of
        None \<Rightarrow> (s, Inl EINVAL)
      | Some v \<Rightarrow> if v < 0 \<or> 7 < v then (s, Inl EINVAL) else (s\<lparr>test := v\<rparr>, Inr (length buf)))"

section \<open>Loading and unloading\<close>

definition kbleds_sysfs_init :: "bool \<Rightarrow> bool \<Rightarrow> bool \<Rightarrow> errno option \<Rightarrow> kbleds \<times> errno option" where
  "kbleds_sysfs_init tty_ok driver_ok kobject_ok sysfs_error =
     (let s = kbleds_static in
      if \<not> tty_ok then (s, Some ENODEV)
      else if \<not> driver_ok then (s, Some ENODEV)
      else let s = s\<lparr>timer_pending := True\<rparr> in
      if \<not> kobject_ok then (s\<lparr>timer_pending := False\<rparr>, Some ENOMEM)
      else let s = s\<lparr>kobject := True\<rparr> in
      case sysfs_error of
        Some e \<Rightarrow> (s\<lparr>kobject := False, timer_pending := False\<rparr>, Some e)
      | None \<Rightarrow> (s\<lparr>sysfs_file := True\<rparr>, None))"

text \<open>\<open>del_timer\<close> takes a pending timer off the list and does not wait for its function.\<close>

definition del_timer :: "kbleds \<Rightarrow> kbleds" where
  "del_timer s = s\<lparr>timer_pending := False\<rparr>"

definition exit_rest :: "bool \<Rightarrow> kbleds \<Rightarrow> kbleds" where
  "exit_rest tty_ok s =
     (let s = s\<lparr>led_calls := led_calls s @ (if tty_ok then [RESTORE_LEDS] else [])\<rparr> in
      if kobject s then s\<lparr>sysfs_file := False, kobject := False\<rparr> else s)"

definition kbleds_sysfs_exit :: "bool \<Rightarrow> kbleds \<Rightarrow> kbleds" where
  "kbleds_sysfs_exit tty_ok s = exit_rest tty_ok (del_timer s)"

section \<open>Properties\<close>

text \<open>Everything that can happen to a loaded module.\<close>

datatype leds_event = Tick bool | Store string

fun leds_step :: "(string \<Rightarrow> int option) \<Rightarrow> leds_event \<Rightarrow> kbleds \<Rightarrow> kbleds" where
  "leds_step kstrtoint (Tick ok) s = my_timer_func ok s"
| "leds_step kstrtoint (Store buf) s = fst (foo_store kstrtoint buf s)"

definition leds_ok :: "kbleds \<Rightarrow> bool" where
  "leds_ok s \<longleftrightarrow> test s \<in> {0..7} \<and> kbledstatus s \<in> {0..7} \<union> {RESTORE_LEDS}
     \<and> set (led_calls s) \<subseteq> {0..7} \<union> {RESTORE_LEDS}"

lemma leds_ok_step: "leds_ok s \<Longrightarrow> leds_ok (leds_step p e s)"
  by (cases e) (auto simp: leds_ok_def my_timer_func_def toggle_leds_def foo_store_def Let_def split: option.split)

text \<open>Whatever is written to the file and however often the timer fires, the mask stays within 0 to 7 and the
  terminal is only ever given a mask in this range or the restore value.\<close>
theorem leds_values_valid:
  "leds_ok (fold (leds_step kstrtoint) es kbleds_static)"
proof (induction es rule: rev_induct)
  case Nil
  then show ?case by (simp add: leds_ok_def kbleds_static_def)
next
  case (snoc e es)
  then show ?case by (simp add: leds_ok_step)
qed

fun ticks :: "nat \<Rightarrow> kbleds \<Rightarrow> kbleds" where
  "ticks 0 s = s"
| "ticks (Suc n) s = my_timer_func True (ticks n s)"

lemma test_ticks [simp]: "test (ticks n s) = test s"
  by (induction n) (simp_all add: my_timer_func_def toggle_leds_def Let_def)

text \<open>While the mask is not changed, the LEDs alternate between the mask and the restore value at every tick,
  whatever they were showing before.\<close>
theorem leds_blink:
  assumes "test s \<noteq> RESTORE_LEDS"
  shows "kbledstatus (ticks (Suc n) s) = (if (kbledstatus s = test s) = odd n then test s else RESTORE_LEDS)"
  using assms by (induction n) (auto simp: my_timer_func_def toggle_leds_def Let_def)

theorem leds_blink_witness:
  "kbledstatus (ticks (Suc 1) kbleds_static) =
    (if (kbledstatus kbleds_static = test kbleds_static) = odd (1 :: nat) then test kbleds_static else RESTORE_LEDS)"
  by (rule leds_blink) (simp add: kbleds_static_def RESTORE_LEDS_def)

text \<open>
  A module that fails to load leaves neither timer nor sysfs entry. Unloading stops the timer unless
  its function is running: then \<open>add_timer\<close> comes after \<open>del_timer\<close> and the timer stays pending.
\<close>

lemma init_failure_clean:
  "snd (kbleds_sysfs_init a b c d) \<noteq> None \<Longrightarrow> fst (kbleds_sysfs_init a b c d) = kbleds_static"
  by (auto simp: kbleds_sysfs_init_def kbleds_static_def Let_def split: option.splits)

lemma exit_stops_timer: "\<not> timer_pending (kbleds_sysfs_exit ok s)"
  by (simp add: kbleds_sysfs_exit_def del_timer_def exit_rest_def Let_def)

lemma exit_races_timer:
  "timer_pending ((exit_rest ok (del_timer (toggle_leds ok (s\<lparr>timer_pending := False\<rparr>))))\<lparr>timer_pending := True\<rparr>)"
  by simp

end
