(* ===== verification/NetlinkHello.thy ===== *)
theory NetlinkHello
  imports KernelIO
begin

text \<open>
  The netlink exchange of \<^verbatim>\<open>module5/task5\<close>: the kernel side answers every message with a greeting to
  the port the message names (\<^verbatim>\<open>nl_kernel.c\<close>), the user side sends one message and shows the answer
  (\<^verbatim>\<open>nl_user.c\<close>). Which allocations and calls succeed is input.
\<close>

definition NLMSG_HDRLEN :: nat where "NLMSG_HDRLEN = 16"
definition MAX_PAYLOAD :: nat where "MAX_PAYLOAD = 1024"
definition NLMSG_DONE :: nat where "NLMSG_DONE = 3"
definition KERNEL_RESPONSE_MSG :: string where "KERNEL_RESPONSE_MSG = ''Hello from kernel''"
definition USER_SEND_MSG :: string where "USER_SEND_MSG = ''Hello''"

text \<open>The header and the payload of a message, and the port it goes to.\<close>

record nlmsg =
  nlmsg_len :: nat
  nlmsg_type :: nat
  nlmsg_pid :: int
  payload :: "byte list"

text \<open>
  \<open>hello_nl_recv_msg\<close> on a buffer of \<open>skb_len\<close> bytes with a message; the answer and its port, or
  nothing. \<open>strncpy\<close> of exactly \<open>msg_size\<close> characters writes no terminating zero.
\<close>

definition hello_nl_recv_msg ::
  "bool \<Rightarrow> bool \<Rightarrow> bool \<Rightarrow> (nat \<times> nlmsg) option \<Rightarrow> (nlmsg \<times> int) option" where
  "hello_nl_recv_msg new_ok put_ok nl_sk skb =
     (case skb of
        None \<Rightarrow> None
      | Some (skb_len, nlh) \<Rightarrow>
          if skb_len < NLMSG_HDRLEN then None else
          let msg_size = length KERNEL_RESPONSE_MSG; pid = nlmsg_pid nlh in
          if \<not> new_ok then None
          else if \<not> put_ok then None
          else if \<not> nl_sk then None
          else Some (\<lparr>nlmsg_len = NLMSG_HDRLEN + msg_size, nlmsg_type = NLMSG_DONE, nlmsg_pid = 0,
                       payload = take msg_size KERNEL_RESPONSE_MSG\<rparr>, pid))"

definition hello_init :: "bool \<Rightarrow> bool \<times> errno option" where
  "hello_init create_ok = (if \<not> create_ok then (False, Some ENOMEM) else (True, None))"

definition hello_exit :: "bool \<Rightarrow> bool" where
  "hello_exit nl_sk = (if nl_sk then False else nl_sk)"

section \<open>The user program\<close>

text \<open>What it sends: a zeroed message of the full size with the text at its start.\<close>

definition user_request :: "int \<Rightarrow> nlmsg" where
  "user_request pid =
     \<lparr>nlmsg_len = NLMSG_HDRLEN + MAX_PAYLOAD, nlmsg_type = 0, nlmsg_pid = pid,
      payload = strncpy_field MAX_PAYLOAD (MAX_PAYLOAD - 1) USER_SEND_MSG\<rparr>"

text \<open>
  \<open>recvmsg\<close> puts the answer over the message that was sent, and the program prints its payload up to
  the first zero. The result: the text printed, or nothing and exit -1; \<open>reply\<close> is what arrives.
\<close>

definition nl_user_main :: "bool \<Rightarrow> bool \<Rightarrow> bool \<Rightarrow> bool \<Rightarrow> int \<Rightarrow> nlmsg option \<Rightarrow> string option" where
  "nl_user_main socket_ok bind_ok malloc_ok send_ok pid reply =
     (if \<not> socket_ok then None
      else if \<not> bind_ok then None
      else if \<not> malloc_ok then None
      else if \<not> send_ok then None
      else case reply of
        None \<Rightarrow> None
      | Some r \<Rightarrow> Some (cstr (payload r @ drop (length (payload r)) (payload (user_request pid)))))"

text \<open>The user program gets the kernel's whole greeting and nothing more, though the answer carries no
  terminating zero: the zeros of the longer request stand behind it.\<close>
theorem greeting_shown:
  "case hello_nl_recv_msg True True True (Some (NLMSG_HDRLEN + MAX_PAYLOAD, user_request pid)) of
     None \<Rightarrow> False
   | Some (reply, port) \<Rightarrow> port = pid
       \<and> nl_user_main True True True True pid (Some reply) = Some KERNEL_RESPONSE_MSG"
proof -
  have "drop 17 (payload (user_request pid)) = NUL # replicate 1006 NUL"
    by (simp add: user_request_def strncpy_field_def USER_SEND_MSG_def MAX_PAYLOAD_def cstr_def Let_def
        flip: replicate_Suc)
  moreover have "length KERNEL_RESPONSE_MSG = 17" "cstr (KERNEL_RESPONSE_MSG @ NUL # z) = KERNEL_RESPONSE_MSG" for z
    by (simp add: KERNEL_RESPONSE_MSG_def, rule cstr_append_nul) (simp add: KERNEL_RESPONSE_MSG_def)
  moreover have "nlmsg_pid (user_request pid) = pid" by (simp add: user_request_def)
  ultimately show ?thesis by (simp add: hello_nl_recv_msg_def nl_user_main_def Let_def)
qed

end
