(* ===== verification/Modules.thy ===== *)
theory Modules
  imports Firewall CharDev ProcFile Kbleds NetlinkHello StepSystem
begin

text \<open>
  The kernel modules of \<^verbatim>\<open>module5\<close> between \<open>insmod\<close> and \<open>rmmod\<close>, and the smallest of them, \<^verbatim>\<open>task1/hello.c\<close>.
  \<open>kernel_module\<close> is the contract of a module's \<open>init\<close> and \<open>exit\<close>: that nothing the module registered or allocated is
  left when it is not loaded.
\<close>

section \<open>Loading, use and unloading\<close>

text \<open>A module that is not loaded, with what it left behind, or loaded.\<close>

datatype 's module_state = Unloaded 's | Loaded 's

text \<open>\<open>ini e\<close> is \<open>init\<close> when the calls it makes end as \<open>e\<close> says, with its success.\<close>

inductive module_step ::
  "('e \<Rightarrow> 's \<times> bool) \<Rightarrow> ('s \<Rightarrow> 's \<Rightarrow> bool) \<Rightarrow> ('s \<Rightarrow> 's) \<Rightarrow> 's module_state \<Rightarrow> 's module_state \<Rightarrow> bool"
  for ini callback unload where
  insmod: "ini e = (s, True) \<Longrightarrow> module_step ini callback unload (Unloaded u) (Loaded s)"
| insmod_fails: "ini e = (s, False) \<Longrightarrow> module_step ini callback unload (Unloaded u) (Unloaded s)"
| used: "callback s t \<Longrightarrow> module_step ini callback unload (Loaded s) (Loaded t)"
| rmmod: "module_step ini callback unload (Loaded s) (Unloaded (unload s))"

inductive_cases module_stepE: "module_step ini callback unload s t"

locale kernel_module =
  fixes ini :: "'e \<Rightarrow> 's \<times> bool"
    and callback :: "'s \<Rightarrow> 's \<Rightarrow> bool"
    and unload :: "'s \<Rightarrow> 's"
    and inv :: "'s \<Rightarrow> bool"
    and holds :: "'s \<Rightarrow> bool"
  assumes load_inv: "ini e = (s, True) \<Longrightarrow> inv s"
    and load_failed: "ini e = (s, False) \<Longrightarrow> \<not> holds s"
    and callback_inv: "inv s \<Longrightarrow> callback s t \<Longrightarrow> inv t"
    and unload_clean: "inv s \<Longrightarrow> \<not> holds (unload s)"
begin

definition module_ok :: "'s module_state \<Rightarrow> bool" where
  "module_ok m \<longleftrightarrow> (case m of Unloaded s \<Rightarrow> \<not> holds s | Loaded s \<Rightarrow> inv s)"

lemma module_ok_step: "module_step ini callback unload m n \<Longrightarrow> module_ok m \<Longrightarrow> module_ok n"
  by (erule module_stepE) (auto simp: module_ok_def dest: load_inv load_failed callback_inv unload_clean)

end

sublocale kernel_module \<subseteq> life: step_system "module_step ini callback unload"
    "\<lambda>m. \<exists>s. m = Unloaded s \<and> \<not> holds s" module_ok
  by unfold_locales (force simp: module_ok_def, rule module_ok_step)

context kernel_module
begin

text \<open>However often the module is loaded, used and unloaded: unloaded, it holds nothing.\<close>

lemma unloaded_holds_nothing:
  "(module_step ini callback unload)\<^sup>*\<^sup>* (Unloaded s0) (Unloaded s) \<Longrightarrow> \<not> holds s0 \<Longrightarrow> \<not> holds s"
  using life.inv_reachable [of "Unloaded s0" "Unloaded s"] by (simp add: module_ok_def)

end

section \<open>The greeting module\<close>

text \<open>The kernel's log with the bytes of the two texts (UTF-8).\<close>

definition HELLO_TEXT :: string where
  "HELLO_TEXT = ''Hello world! '' @ map char_of [208 :: nat, 158, 208, 189, 208, 190, 32, 209, 128, 208, 181, 208, 176, 208,
     187, 209, 140, 208, 189, 208, 190, 32, 209, 128, 208, 176, 208, 177, 208, 190, 209, 130, 208, 176, 208, 181, 209, 130, 63,
     32, 208, 175, 32, 208, 178, 32, 209, 136, 208, 190, 208, 186, 208, 181, 33, 32, 208, 146, 209, 129, 208, 181, 208, 188, 32,
     208, 159, 209, 128, 208, 184, 208, 178, 208, 181, 209, 130, 33, 10]"

definition GOODBYE_TEXT :: string where
  "GOODBYE_TEXT = ''Goodbye world! '' @ map char_of [208 :: nat, 156, 208, 190, 208, 180, 209, 131, 208, 187, 209, 140, 32,
     208, 178, 209, 139, 208, 179, 209, 128, 209, 131, 208, 182, 208, 181, 208, 189, 46, 32, 208, 163, 209, 128, 208, 176, 33, 10]"

definition hello_world_init :: "string list \<Rightarrow> string list \<times> int" where
  "hello_world_init log = (log @ [HELLO_TEXT], 0)"

definition hello_cleanup :: "string list \<Rightarrow> string list" where
  "hello_cleanup log = log @ [GOODBYE_TEXT]"

text \<open>It always loads and holds nothing.\<close>

interpretation hello: kernel_module "\<lambda>log. (fst (hello_world_init log), snd (hello_world_init log) = 0)" "\<lambda>_ _. False"
    hello_cleanup "\<lambda>_. True" "\<lambda>_. False"
  by unfold_locales simp_all

lemma hello_loads: "snd (hello_world_init log) = 0"
  by (simp add: hello_world_init_def)

section \<open>The other modules\<close>

text \<open>The packet filter: its file, its hook and its list. Reads and packets change nothing.\<close>

definition nf_writes :: "(string \<Rightarrow> nat option) \<Rightarrow> nf_module \<Rightarrow> nf_module \<Rightarrow> bool" where
  "nf_writes in4_pton m n \<longleftrightarrow>
     (\<exists>copy_ok kmalloc_ok buf. n = m\<lparr>blacklist_ips := fst (blacklist_write in4_pton copy_ok kmalloc_ok buf (blacklist_ips m))\<rparr>)"

definition nf_holds :: "nf_module \<Rightarrow> bool" where
  "nf_holds m \<longleftrightarrow> Firewall.proc_entry m \<or> hooked m \<or> blacklist_ips m \<noteq> []"

lemma free_list_Nil: "free_list es = []"
  by (induction es) auto

definition nf_load :: "bool \<times> bool \<Rightarrow> nf_module \<times> bool" where
  "nf_load = (\<lambda>(a, b). (fst (init_main a b), snd (init_main a b) = None))"

interpretation nf: kernel_module nf_load "nf_writes in4_pton" cleanup_main "\<lambda>_. True" nf_holds for in4_pton
  by unfold_locales
    (auto simp: nf_load_def nf_holds_def init_main_def nf_unloaded_def cleanup_main_def free_list_Nil Let_def split: if_splits)

text \<open>The character device: its number, its class and its node, when \<open>class_create\<close> succeeds; calls on the device
  register nothing.\<close>

definition chrdev_holds :: "chrdev_reg \<Rightarrow> bool" where
  "chrdev_holds r \<longleftrightarrow> registered r \<or> dev_class r \<or> dev_node r"

definition chrdev_load :: "bool \<Rightarrow> chrdev_reg \<times> bool" where
  "chrdev_load register_ok = (case the (chardev_init register_ok True) of (r, e) \<Rightarrow> (r, e = None))"

interpretation chrdev: kernel_module chrdev_load "(=)" chardev_exit "\<lambda>_. True" chrdev_holds
  by unfold_locales (auto simp: chrdev_load_def chardev_init_def chardev_exit_def chrdev_holds_def Let_def split: if_splits)

text \<open>The proc file: its entry and its buffer.\<close>

definition proc_holds :: "proc_file \<Rightarrow> bool" where
  "proc_holds s \<longleftrightarrow> ProcFile.proc_entry s \<or> proc_msg s \<noteq> None"

interpretation proc: kernel_module "\<lambda>(ok, r). (fst (proc_init ok r), snd (proc_init ok r) = 0)"
    "\<lambda>s t. \<exists>op. proc_call op s = Some t" proc_cleanup "\<lambda>_. True" proc_holds
  by unfold_locales (auto simp: proc_init_def proc_cleanup_def proc_holds_def)

text \<open>The LEDs: the timer, the kobject and its file. \<open>rmmod\<close> comes while the timer's function is not running; what
  happens otherwise is \<open>exit_races_timer\<close>.\<close>

definition leds_holds :: "kbleds \<Rightarrow> bool" where
  "leds_holds s \<longleftrightarrow> timer_pending s \<or> kobject s \<or> sysfs_file s"

definition leds_entries :: "kbleds \<Rightarrow> bool" where
  "leds_entries s \<longleftrightarrow> (sysfs_file s \<longrightarrow> kobject s)"

lemma leds_step_entries [simp]:
  "kobject (leds_step p e s) = kobject s" "sysfs_file (leds_step p e s) = sysfs_file s"
  by (cases e; simp add: my_timer_func_def toggle_leds_def foo_store_def Let_def split: option.split)+

definition leds_load :: "bool \<times> bool \<times> bool \<times> errno option \<Rightarrow> kbleds \<times> bool" where
  "leds_load = (\<lambda>(a, b, c, d). (fst (kbleds_sysfs_init a b c d), snd (kbleds_sysfs_init a b c d) = None))"

interpretation leds: kernel_module leds_load "\<lambda>s t. \<exists>e. t = leds_step kstrtoint e s" "kbleds_sysfs_exit tty_ok"
    leds_entries leds_holds for kstrtoint tty_ok
proof unfold_locales
  show "leds_load e = (s, True) \<Longrightarrow> leds_entries s" for e s
    by (cases e) (auto simp: leds_load_def leds_entries_def kbleds_sysfs_init_def kbleds_static_def Let_def
        split: if_splits option.splits)
  show "leds_load e = (s, False) \<Longrightarrow> \<not> leds_holds s" for e s
    using init_failure_clean by (cases e) (force simp: leds_load_def leds_holds_def kbleds_static_def)
qed (auto simp: leds_entries_def leds_holds_def kbleds_sysfs_exit_def exit_rest_def del_timer_def Let_def)

text \<open>The netlink greeting: its socket.\<close>

interpretation netlink: kernel_module "\<lambda>ok. (fst (hello_init ok), snd (hello_init ok) = None)" "(=)" hello_exit
    "\<lambda>_. True" "\<lambda>nl_sk. nl_sk"
  by unfold_locales (auto simp: hello_init_def hello_exit_def split: if_splits)

section \<open>What is left\<close>

text \<open>However often the packet filter is loaded, with calls that fail or not, written to and unloaded, and likewise the
  LED module: unloaded they leave neither file nor hook, list, timer or kobject.\<close>
theorem unloaded_modules_leave_nothing:
  "\<not> ((module_step nf_load (nf_writes in4_pton) cleanup_main)\<^sup>*\<^sup>* (Unloaded nf_unloaded) (Unloaded m) \<and> nf_holds m)
   \<and> \<not> ((module_step leds_load (\<lambda>s t. \<exists>e. t = leds_step kstrtoint e s) (kbleds_sysfs_exit tty_ok))\<^sup>*\<^sup>*
       (Unloaded kbleds_static) (Unloaded s) \<and> leds_holds s)"
proof -
  have "\<not> nf_holds nf_unloaded" "\<not> leds_holds kbleds_static"
    by (simp_all add: nf_holds_def nf_unloaded_def leds_holds_def kbleds_static_def)
  then show ?thesis using nf.unloaded_holds_nothing leds.unloaded_holds_nothing by blast
qed

end
