(* ===== verification/Spec2Isabelle.thy ===== *)
theory Spec2Isabelle
  imports BrokerTests ShmTests ShmQueue ShmMain RawNet TcpRoom SnifferProofs UdpRoom TaxiSystem CopierTests CopierSystem
    QueueTests Modules
begin

text \<open>
  Verification of the C programs of the repository: the inter-process communication and network
  programs of \<^verbatim>\<open>src/module3\<close> and the kernel modules of \<^verbatim>\<open>src/module5\<close>. Each program stands alone;
  what they share is the C library and a few patterns (fixed tables, byte buffers, sequential files),
  which are the library theories here.

  \<^bold>\<open>Library.\<close> \<^verbatim>\<open>CLib\<close>: bytes, little- and big-endian integers, the wrap-around of \<open>int\<close>, C strings,
  \<open>strncpy\<close>, \<open>snprintf\<close>. \<^verbatim>\<open>CScan\<close>: \<open>%d\<close>, \<open>sscanf\<close>, \<open>atoi\<close>, \<open>strchr\<close> and their round trips.
  \<^verbatim>\<open>Mem\<close>: a memory whose every access is checked, so that \<open>None\<close> is an access outside it; \<^verbatim>\<open>MemWp\<close>: a
  weakest-precondition calculus (\<open>wp\<close>, \<open>cells\<close>) for straight-line code on it.
  \<^verbatim>\<open>Registry\<close>: the locales \<open>bounded_table\<close>, \<open>bounded_registry\<close> and \<open>deletable_table\<close>, the contract of a
  table in a fixed array; the broker, the echo server, the chat server and the taxi server interpret them.
  \<^verbatim>\<open>KernelIO\<close>: error numbers and the locale \<open>seq_reader\<close>, the contract of a file read piece by piece;
  the packet filter's list and the character device interpret it.
  \<^verbatim>\<open>StepSystem\<close>: the locales \<open>step_system\<close> (invariants), \<open>draining_system\<close> (every state can come to rest) and
  \<open>simulation\<close> (runs of an abstract system), the contracts of the models of concurrent programs; broker, copier,
  shared-memory list, echo network, chat room, queue chat, UDP chat and taxi system interpret them.

  \<^bold>\<open>Message broker\<close> (\<^verbatim>\<open>module3/task02\<close>). \<^verbatim>\<open>Broker\<close> models \<^verbatim>\<open>broker.c\<close>: the static tables and flags are
  the record \<open>broker\<close>, each handler is a function on it, and \<open>broker_loop\<close>/\<open>broker_recv\<close> are the
  receive loop over what \<open>msgrcv\<close> brings (messages, signals, errors); \<^verbatim>\<open>BrokerClients\<close> models
  \<^verbatim>\<open>publisher.c\<close>, \<^verbatim>\<open>subscriber.c\<close> and \<^verbatim>\<open>main.c\<close>. \<^verbatim>\<open>BrokerProofs\<close> shows that the tables stay well formed
  in every reachable state, what a publication delivers, that a subscription with the clients' own
  texts leads to delivery and an unsubscription ends it, that no routed text is cut, what shutdown
  does, and two ways to lose messages or signals. \<^verbatim>\<open>BrokerSystem\<close> joins broker and clients by one queue
  (\<open>net_step\<close>) and shows that they refine a specification of subscriptions and deliveries without texts
  and queues, that they simulate an abstract broker with a mailbox per client (\<open>pubsub_step\<close>), and that everything can
  be delivered; \<^verbatim>\<open>BrokerTests\<close> models the test program
  \<^verbatim>\<open>unit_tests.c\<close> with the queue of the key and the broker as a child, and shows that its tests pass.

  \<^bold>\<open>Shared-memory list\<close> (\<^verbatim>\<open>module3/task04\<close>, \<^verbatim>\<open>task05\<close>). \<^verbatim>\<open>ShmList\<close> models the code between taking and
  releasing the semaphore as functions on the 4096 bytes of the segment; \<open>layout\<close> holds what differs
  between the two programs. \<^verbatim>\<open>ShmProofs\<close> reads the bytes as a queue of blocks (\<open>blocks_at\<close>,
  \<open>shm_inv\<close>) and proves in the locale \<open>shm_layout\<close> that each step implements its operation on the
  queue, for any layout; both headers interpret it. \<^verbatim>\<open>ShmSystem\<close> interleaves a producer and any number
  of consumers (\<open>shm_step\<close>): mutual exclusion, each block processed once and in order, nothing left at
  clean-up, and that the end can always be reached. \<^verbatim>\<open>ShmQueue\<close>: the system simulates an abstract queue of blocks
  (\<open>workqueue_step\<close>) with neither bytes nor processes. \<^verbatim>\<open>ShmIpc\<close> models how segment and semaphore are
  made and removed. \<^verbatim>\<open>ShmMain\<close> models \<open>main\<close> of both producers with their loops and shows that they end, at most 113
  blocks of at least 36 bytes fitting into the segment. \<^verbatim>\<open>ShmTests\<close> models both test programs on any initial bytes and shows that their copies of the
  producer's and the consumer's steps agree with the programs. A walk of the list is a \<open>partial_function\<close>; that it ends is proved with the rest.

  \<^bold>\<open>Raw echo\<close> (\<^verbatim>\<open>module3/task09\<close>). \<^verbatim>\<open>RawUdp\<close>: checksum and packet building (\<^verbatim>\<open>utils.c\<close>); \<^verbatim>\<open>RawEcho\<close>: server
  and client; \<^verbatim>\<open>RawEchoProofs\<close>: the counters of the client table after any history, accepted checksums,
  the round trip of a message, which packets are safe and which are not. A buffer keeps the bytes of
  earlier packets; the client waits for at most 5 receptions, as the code does. \<^verbatim>\<open>RawNet\<close> puts the server and any number
  of clients on a network that loses, repeats and reorders packets (\<open>raw_step\<close>): what a client shows is an echo of its own
  lines, no packet makes a program leave its buffers, every line can still be answered; and a client on the server's host
  that was given the server's port makes the server answer itself.

  \<^bold>\<open>TCP chat\<close> (\<^verbatim>\<open>module3/task07\<close>). \<^verbatim>\<open>TcpChat\<close> models \<^verbatim>\<open>common.c\<close>, \<^verbatim>\<open>server.c\<close> and \<^verbatim>\<open>client.c\<close> with packets as
  their 1320 bytes; \<^verbatim>\<open>TcpChatProofs\<close> shows that the socket table is the set of open connections, that
  packets survive fragmentation and reach everybody else, that lines arrive, and what becomes of files.
  \<^verbatim>\<open>TcpRoom\<close> joins the server and any number of clients by two streams per connection (\<open>room_step\<close>): the
  streams hold whole packets, the room refines a common log of packets, and it can always come to rest.

  \<^bold>\<open>UDP chat and sniffer\<close> (\<^verbatim>\<open>module3/task06\<close>, \<^verbatim>\<open>task08\<close>). \<^verbatim>\<open>UdpChat\<close>: the broadcast chat with packets as their
  552 bytes, what a line becomes at the other members, and the join and leave messages. \<^verbatim>\<open>UdpRoom\<close> puts any number
  of runs of \<open>main\<close> on a network that loses, repeats and reorders datagrams (\<open>lan_step\<close>): no line on a screen is made
  up, and processes with one pid never see each other. \<^verbatim>\<open>Sniffer\<close> models
  the parsing of frames in a buffer whose every access is checked, the filters, the output and the
  promiscuous mode; \<^verbatim>\<open>SnifferProofs\<close> shows that parsing stays inside the frame, takes every well-formed
  frame apart, loses nothing in the hex dump, and, over the models of both programs, that a line typed
  in the chat is shown by the sniffer.

  \<^bold>\<open>Taxi dispatcher\<close> (\<^verbatim>\<open>module3/task10\<close>). \<^verbatim>\<open>Taxi\<close>: the driver with its timer (\<open>driver_run\<close>) and the server
  with its table and commands (\<open>server_round\<close>); \<open>taxi_step\<close> interleaves server, drivers and time over the
  FIFOs. \<^verbatim>\<open>TaxiProofs\<close>: a driver refines a specification that only keeps the time from which it is free
  (\<open>book\<close>), the invariant of the reachable states (\<open>taxi_inv\<close>), and what commands typed at the terminal
  do and show. \<^verbatim>\<open>TaxiSystem\<close>: the FIFOs can always be emptied, each request answered and each answer shown once.

  \<^bold>\<open>File copier\<close> (\<^verbatim>\<open>module3/task01\<close>). \<^verbatim>\<open>Copier\<close>: the option loop of \<open>main\<close>, the two processes joined by a
  data channel (\<open>copy_loop\<close> is the loop both have), the descriptors of the pipes and the opening of
  the FIFOs. \<^verbatim>\<open>CopierProofs\<close>: the option loop equals a reference definition, an exit code 0 means complete
  copies for every behaviour of the kernel, copying ends and succeeds when no call fails, and what
  goes wrong with descriptors and FIFOs. \<^verbatim>\<open>CopierSystem\<close> interleaves the two processes of a file call by call on a pipe
  of bounded size (\<open>pair_step\<close>): success means a complete copy, every run ends, nobody waits for ever. \<^verbatim>\<open>CopierTests\<close>: the test program; its comparison of files in pieces is equality,
  and its tests pass.

  \<^bold>\<open>Queue chat\<close> (\<^verbatim>\<open>module3/task03\<close>). \<^verbatim>\<open>QueueChat\<close>: names, roles and the running chat of two processes
  (\<open>chat_step\<close>); \<^verbatim>\<open>QueueChatProofs\<close>: crossed roles and clean-up, lines arrive in order (\<open>chat_inv\<close>), a
  process that listens can catch up, and the exit message overtakes lines. \<^verbatim>\<open>QueueTests\<close>: the test program.

  \<^bold>\<open>Kernel modules\<close> (\<^verbatim>\<open>module5\<close>). \<^verbatim>\<open>Firewall\<close> (\<^verbatim>\<open>task6/nf.c\<close>), \<^verbatim>\<open>CharDev\<close> (\<^verbatim>\<open>task4/chardev.c\<close>),
  \<^verbatim>\<open>ProcFile\<close> (\<^verbatim>\<open>task2/proc_module.c\<close>), \<^verbatim>\<open>Kbleds\<close> (\<^verbatim>\<open>task3/kbleds_sysfs.c\<close>), \<^verbatim>\<open>NetlinkHello\<close> (\<^verbatim>\<open>task5\<close>), each with its
  properties. \<^verbatim>\<open>Modules\<close>: \<open>insmod\<close> and \<open>rmmod\<close> with the locale \<open>kernel_module\<close>, which all of them and \<^verbatim>\<open>task1/hello.c\<close>
  interpret: unloaded, they hold nothing. The kernel's \<open>in4_pton\<close> and \<open>kstrtoint\<close> are parameters.

  \<^bold>\<open>Inputs and parameters.\<close> What system calls return, which of them fail, what \<open>rand\<close> and the stack
  hold is input of the definitions, as lists of results or as boolean arguments. Loops over inputs are
  structural recursions on these lists, so no fuel is needed; a list that ends is a program that still
  waits (in the copier \<open>None\<close>).

  \<^bold>\<open>Not modelled.\<close> Printing for the user, socket options, option parsing inside \<open>getopt\<close>, the shell
  exercises of \<^verbatim>\<open>module1\<close>, the device configurations of \<^verbatim>\<open>module4\<close>.
\<close>

end
